(* ===== verification/GoPrelude.thy ===== *)
theory GoPrelude
  imports Complex_Main "HOL-Library.AList" "HOL-Library.Multiset" "HOL-Library.Word"
begin

text \<open>
  The prelude of the development: the Go notions every component shares.

  \<^item> machine integers: \<open>uint64\<close>, \<open>uint16\<close>, \<open>uint8\<close> as words, \<open>saturating_add\<close> for the
    counters that stop at their maximum;
  \<^item> \<open>time.Time\<close> as the number of nanoseconds since the Unix epoch (UTC wall clock, no monotonic
    reading), \<open>time.Duration\<close> as a number of nanoseconds, with the saturation of \<open>Time.Sub\<close>;
  \<^item> Go maps as association lists with distinct keys, so that iteration is executable: the
    list order is the iteration order, which Go leaves unspecified;
  \<^item> bytes and strings, the checks on them that several packages repeat.
\<close>

section \<open>Collections of the development\<close>

named_theorems counter_simps \<open>facts about saturating and wrapping counters\<close>
named_theorems time_simps \<open>facts about instants and durations\<close>
named_theorems alist_simps \<open>facts about association lists used as Go maps\<close>

section \<open>Machine integers\<close>

type_synonym uint64 = "64 word"
type_synonym uint32 = "32 word"
type_synonym uint16 = "16 word"
type_synonym uint8 = "8 word"

definition max_uint64 :: uint64 where
  "max_uint64 = - 1"

definition saturating_add :: "uint64 \<Rightarrow> uint64 \<Rightarrow> uint64" where
  "saturating_add c v = (if max_uint64 - c < v then max_uint64 else c + v)"

definition saturating_inc :: "uint64 \<Rightarrow> uint64" where
  "saturating_inc c = (if c < max_uint64 then c + 1 else c)"

lemma max_uint64_max [simp]: "x \<le> max_uint64"
  by (simp add: max_uint64_def)

lemma unat_max_uint64 [counter_simps]: "unat max_uint64 = 2 ^ 64 - 1"
  by (simp add: max_uint64_def unsigned_minus_1_eq_mask mask_eq_exp_minus_1)

lemma unat_max_minus [counter_simps]: "unat (max_uint64 - c) = 2 ^ 64 - 1 - unat c"
  by (simp add: unat_sub counter_simps)

lemma unat_uint64_bound: "unat (c :: uint64) < 2 ^ 64"
  using unsigned_less [of c] by simp

lemma unat_saturating_add [counter_simps]:
  "unat (saturating_add c v) = min (2 ^ 64 - 1) (unat c + unat v)"
proof (cases "max_uint64 - c < v")
  case True
  then have "2 ^ 64 - 1 - unat c < unat v"
    by (simp add: word_less_nat_alt counter_simps)
  then have "2 ^ 64 - 1 \<le> unat c + unat v"
    by linarith
  with True show ?thesis
    by (simp add: saturating_add_def counter_simps)
next
  case False
  then have "unat v \<le> 2 ^ 64 - 1 - unat c"
    by (simp add: word_less_nat_alt counter_simps)
  then have le: "unat c + unat v < 2 ^ 64"
    using unat_uint64_bound [of c] by linarith
  then have "unat (c + v) = unat c + unat v"
    by (simp add: unat_word_ariths)
  with False le show ?thesis
    by (simp add: saturating_add_def)
qed

lemma saturating_add_mono: "c \<le> saturating_add c v"
  using unat_uint64_bound [of c] by (simp add: word_le_nat_alt counter_simps)

lemma unat_saturating_inc [counter_simps]:
  "unat (saturating_inc c) = min (2 ^ 64 - 1) (unat c + 1)"
proof (cases "c < max_uint64")
  case True
  then have "unat c + 1 < 2 ^ 64"
    by (simp add: word_less_nat_alt counter_simps)
  then have "unat (c + 1) = unat c + 1"
    by (simp add: unat_word_ariths)
  with True \<open>unat c + 1 < 2 ^ 64\<close> show ?thesis
    by (simp add: saturating_inc_def)
next
  case False
  then have "c = max_uint64"
    by (metis max_uint64_max order_antisym_conv linorder_not_less)
  then show ?thesis
    by (simp add: saturating_inc_def counter_simps)
qed

section \<open>Instants and durations\<close>

type_synonym time = int
type_synonym duration = int

definition nanosecond :: duration where "nanosecond = 1"
definition millisecond :: duration where "millisecond = 1000000"
definition second :: duration where "second = 1000000000"
definition minute :: duration where "minute = 60 * second"
definition hour :: duration where "hour = 60 * minute"

lemmas duration_units [time_simps] =
  nanosecond_def millisecond_def second_def minute_def hour_def

text \<open>The zero \<open>time.Time\<close> is the first instant of year 1; instants of the years 1970..9999
  lie between \<open>epoch_start\<close> and \<open>epoch_end\<close>.\<close>

definition zero_time :: time where
  "zero_time = - 62135596800 * 1000000000"

definition is_zero :: "time \<Rightarrow> bool" where
  "is_zero t \<longleftrightarrow> t = zero_time"

definition year_in_range :: "time \<Rightarrow> bool" where
  "year_in_range t \<longleftrightarrow> 0 \<le> t \<and> t < 253402300800 * 1000000000"

text \<open>\<open>Time.UnixMicro\<close> and \<open>Time.UnixMilli\<close> round towards the past.\<close>

definition unix_us :: "time \<Rightarrow> int" where "unix_us t = t div 1000"
definition unix_ms :: "time \<Rightarrow> int" where "unix_ms t = t div 1000000"

definition max_duration :: duration where "max_duration = 2 ^ 63 - 1"
definition min_duration :: duration where "min_duration = - (2 ^ 63)"

text \<open>\<open>Time.Sub\<close> returns the extreme duration when the difference does not fit an int64.\<close>

definition time_sub :: "time \<Rightarrow> time \<Rightarrow> duration" where
  "time_sub a b = max min_duration (min max_duration (a - b))"

definition abs_duration :: "duration \<Rightarrow> duration" where
  "abs_duration d = (if d < 0 then - d else d)"

text \<open>\<open>Duration.Milliseconds\<close> truncates towards zero, as Go's integer division does.\<close>

definition go_div :: "int \<Rightarrow> int \<Rightarrow> int" where
  "go_div a b = sgn a * sgn b * (\<bar>a\<bar> div \<bar>b\<bar>)"

definition milliseconds :: "duration \<Rightarrow> int" where
  "milliseconds d = go_div d 1000000"

lemma time_sub_ge_iff [time_simps]:
  "min_duration < d \<Longrightarrow> d \<le> max_duration \<Longrightarrow> d \<le> time_sub a b \<longleftrightarrow> d \<le> a - b"
  by (auto simp: time_sub_def min_le_iff_disj le_max_iff_disj)

lemma time_sub_gt_iff [time_simps]:
  "min_duration \<le> d \<Longrightarrow> d < max_duration \<Longrightarrow> d < time_sub a b \<longleftrightarrow> d < a - b"
  by (auto simp: time_sub_def min_less_iff_disj less_max_iff_disj)

lemma time_sub_exact [time_simps]:
  "min_duration \<le> a - b \<Longrightarrow> a - b \<le> max_duration \<Longrightarrow> time_sub a b = a - b"
  by (simp add: time_sub_def)

lemma go_div_nonneg: "0 \<le> a \<Longrightarrow> 0 < b \<Longrightarrow> go_div a b = a div b"
  by (cases "a = 0") (auto simp: go_div_def)

section \<open>Go maps as association lists\<close>

text \<open>
  \<open>keys_distinct\<close> is the representation invariant of a modelled map; \<open>AList.update\<close>,
  \<open>AList.delete\<close> and \<open>map_of\<close> are assignment, \<open>delete\<close> and lookup.
\<close>

definition keys_distinct :: "('k \<times> 'v) list \<Rightarrow> bool" where
  "keys_distinct m \<longleftrightarrow> distinct (map fst m)"

definition al_sum :: "('v \<Rightarrow> nat) \<Rightarrow> ('k \<times> 'v) list \<Rightarrow> nat" where
  "al_sum f m = sum_list (map (f \<circ> snd) m)"

lemma al_sum_simps [simp]:
  "al_sum f [] = 0"
  "al_sum f (p # m) = f (snd p) + al_sum f m"
  "al_sum f (m @ m') = al_sum f m + al_sum f m'"
  by (simp_all add: al_sum_def)

lemma keys_distinct_Nil [simp]: "keys_distinct []"
  by (simp add: keys_distinct_def)

lemma keys_distinct_Cons [simp]:
  "keys_distinct (p # m) \<longleftrightarrow> fst p \<notin> fst ` set m \<and> keys_distinct m"
  by (auto simp: keys_distinct_def)

lemma keys_distinct_update [simp]:
  "keys_distinct m \<Longrightarrow> keys_distinct (AList.update k v m)"
  by (simp add: keys_distinct_def distinct_update)

lemma keys_distinct_delete [simp]:
  "keys_distinct m \<Longrightarrow> keys_distinct (AList.delete k m)"
  by (simp add: keys_distinct_def distinct_delete)

lemma keys_distinct_filter [simp]:
  "keys_distinct m \<Longrightarrow> keys_distinct (filter P m)"
  by (induction m) auto

lemma map_of_None_update [alist_simps]:
  "map_of m k = None \<Longrightarrow> AList.update k v m = m @ [(k, v)]"
  by (induction m) (auto split: if_splits)

lemma map_of_None_delete [alist_simps]:
  "map_of m k = None \<Longrightarrow> AList.delete k m = m"
  by (induction m) (auto split: if_splits simp: AList.delete_eq)

lemma delete_notin: "k \<notin> fst ` set m \<Longrightarrow> AList.delete k m = m"
  by (simp add: alist_simps map_of_eq_None_iff)

lemma al_sum_update_None [alist_simps]:
  "map_of m k = None \<Longrightarrow> al_sum f (AList.update k v m) = al_sum f m + f v"
  by (simp add: alist_simps)

lemma al_sum_update_Some [alist_simps]:
  "map_of m k = Some w \<Longrightarrow> al_sum f (AList.update k v m) + f w = al_sum f m + f v"
  by (induction m) (auto split: if_splits)

lemma al_sum_delete_Some [alist_simps]:
  assumes "keys_distinct m" and "map_of m k = Some w"
  shows "al_sum f (AList.delete k m) + f w = al_sum f m"
  using assms
proof (induction m)
  case (Cons p m)
  then show ?case
    by (cases "fst p = k") (auto simp: delete_notin)
qed simp

lemma length_update_None [alist_simps]:
  "map_of m k = None \<Longrightarrow> length (AList.update k v m) = Suc (length m)"
  by (simp add: alist_simps)

lemma length_update_Some [alist_simps]:
  "map_of m k = Some w \<Longrightarrow> length (AList.update k v m) = length m"
  by (induction m) (auto split: if_splits)

lemma length_delete_Some [alist_simps]:
  assumes "keys_distinct m" and "map_of m k = Some w"
  shows "Suc (length (AList.delete k m)) = length m"
  using assms
proof (induction m)
  case (Cons p m)
  then show ?case
    by (cases "fst p = k") (auto simp: delete_notin)
qed simp

lemma length_delete_le [simp]: "length (AList.delete k m) \<le> length m"
  by (simp add: AList.delete_eq)

lemma al_sum_ge_member: "map_of m k = Some w \<Longrightarrow> f w \<le> al_sum f m"
  by (induction m) (auto split: if_splits)

lemma delete_update_same: "AList.delete k (AList.update k v m) = AList.delete k m"
  by (induction m) (auto simp: AList.delete_eq)

lemma update_update_same: "AList.update k v (AList.update k w m) = AList.update k v m"
  by (induction m) auto

lemma update_unchanged: "map_of m k = Some v \<Longrightarrow> AList.update k v m = m"
  by (induction m) (auto split: if_splits)

lemma al_sum_le: "(\<And>k v. (k, v) \<in> set m \<Longrightarrow> f v \<le> c) \<Longrightarrow> al_sum f m \<le> length m * c"
  by (induction m) (force simp: add_mono)+

lemma map_of_update [alist_simps]: "map_of (AList.update k v m) = (map_of m)(k \<mapsto> v)"
  by (rule update_conv')

lemma map_of_delete [alist_simps]: "map_of (AList.delete k m) = (map_of m)(k := None)"
  by (rule delete_conv')

lemma map_of_filter_distinct [alist_simps]:
  assumes "keys_distinct m"
  shows "map_of (filter P m) k =
    (case map_of m k of None \<Rightarrow> None | Some v \<Rightarrow> if P (k, v) then Some v else None)"
  using assms
proof (induction m)
  case (Cons p m)
  have "map_of m k = None" if "fst p = k"
    using Cons.prems that by (auto simp: map_of_eq_None_iff)
  with Cons show ?case
    by (cases p) (auto split: option.splits)
qed simp

lemma set_update_subset: "set (AList.update k v m) \<subseteq> insert (k, v) (set m)"
  by (induction m) auto

lemma in_update_distinct:
  assumes "keys_distinct m"
  shows "(k', v') \<in> set (AList.update k v m) \<longleftrightarrow>
    (k' = k \<and> v' = v) \<or> (k' \<noteq> k \<and> (k', v') \<in> set m)"
  using assms
proof (induction m)
  case (Cons p m)
  then show ?case
    by (cases p) (auto simp: image_iff)
qed auto

lemma in_delete_iff:
  "(k', v') \<in> set (AList.delete k m) \<longleftrightarrow> k' \<noteq> k \<and> (k', v') \<in> set m"
  by (auto simp: AList.delete_eq)

lemma map_of_iff_in: "keys_distinct m \<Longrightarrow> map_of m k = Some v \<longleftrightarrow> (k, v) \<in> set m"
  by (simp add: keys_distinct_def)

lemma filter_keys_update [alist_simps]:
  "filter (\<lambda>p. P (fst p)) (AList.update k v m) =
     (if P k then AList.update k v (filter (\<lambda>p. P (fst p)) m) else filter (\<lambda>p. P (fst p)) m)"
  by (induction m) auto

lemma map_of_filter_keys [alist_simps]:
  "map_of (filter (\<lambda>p. P (fst p)) m) k = (if P k then map_of m k else None)"
  by (induction m) auto

section \<open>Sorting by a comparison\<close>

text \<open>
  \<open>sort.Slice\<close> with a comparison \<open>lt\<close>. Go does not fix which sorting algorithm runs; where
  \<open>lt\<close> is a strict total order on the elements there is only one sorted arrangement, which
  \<open>sort_by_unique\<close> states, so insertion sort stands for any of them.
\<close>

primrec insort_by :: "('a \<Rightarrow> 'a \<Rightarrow> bool) \<Rightarrow> 'a \<Rightarrow> 'a list \<Rightarrow> 'a list" where
  "insort_by lt x [] = [x]"
| "insort_by lt x (y # ys) = (if lt y x then y # insort_by lt x ys else x # y # ys)"

definition sort_by :: "('a \<Rightarrow> 'a \<Rightarrow> bool) \<Rightarrow> 'a list \<Rightarrow> 'a list" where
  "sort_by lt xs = foldr (insort_by lt) xs []"

lemma mset_insort_by [simp]: "mset (insort_by lt x ys) = add_mset x (mset ys)"
  by (induction ys) auto

lemma sort_by_simps [simp]:
  "sort_by lt [] = []" "sort_by lt (x # xs) = insort_by lt x (sort_by lt xs)"
  by (simp_all add: sort_by_def)

lemma mset_sort_by [simp]: "mset (sort_by lt xs) = mset xs"
  by (induction xs) auto

lemma set_insort_by [simp]: "set (insort_by lt x ys) = insert x (set ys)"
  by (metis mset_insort_by set_mset_add_mset_insert set_mset_mset)

lemma set_sort_by [simp]: "set (sort_by lt xs) = set xs"
  by (metis mset_sort_by set_mset_mset)

lemma length_sort_by [simp]: "length (sort_by lt xs) = length xs"
  by (metis mset_sort_by size_mset)

text \<open>A strict total order on a set of elements, as the comparison functions define it.\<close>

definition strict_total_on :: "'a set \<Rightarrow> ('a \<Rightarrow> 'a \<Rightarrow> bool) \<Rightarrow> bool" where
  "strict_total_on A lt \<longleftrightarrow> (\<forall>x\<in>A. \<not> lt x x) \<and>
     (\<forall>x\<in>A. \<forall>y\<in>A. x = y \<or> lt x y \<or> lt y x) \<and>
     (\<forall>x\<in>A. \<forall>y\<in>A. \<forall>z\<in>A. lt x y \<longrightarrow> lt y z \<longrightarrow> lt x z)"

lemma strict_total_on_subset: "strict_total_on A lt \<Longrightarrow> B \<subseteq> A \<Longrightarrow> strict_total_on B lt"
  unfolding strict_total_on_def by (meson subsetD)

lemma sorted_insort_by:
  assumes "strict_total_on (insert x (set ys)) lt" "sorted_wrt (\<lambda>a b. \<not> lt b a) ys"
  shows "sorted_wrt (\<lambda>a b. \<not> lt b a) (insort_by lt x ys)"
  using assms
proof (induction ys)
  case (Cons y ys)
  note T = Cons.prems(1) [unfolded strict_total_on_def]
  have sub: "strict_total_on (insert x (set ys)) lt"
    by (rule strict_total_on_subset [OF Cons.prems(1)]) auto
  show ?case
  proof (cases "lt y x")
    case True
    then have "\<not> lt x y" using T by (metis insertI1 insertI2 list.set_intros(1))
    then show ?thesis using True Cons.IH [OF sub] Cons.prems(2) by auto
  next
    case False
    have "\<not> lt b x" if "b \<in> set ys" for b
    proof
      assume bx: "lt b x"
      have nby: "\<not> lt b y" using Cons.prems(2) that by simp
      have m: "b \<in> insert x (set (y # ys))" "y \<in> insert x (set (y # ys))" "x \<in> insert x (set (y # ys))"
        using that by auto
      have "y = b \<or> lt y b" using T m(1,2) nby by blast
      then have "lt y x" using bx T m by blast
      then show False using False by blast
    qed
    then show ?thesis using False Cons.prems(2) by auto
  qed
qed simp

lemma sorted_sort_by:
  "strict_total_on (set xs) lt \<Longrightarrow> sorted_wrt (\<lambda>a b. \<not> lt b a) (sort_by lt xs)"
proof (induction xs)
  case (Cons x xs)
  then have "sorted_wrt (\<lambda>a b. \<not> lt b a) (sort_by lt xs)"
    by (meson list.set_intros(2) strict_total_on_subset subsetI)
  then show ?case
    using sorted_insort_by [of x "sort_by lt xs" lt] Cons.prems by simp
qed simp

lemma sorted_by_unique:
  assumes "strict_total_on (set xs) lt" "mset xs = mset ys"
    and "sorted_wrt (\<lambda>a b. \<not> lt b a) xs" "sorted_wrt (\<lambda>a b. \<not> lt b a) ys"
  shows "xs = ys"
  using assms
proof (induction xs arbitrary: ys)
  case (Cons x xs)
  obtain y ys' where ys: "ys = y # ys'"
    using Cons.prems(2) by (cases ys) auto
  have sets: "set (x # xs) = set (y # ys')"
    using Cons.prems(2) ys by (metis set_mset_mset)
  have "x = y"
  proof (rule ccontr)
    assume ne: "x \<noteq> y"
    then have "y \<in> set xs" "x \<in> set ys'" using sets by auto
    then have "\<not> lt y x" "\<not> lt x y" using Cons.prems(3,4) ys by auto
    then show False
      using Cons.prems(1) ne \<open>y \<in> set xs\<close> unfolding strict_total_on_def by (metis list.set_intros)
  qed
  moreover have "strict_total_on (set xs) lt"
    by (rule strict_total_on_subset [OF Cons.prems(1)]) auto
  ultimately show ?case using Cons ys by auto
qed simp

lemma sort_by_unique:
  "strict_total_on (set xs) lt \<Longrightarrow> mset xs = mset ys \<Longrightarrow> sort_by lt xs = sort_by lt ys"
proof -
  assume t: "strict_total_on (set xs) lt" and m: "mset xs = mset ys"
  then have "set xs = set ys" by (metis set_mset_mset)
  with t m show ?thesis
    by (intro sorted_by_unique [where lt = lt] sorted_sort_by) simp_all
qed

section \<open>Bytes and text\<close>

type_synonym byte = "8 word"

definition control_char :: "char \<Rightarrow> bool" where
  "control_char c \<longleftrightarrow> of_char c < (32 :: nat) \<or> of_char c = (127 :: nat)"

definition char_in :: "char \<Rightarrow> char \<Rightarrow> char \<Rightarrow> bool" where
  "char_in lo hi c \<longleftrightarrow> (of_char lo :: nat) \<le> of_char c \<and> of_char c \<le> (of_char hi :: nat)"

definition has_prefix :: "string \<Rightarrow> string \<Rightarrow> bool" where
  "has_prefix s p \<longleftrightarrow> take (length p) s = p"

definition has_suffix :: "string \<Rightarrow> string \<Rightarrow> bool" where
  "has_suffix s p \<longleftrightarrow> length p \<le> length s \<and> drop (length s - length p) s = p"

lemma has_prefix_append [simp]: "has_prefix (p @ s) p"
  by (simp add: has_prefix_def)

lemma has_suffix_append [simp]: "has_suffix (s @ p) p"
  by (simp add: has_suffix_def)

text \<open>Go compares strings bytewise.\<close>

fun string_less :: "string \<Rightarrow> string \<Rightarrow> bool" where
  "string_less _ [] = False"
| "string_less [] (_ # _) = True"
| "string_less (a # as) (b # bs) =
     (if (of_char a :: nat) < of_char b then True
      else if a = b then string_less as bs else False)"

lemma string_less_irrefl [simp]: "\<not> string_less s s"
  by (induction s) auto

lemma string_less_trans: "string_less a b \<Longrightarrow> string_less b c \<Longrightarrow> string_less a c"
proof (induction a b arbitrary: c rule: string_less.induct)
  case (3 a as b bs)
  then show ?case
    by (cases c) (auto split: if_splits)
next
  case (2 b bs)
  then show ?case
    by (cases c) auto
qed simp

lemma string_less_linear: "string_less a b \<or> a = b \<or> string_less b a"
proof (induction a b rule: string_less.induct)
  case (1 a)
  then show ?case by (cases a) auto
next
  case (3 a as b bs)
  have "(of_char a :: nat) = of_char b \<longleftrightarrow> a = b"
    by (simp add: of_char_eq_iff)
  with 3 show ?case
    by (auto simp: not_less_iff_gr_or_eq)
qed simp

section \<open>Lexicographic comparisons\<close>

text \<open>Comparison functions compare one field and fall through to the next when it is equal.\<close>

definition strict_linear :: "('a \<Rightarrow> 'a \<Rightarrow> bool) \<Rightarrow> bool" where
  "strict_linear r \<longleftrightarrow> (\<forall>x. \<not> r x x) \<and> (\<forall>x y z. r x y \<longrightarrow> r y z \<longrightarrow> r x z) \<and>
     (\<forall>x y. x = y \<or> r x y \<or> r y x)"

definition then_by :: "('a \<Rightarrow> 'k) \<Rightarrow> ('k \<Rightarrow> 'k \<Rightarrow> bool) \<Rightarrow> ('a \<Rightarrow> 'a \<Rightarrow> bool) \<Rightarrow> 'a \<Rightarrow> 'a \<Rightarrow> bool" where
  "then_by k r n x y = (if k x \<noteq> k y then r (k x) (k y) else n x y)"

lemma strict_linear_intros:
  "strict_linear ((<) :: 'b :: linorder \<Rightarrow> 'b \<Rightarrow> bool)"
  "strict_linear (\<lambda>x y. y < (x :: 'b))"
  "strict_linear string_less"
proof -
  show "strict_linear ((<) :: 'b \<Rightarrow> 'b \<Rightarrow> bool)" "strict_linear (\<lambda>x y. y < (x :: 'b))"
    by (auto simp: strict_linear_def)
  show "strict_linear string_less"
    unfolding strict_linear_def using string_less_linear string_less_trans string_less_irrefl by blast
qed

lemma then_by_irrefl: "\<not> n x x \<Longrightarrow> \<not> then_by k r n x x"
  by (simp add: then_by_def)

lemma then_by_transp:
  assumes "strict_linear r" "transp n"
  shows "transp (then_by k r n)"
proof (rule transpI)
  have irr: "\<not> r u u" and tr: "r u v \<Longrightarrow> r v w \<Longrightarrow> r u w" for u v w
    using assms(1) by (auto simp: strict_linear_def)
  fix x y z
  assume xy: "then_by k r n x y" and yz: "then_by k r n y z"
  show "then_by k r n x z"
  proof (cases "k x = k y \<or> k y = k z")
    case True
    then show ?thesis using xy yz transpD [OF assms(2)] by (auto simp: then_by_def split: if_splits)
  next
    case False
    then have "r (k x) (k z)" using xy yz tr by (auto simp: then_by_def)
    then show ?thesis using irr by (auto simp: then_by_def)
  qed
qed

lemma then_by_total:
  "strict_linear r \<Longrightarrow> (k x = k y \<Longrightarrow> n x y \<or> n y x) \<Longrightarrow> then_by k r n x y \<or> then_by k r n y x"
  unfolding strict_linear_def then_by_def by metis

lemma fold_unchanged:
  assumes "\<And>x s. x \<in> set xs \<Longrightarrow> h (f x s) = h s"
  shows "h (fold f xs s) = h s"
  using assms by (induction xs arbitrary: s) simp_all

text \<open>A loop that keeps the best element seen so far, as the code scans maps for a minimum.\<close>

lemma fold_best:
  assumes "strict_total_on (set (g # xs)) lt"
    and "\<And>x y. x \<in> set (g # xs) \<Longrightarrow> y \<in> set (g # xs) \<Longrightarrow> pick x y = lt x y"
  shows "fold (\<lambda>x best. if pick x best then x else best) xs g \<in> set (g # xs)"
    and "x \<in> set (g # xs) \<Longrightarrow> x = fold (\<lambda>x best. if pick x best then x else best) xs g \<or>
      lt (fold (\<lambda>x best. if pick x best then x else best) xs g) x"
proof -
  let ?f = "\<lambda>x best. if pick x best then x else best"
  have "fold ?f xs g \<in> set (g # xs) \<and> (\<forall>x\<in>set (g # xs). x = fold ?f xs g \<or> lt (fold ?f xs g) x)"
    using assms
  proof (induction xs arbitrary: g)
    case (Cons y ys)
    note T = Cons.prems(1) [unfolded strict_total_on_def]
    define h where "h = ?f y g"
    define r where "r = fold ?f ys h"
    have sub: "set (h # ys) \<subseteq> set (g # y # ys)" by (auto simp: h_def)
    have ih: "r \<in> set (h # ys)" "\<forall>x\<in>set (h # ys). x = r \<or> lt r x"
      using Cons.IH [of h] strict_total_on_subset [OF Cons.prems(1) sub] Cons.prems(2) sub
      unfolding r_def by blast+
    have r: "r \<in> set (g # y # ys)" using ih(1) sub by blast
    have win: "h = y \<and> lt y g \<or> h = g \<and> (y = g \<or> lt g y)"
      using T Cons.prems(2) [of y g] by (auto simp: h_def)
    have rh: "h = r \<or> lt r h" using ih(2) by simp
    have tr: "lt r g \<Longrightarrow> lt g y \<Longrightarrow> lt r y" "lt r y \<Longrightarrow> lt y g \<Longrightarrow> lt r g"
      using T r by (meson list.set_intros)+
    from win have "(y = r \<or> lt r y) \<and> (g = r \<or> lt r g)"
    proof (elim disjE conjE)
      assume "h = y" "lt y g"
      then show ?thesis using rh tr(2) by auto
    next
      assume "h = g" "y = g"
      then show ?thesis using rh by auto
    next
      assume "h = g" "lt g y"
      then show ?thesis using rh tr(1) by auto
    qed
    then have "\<forall>x\<in>set (g # y # ys). x = r \<or> lt r x" using ih(2) by auto
    then show ?case using r by (simp add: r_def h_def)
  qed simp
  then show "fold ?f xs g \<in> set (g # xs)" "x \<in> set (g # xs) \<Longrightarrow> x = fold ?f xs g \<or> lt (fold ?f xs g) x"
    by blast+
qed

end
