(* ===== verification/Float64.thy ===== *)
theory Float64
  imports GoPrelude
begin

text \<open>
  Go's \<open>float64\<close>: IEEE 754 binary64 with round-to-nearest, ties to even. A finite value is the
  rational number it stands for; every operation computes exactly and rounds once. Precision (53
  bits), the subnormal range and overflow to infinity are those of the format. The sign of a zero
  is not represented: no operation of the modelled code divides by zero or reads a sign bit.

  The lemmas show what the components rely on: the value returned by \<open>round53\<close> is the format's
  (bounds of a binade), rounding is monotone, keeps signs and is exact on small integers.
\<close>

section \<open>The binade of a positive rational\<close>

function ilen :: "int \<Rightarrow> int" where
  "ilen n = (if n \<le> 0 then 0 else ilen (n div 2) + 1)"
  by pat_completeness auto
termination
  by (relation "measure nat") auto

declare ilen.simps [simp del]

definition ilog2 :: "rat \<Rightarrow> int" where
  "ilog2 x = (let (p, q) = quotient_of x; k = ilen p - ilen q
     in if x < 2 powi k then k - 1 else k)"

lemma ilen_nonneg: "0 \<le> ilen n"
  by (induction n rule: ilen.induct) (subst ilen.simps, simp)

lemma ilen_bounds:
  "0 < n \<Longrightarrow> 0 < ilen n \<and> 2 ^ nat (ilen n - 1) \<le> n \<and> n < 2 ^ nat (ilen n)"
proof (induction n rule: ilen.induct)
  case (1 n)
  have e: "ilen n = ilen (n div 2) + 1"
    using 1 by (subst ilen.simps) simp
  show ?case
  proof (cases "n = 1")
    case True
    then show ?thesis using e by (simp add: ilen.simps [of 0])
  next
    case False
    with 1 have ih: "0 < ilen (n div 2)" "2 ^ nat (ilen (n div 2) - 1) \<le> n div 2"
      "n div 2 < 2 ^ nat (ilen (n div 2))"
      by simp_all
    define m where "m = nat (ilen (n div 2) - 1)"
    have m: "nat (ilen (n div 2)) = Suc m" "nat (ilen n - 1) = Suc m" "nat (ilen n) = Suc (Suc m)"
      using ih(1) e by (simp_all add: m_def)
    have "2 ^ m \<le> n div 2" "n div 2 < 2 ^ Suc m"
      using ih m by (simp_all add: m_def)
    then have "2 ^ Suc m \<le> n" "n < 2 ^ Suc (Suc m)" by (simp_all; linarith)+
    then show ?thesis using ih(1) e unfolding m by simp
  qed
qed

lemma ilen_powi_bounds:
  assumes "0 < (n :: int)"
  shows "(2 :: rat) powi (ilen n - 1) \<le> of_int n" and "of_int n < (2 :: rat) powi ilen n"
proof -
  note b = ilen_bounds [OF assms]
  have "(2 :: rat) powi (ilen n - 1) = of_int (2 ^ nat (ilen n - 1))"
    using b by (simp add: power_int_def)
  then show "(2 :: rat) powi (ilen n - 1) \<le> of_int n"
    using b by (metis of_int_le_iff)
  have "(2 :: rat) powi ilen n = of_int (2 ^ nat (ilen n))"
    using b by (simp add: power_int_def)
  then show "of_int n < (2 :: rat) powi ilen n"
    using b by (metis of_int_less_iff)
qed

lemma ilog2_bounds:
  assumes "0 < x"
  shows "2 powi ilog2 x \<le> x" and "x < 2 powi (ilog2 x + 1)"
proof -
  obtain p q where pq: "quotient_of x = (p, q)" by (cases "quotient_of x")
  have q: "0 < q" using quotient_of_denom_pos [OF pq] .
  have x: "x = of_int p / of_int q" using quotient_of_div [OF pq] .
  have p: "0 < p" using assms q by (simp add: x zero_less_divide_iff)
  define k where "k = ilen p - ilen q"
  note bp = ilen_powi_bounds [OF p] and bq = ilen_powi_bounds [OF q]
  have qpos: "(0 :: rat) < of_int q" using q by simp
  have "(2 :: rat) powi (k - 1) * of_int q \<le> 2 powi (k - 1) * 2 powi ilen q"
    using bq(2) by (intro mult_left_mono) auto
  also have "\<dots> = (2 :: rat) powi (ilen p - 1)"
    by (simp add: k_def flip: power_int_add)
  also have "\<dots> \<le> of_int p" by (rule bp(1))
  finally have low: "2 powi (k - 1) \<le> x"
    using qpos by (simp add: x pos_le_divide_eq)
  have "of_int p < (2 :: rat) powi ilen p" by (rule bp(2))
  also have "\<dots> = 2 powi (k + 1) * 2 powi (ilen q - 1)"
    by (simp add: k_def flip: power_int_add)
  also have "\<dots> \<le> 2 powi (k + 1) * of_int q"
    using bq(1) by (intro mult_left_mono) auto
  finally have high: "x < 2 powi (k + 1)"
    using qpos by (simp add: x pos_divide_less_eq)
  show "2 powi ilog2 x \<le> x" and "x < 2 powi (ilog2 x + 1)"
    using low high by (auto simp: ilog2_def pq k_def Let_def)
qed

lemma powi2_mono: "a \<le> b \<Longrightarrow> (2 :: rat) powi a \<le> 2 powi b"
  by (simp add: power_int_increasing)

lemma ilog2_mono: "0 < x \<Longrightarrow> x \<le> y \<Longrightarrow> ilog2 x \<le> ilog2 y"
proof (rule ccontr)
  assume xy: "0 < x" "x \<le> y" and "\<not> ilog2 x \<le> ilog2 y"
  then have "ilog2 y + 1 \<le> ilog2 x" by simp
  then have "(2 :: rat) powi (ilog2 y + 1) \<le> 2 powi ilog2 x" by (rule powi2_mono)
  with xy ilog2_bounds(1) [of x] ilog2_bounds(2) [of y] show False by linarith
qed

section \<open>Rounding\<close>

text \<open>\<open>round_even\<close> rounds to the nearest integer, a tie to the even one.\<close>

definition round_even :: "rat \<Rightarrow> int" where
  "round_even y = (let f = \<lfloor>y\<rfloor>; d = y - of_int f
     in if d < 1 / 2 then f else if 1 / 2 < d then f + 1 else if even f then f else f + 1)"

lemma round_even_int [simp]: "round_even (of_int n) = n"
  by (simp add: round_even_def)

lemma round_even_bounds: "\<lfloor>y\<rfloor> \<le> round_even y" "round_even y \<le> \<lfloor>y\<rfloor> + 1"
  by (auto simp: round_even_def Let_def)

lemma round_even_mono:
  assumes "x \<le> y"
  shows "round_even x \<le> round_even y"
proof (cases "\<lfloor>x\<rfloor> = \<lfloor>y\<rfloor>")
  case True
  then show ?thesis using assms by (auto simp: round_even_def Let_def)
next
  case False
  with assms have "\<lfloor>x\<rfloor> + 1 \<le> \<lfloor>y\<rfloor>"
    using floor_mono [OF assms] by simp
  then show ?thesis
    using round_even_bounds(2) [of x] round_even_bounds(1) [of y] by simp
qed

lemma round_even_ge_int: "of_int n \<le> y \<Longrightarrow> n \<le> round_even y"
  using round_even_mono [of "of_int n" y] by simp

lemma round_even_le_int: "y \<le> of_int n \<Longrightarrow> round_even y \<le> n"
  using round_even_mono [of y "of_int n"] by simp

text \<open>The exponent of the last place: 53 significant bits, never below the subnormal step.\<close>

definition ulp_exp :: "rat \<Rightarrow> int" where
  "ulp_exp x = max (ilog2 x - 52) (- 1074)"

definition round_pos :: "rat \<Rightarrow> rat" where
  "round_pos x = of_int (round_even (x / 2 powi ulp_exp x)) * 2 powi ulp_exp x"

definition round53 :: "rat \<Rightarrow> rat" where
  "round53 x = (if x = 0 then 0 else if 0 < x then round_pos x else - round_pos (- x))"

lemma round_pos_nonneg: "0 < x \<Longrightarrow> 0 \<le> round_pos x"
  unfolding round_pos_def by (intro mult_nonneg_nonneg) (auto intro: round_even_ge_int)

text \<open>A power of two at or above the last place is a multiple of it, so rounding never crosses it.\<close>

lemma powi_multiple:
  assumes "e \<le> k"
  obtains n where "(2 :: rat) powi k = of_int n * 2 powi e"
proof -
  have "(2 :: rat) powi k = 2 powi (k - e) * 2 powi e"
    by (simp flip: power_int_add)
  also have "(2 :: rat) powi (k - e) = of_int (2 ^ nat (k - e))"
    using assms by (simp add: power_int_def)
  finally show ?thesis by (rule that)
qed

lemma round_pos_le_powi:
  assumes "0 < x" "x \<le> 2 powi k" "ulp_exp x \<le> k"
  shows "round_pos x \<le> 2 powi k"
proof -
  obtain n where n: "(2 :: rat) powi k = of_int n * 2 powi ulp_exp x"
    using powi_multiple [OF assms(3)] .
  have "x / 2 powi ulp_exp x \<le> of_int n"
    using assms(2) by (simp add: n pos_divide_le_eq)
  then have "round_even (x / 2 powi ulp_exp x) \<le> n" by (rule round_even_le_int)
  then show ?thesis by (simp add: round_pos_def n)
qed

lemma round_pos_ge_powi:
  assumes "0 < x" "2 powi k \<le> x" "ulp_exp x \<le> k"
  shows "2 powi k \<le> round_pos x"
proof -
  obtain n where n: "(2 :: rat) powi k = of_int n * 2 powi ulp_exp x"
    using powi_multiple [OF assms(3)] .
  have "of_int n \<le> x / 2 powi ulp_exp x"
    using assms(2) by (simp add: n pos_le_divide_eq)
  then have "n \<le> round_even (x / 2 powi ulp_exp x)" by (rule round_even_ge_int)
  then show ?thesis by (simp add: round_pos_def n)
qed

lemma round_pos_mono:
  assumes "0 < x" "x \<le> y"
  shows "round_pos x \<le> round_pos y"
proof (cases "ulp_exp x = ulp_exp y")
  case True
  have "x / 2 powi ulp_exp y \<le> y / 2 powi ulp_exp y"
    using assms(2) by (simp add: divide_right_mono)
  then show ?thesis
    by (simp add: round_pos_def True round_even_mono)
next
  case False
  have le: "ilog2 x \<le> ilog2 y" using assms by (rule ilog2_mono)
  with False have lt: "ilog2 x + 1 \<le> ilog2 y" and ex: "ulp_exp x \<le> ilog2 y"
    and ey: "ulp_exp y \<le> ilog2 y"
    by (auto simp: ulp_exp_def max_def split: if_splits)
  let ?k = "ilog2 y"
  have kx: "x \<le> 2 powi ?k"
  proof -
    have "x < 2 powi (ilog2 x + 1)" using ilog2_bounds(2) [OF assms(1)] .
    also have "\<dots> \<le> (2 :: rat) powi ?k" using lt by (rule powi2_mono)
    finally show ?thesis by simp
  qed
  have "round_pos x \<le> 2 powi ?k"
    using assms(1) kx ex by (rule round_pos_le_powi)
  also have "\<dots> \<le> round_pos y"
    using assms ilog2_bounds(1) [of y] ey by (intro round_pos_ge_powi) auto
  finally show ?thesis .
qed

lemma round53_mono: "x \<le> y \<Longrightarrow> round53 x \<le> round53 y"
  using round_pos_mono [of x y] round_pos_mono [of "- y" "- x"]
    round_pos_nonneg [of y] round_pos_nonneg [of "- x"]
  by (auto simp: round53_def)

lemma round53_zero [simp]: "round53 0 = 0"
  by (simp add: round53_def)

lemma round53_nonneg: "0 \<le> x \<Longrightarrow> 0 \<le> round53 x"
  using round53_mono [of 0 x] by simp

text \<open>An integer multiple of the last place is a value of the format and rounds to itself.\<close>

lemma round_pos_exact:
  assumes "x / 2 powi ulp_exp x = of_int m"
  shows "round_pos x = x"
proof -
  have "round_pos x = (x / 2 powi ulp_exp x) * 2 powi ulp_exp x"
    using assms by (simp add: round_pos_def)
  then show ?thesis by simp
qed

lemma round53_of_int:
  assumes "0 \<le> n" "n \<le> 2 ^ 53"
  shows "round53 (of_int n) = of_int n"
proof (cases "n = 0")
  case False
  then have pos: "(0 :: rat) < of_int n" using assms by simp
  let ?x = "of_int n :: rat"
  have "ilog2 ?x \<le> 53"
  proof (rule ccontr)
    assume "\<not> ilog2 ?x \<le> 53"
    then have "(2 :: rat) powi 54 \<le> 2 powi ilog2 ?x" by (intro powi2_mono) simp
    also have "\<dots> \<le> ?x" by (rule ilog2_bounds(1) [OF pos])
    also have "?x \<le> of_int (2 ^ 53)" using assms by (simp only: of_int_le_iff)
    finally show False by simp
  qed
  show ?thesis
  proof (cases "ulp_exp ?x \<le> 0")
    case True
    then have "?x / 2 powi ulp_exp ?x = of_int (n * 2 ^ nat (- ulp_exp ?x))"
      by (simp add: power_int_def divide_simps)
    then have "round_pos ?x = ?x" by (rule round_pos_exact)
    then show ?thesis using pos by (simp add: round53_def)
  next
    case False
    with \<open>ilog2 ?x \<le> 53\<close> have e: "ilog2 ?x = 53"
      by (auto simp: ulp_exp_def)
    then have "(2 :: rat) ^ 53 \<le> ?x" using ilog2_bounds(1) [OF pos] by (simp add: power_int_def)
    then have "of_int (2 ^ 53) \<le> ?x" by simp
    then have n: "n = 2 ^ 53" using assms by (metis of_int_le_iff order_antisym)
    have "ulp_exp ?x = 1" by (simp add: ulp_exp_def e)
    then have "?x / 2 powi ulp_exp ?x = of_int (2 ^ 52)"
      by (simp add: n)
    then have "round_pos ?x = ?x" by (rule round_pos_exact)
    then show ?thesis using pos by (simp add: round53_def)
  qed
qed simp

section \<open>Values and operations\<close>

datatype f64 = Fin rat | PInf | NInf | NaN

text \<open>A magnitude of \<open>2\<^sup>1\<^sup>0\<^sup>2\<^sup>4\<close> or more overflows to an infinity.\<close>

definition f64_of_rat :: "rat \<Rightarrow> f64" where
  "f64_of_rat x = (let r = round53 x
     in if r = 0 \<or> ilog2 \<bar>r\<bar> < 1024 then Fin r else if 0 < r then PInf else NInf)"

definition f64_of_int :: "int \<Rightarrow> f64" where
  "f64_of_int n = f64_of_rat (of_int n)"

definition f64_of_uint64 :: "uint64 \<Rightarrow> f64" where
  "f64_of_uint64 w = f64_of_int (uint w)"

fun fadd :: "f64 \<Rightarrow> f64 \<Rightarrow> f64" where
  "fadd (Fin a) (Fin b) = f64_of_rat (a + b)"
| "fadd NaN _ = NaN"
| "fadd _ NaN = NaN"
| "fadd PInf NInf = NaN"
| "fadd NInf PInf = NaN"
| "fadd PInf _ = PInf"
| "fadd _ PInf = PInf"
| "fadd NInf _ = NInf"
| "fadd _ NInf = NInf"

fun fneg :: "f64 \<Rightarrow> f64" where
  "fneg (Fin a) = Fin (- a)"
| "fneg PInf = NInf"
| "fneg NInf = PInf"
| "fneg NaN = NaN"

definition fsub :: "f64 \<Rightarrow> f64 \<Rightarrow> f64" where
  "fsub a b = fadd a (fneg b)"

definition inf_sgn :: "rat \<Rightarrow> f64" where
  "inf_sgn a = (if 0 < a then PInf else if a < 0 then NInf else NaN)"

fun fmul :: "f64 \<Rightarrow> f64 \<Rightarrow> f64" where
  "fmul (Fin a) (Fin b) = f64_of_rat (a * b)"
| "fmul NaN _ = NaN"
| "fmul _ NaN = NaN"
| "fmul PInf (Fin b) = inf_sgn b"
| "fmul NInf (Fin b) = inf_sgn (- b)"
| "fmul (Fin a) PInf = inf_sgn a"
| "fmul (Fin a) NInf = inf_sgn (- a)"
| "fmul PInf PInf = PInf"
| "fmul PInf NInf = NInf"
| "fmul NInf PInf = NInf"
| "fmul NInf NInf = PInf"

text \<open>Division is used with a positive finite divisor only; a zero divisor gives the value of
  an unsigned zero.\<close>

fun fdiv :: "f64 \<Rightarrow> f64 \<Rightarrow> f64" where
  "fdiv (Fin a) (Fin b) = (if b = 0 then inf_sgn a else f64_of_rat (a / b))"
| "fdiv NaN _ = NaN"
| "fdiv _ NaN = NaN"
| "fdiv (Fin _) _ = Fin 0"
| "fdiv PInf (Fin b) = (if b < 0 then NInf else PInf)"
| "fdiv NInf (Fin b) = (if b < 0 then PInf else NInf)"
| "fdiv _ _ = NaN"

fun fless :: "f64 \<Rightarrow> f64 \<Rightarrow> bool" where
  "fless (Fin a) (Fin b) = (a < b)"
| "fless NaN _ = False"
| "fless _ NaN = False"
| "fless NInf NInf = False"
| "fless NInf _ = True"
| "fless _ NInf = False"
| "fless PInf _ = False"
| "fless (Fin _) PInf = True"

fun fle :: "f64 \<Rightarrow> f64 \<Rightarrow> bool" where
  "fle (Fin a) (Fin b) = (a \<le> b)"
| "fle NaN _ = False"
| "fle _ NaN = False"
| "fle NInf _ = True"
| "fle _ NInf = False"
| "fle _ PInf = True"
| "fle PInf (Fin _) = False"

definition fmax :: "f64 \<Rightarrow> f64 \<Rightarrow> f64" where
  "fmax a b = (if a = PInf \<or> b = PInf then PInf else if a = NaN \<or> b = NaN then NaN
     else if fless a b then b else a)"

definition is_nan :: "f64 \<Rightarrow> bool" where
  "is_nan a \<longleftrightarrow> a = NaN"

definition is_inf :: "f64 \<Rightarrow> bool" where
  "is_inf a \<longleftrightarrow> a = PInf \<or> a = NInf"

text \<open>Conversion to an integer truncates; outside the target's range Go leaves the result to
  the implementation, here the value modulo the width.\<close>

fun f64_to_uint64 :: "f64 \<Rightarrow> uint64" where
  "f64_to_uint64 (Fin a) = of_int (if 0 \<le> a then \<lfloor>a\<rfloor> else \<lceil>a\<rceil>)"
| "f64_to_uint64 _ = 0"

section \<open>Order facts\<close>

lemma fle_refl: "a \<noteq> NaN \<Longrightarrow> fle a a"
  by (cases a) auto

lemma fle_trans: "fle a b \<Longrightarrow> fle b c \<Longrightarrow> fle a c"
  by (cases a; cases b; cases c) auto

lemma not_fle_iff_fless: "a \<noteq> NaN \<Longrightarrow> b \<noteq> NaN \<Longrightarrow> \<not> fle a b \<longleftrightarrow> fless b a"
  by (cases a; cases b) auto

lemma f64_of_rat_not_nan [simp]: "f64_of_rat x \<noteq> NaN"
  by (simp add: f64_of_rat_def Let_def)

lemma f64_of_rat_mono:
  assumes "x \<le> y"
  shows "fle (f64_of_rat x) (f64_of_rat y)"
proof (cases "0 < round53 x \<or> round53 y < 0")
  case True
  then show ?thesis
    using round53_mono [OF assms] ilog2_mono [of "round53 x" "round53 y"]
      ilog2_mono [of "- round53 y" "- round53 x"]
    by (auto simp: f64_of_rat_def Let_def)
next
  case False
  then show ?thesis
    using round53_mono [OF assms] by (auto simp: f64_of_rat_def Let_def)
qed

lemma f64_of_int_mono: "m \<le> n \<Longrightarrow> fle (f64_of_int m) (f64_of_int n)"
  by (simp add: f64_of_int_def f64_of_rat_mono)

lemma f64_of_int_exact:
  assumes "0 \<le> n" "n \<le> 2 ^ 53"
  shows "f64_of_int n = Fin (of_int n)"
proof (cases "n = 0")
  case False
  have "(of_int n :: rat) \<le> of_int (2 ^ 53)" using assms by (simp only: of_int_le_iff)
  moreover have "ilog2 (of_int (2 ^ 53)) < 1024" by code_simp
  ultimately have "ilog2 (of_int n) < 1024"
    using ilog2_mono [of "of_int n" "of_int (2 ^ 53)"] False assms by simp
  then show ?thesis
    using round53_of_int [OF assms] assms by (simp add: f64_of_int_def f64_of_rat_def)
qed (simp add: f64_of_int_def f64_of_rat_def)

end
