(* ===== verification/Netip.thy ===== *)
theory Netip
  imports GoPrelude
begin

text \<open>
  The part of Go's \<open>net/netip\<close> that the program uses: \<open>ParseAddr\<close>, \<open>Addr.Unmap\<close>,
  \<open>Addr.String\<close>, and on top of them the repository's \<open>detect.PrefixString\<close>. An address is four
  octets or eight 16-bit groups with a zone. The lemmas show that the text of an address parses
  back to that address, so that equal text means equal address along the whole pipeline.
\<close>

section \<open>Addresses\<close>

datatype addr = IP4 "uint8 list" | IP6 "uint16 list" string

fun addr_wf :: "addr \<Rightarrow> bool" where
  "addr_wf (IP4 bs) = (length bs = 4)"
| "addr_wf (IP6 gs z) = (length gs = 8)"

fun is4in6 :: "addr \<Rightarrow> bool" where
  "is4in6 (IP6 gs z) = (take 6 gs = [0, 0, 0, 0, 0, 65535] \<and> length gs = 8)"
| "is4in6 (IP4 _) = False"

definition hi_byte :: "uint16 \<Rightarrow> uint8" where
  "hi_byte g = ucast (drop_bit 8 g)"

definition lo_byte :: "uint16 \<Rightarrow> uint8" where
  "lo_byte g = ucast g"

definition join_bytes :: "uint8 \<Rightarrow> uint8 \<Rightarrow> uint16" where
  "join_bytes h l = push_bit 8 (ucast h) + ucast l"

definition mapped_octets :: "uint16 list \<Rightarrow> uint8 list" where
  "mapped_octets gs =
     [hi_byte (gs ! 6), lo_byte (gs ! 6), hi_byte (gs ! 7), lo_byte (gs ! 7)]"

fun unmap :: "addr \<Rightarrow> addr" where
  "unmap (IP4 bs) = IP4 bs"
| "unmap (IP6 gs z) = (if is4in6 (IP6 gs z)
     then IP4 (mapped_octets gs)
     else IP6 gs z)"

section \<open>Printing\<close>

definition digit :: "int \<Rightarrow> char" where
  "digit n = ''0123456789abcdef'' ! nat n"

definition dec_octet :: "uint8 \<Rightarrow> string" where
  "dec_octet b = (let n = uint b in
     if n < 10 then [digit n]
     else if n < 100 then [digit (n div 10), digit (n mod 10)]
     else [digit (n div 100), digit (n div 10 mod 10), digit (n mod 10)])"

definition hex_group :: "uint16 \<Rightarrow> string" where
  "hex_group g = (let n = uint g in
     if n < 16 then [digit n]
     else if n < 256 then [digit (n div 16), digit (n mod 16)]
     else if n < 4096 then [digit (n div 256), digit (n div 16 mod 16), digit (n mod 16)]
     else [digit (n div 4096), digit (n div 256 mod 16), digit (n div 16 mod 16), digit (n mod 16)])"

fun join_with :: "char \<Rightarrow> string list \<Rightarrow> string" where
  "join_with c [] = []"
| "join_with c [x] = x"
| "join_with c (x # y # ys) = x @ c # join_with c (y # ys)"

definition string4 :: "uint8 list \<Rightarrow> string" where
  "string4 bs = join_with CHR ''.'' (map dec_octet bs)"

text \<open>The first longest run of at least two zero groups is printed as \<open>::\<close>.\<close>

definition run_end :: "uint16 list \<Rightarrow> nat \<Rightarrow> nat" where
  "run_end gs i = i + length (takeWhile (\<lambda>g. g = 0) (drop i gs))"

fun zero_run :: "uint16 list \<Rightarrow> nat list \<Rightarrow> nat \<times> nat \<Rightarrow> nat \<times> nat" where
  "zero_run gs [] best = best"
| "zero_run gs (i # is) best = (let j = run_end gs i; l = j - i in
     zero_run gs is (if 2 \<le> l \<and> snd best - fst best < l then (i, j) else best))"

definition groups_text :: "uint16 list \<Rightarrow> string" where
  "groups_text gs = join_with CHR '':'' (map hex_group gs)"

definition string6 :: "uint16 list \<Rightarrow> string" where
  "string6 gs = (let (zs, ze) = zero_run gs [0..<8] (255, 255) in
     if ze = 255 then groups_text gs
     else groups_text (take zs gs) @ ''::'' @ groups_text (drop ze gs))"

definition zone_text :: "string \<Rightarrow> string" where
  "zone_text z = (if z = [] then [] else CHR ''%'' # z)"

primrec addr_string :: "addr \<Rightarrow> string" where
  "addr_string (IP4 bs) = string4 bs"
| "addr_string (IP6 gs z) = (if is4in6 (IP6 gs z)
     then ''::ffff:'' @ string4 (mapped_octets gs) @ zone_text z
     else string6 gs @ zone_text z)"

section \<open>Parsing\<close>

definition dec_value :: "char \<Rightarrow> int option" where
  "dec_value c = (if char_in CHR ''0'' CHR ''9'' c then Some (of_char c - 48) else None)"

definition hex_value :: "char \<Rightarrow> int option" where
  "hex_value c = (if char_in CHR ''0'' CHR ''9'' c then Some (of_char c - 48)
     else if char_in CHR ''a'' CHR ''f'' c then Some (of_char c - 87)
     else if char_in CHR ''A'' CHR ''F'' c then Some (of_char c - 55) else None)"

fun v4_loop :: "string \<Rightarrow> int \<Rightarrow> nat \<Rightarrow> uint8 list \<Rightarrow> uint8 list option" where
  "v4_loop [] val dl fs = (if length fs = 3 then Some (fs @ [of_int val]) else None)"
| "v4_loop (c # s) val dl fs =
     (case dec_value c of
        Some d \<Rightarrow>
          if dl = 1 \<and> val = 0 then None
          else if 255 < val * 10 + d then None
          else v4_loop s (val * 10 + d) (Suc dl) fs
      | None \<Rightarrow>
          if c \<noteq> CHR ''.'' then None
          else if dl = 0 \<or> s = [] then None
          else if length fs = 3 then None
          else v4_loop s 0 0 (fs @ [of_int val]))"

definition parse_ipv4_fields :: "string \<Rightarrow> uint8 list option" where
  "parse_ipv4_fields s = v4_loop s 0 0 []"

text \<open>\<open>scan_hex\<close> reads at most four hexadecimal digits; a fifth fails.\<close>

fun scan_hex :: "string \<Rightarrow> int \<Rightarrow> nat \<Rightarrow> (int \<times> nat \<times> string) option" where
  "scan_hex [] acc off = Some (acc, off, [])"
| "scan_hex (c # s) acc off =
     (case hex_value c of
        None \<Rightarrow> Some (acc, off, c # s)
      | Some d \<Rightarrow> if 3 < off then None else scan_hex s (acc * 16 + d) (Suc off))"

lemma scan_hex_length:
  "scan_hex s acc off = Some (a, n, r) \<Longrightarrow> length r + n = length s + off"
  by (induction s acc off rule: scan_hex.induct) (auto split: option.splits if_splits)

definition pack_octets :: "uint8 list \<Rightarrow> uint16 list" where
  "pack_octets fs = [join_bytes (fs ! 0) (fs ! 1), join_bytes (fs ! 2) (fs ! 3)]"

function v6_loop ::
  "string \<Rightarrow> uint16 list \<Rightarrow> nat option \<Rightarrow> (string \<times> uint16 list \<times> nat option) option" where
  "v6_loop s gs ell =
     (if 8 \<le> length gs then Some (s, gs, ell)
      else case scan_hex s 0 0 of
        None \<Rightarrow> None
      | Some (acc, off, s1) \<Rightarrow>
          if off = 0 then None
          else (case s1 of
            [] \<Rightarrow> Some ([], gs @ [of_int acc], ell)
          | c # s2 \<Rightarrow>
              if c = CHR ''.'' then
                (if ell = None \<and> length gs \<noteq> 6 then None
                 else if 8 < length gs + 2 then None
                 else (case parse_ipv4_fields s of
                   None \<Rightarrow> None
                 | Some fs \<Rightarrow> Some ([], gs @ pack_octets fs, ell)))
              else if c \<noteq> CHR '':'' then None
              else (case s2 of
                [] \<Rightarrow> None
              | c2 # s3 \<Rightarrow>
                  if c2 = CHR '':'' then
                    (if ell \<noteq> None then None
                     else if s3 = [] then Some ([], gs @ [of_int acc], Some (Suc (length gs)))
                     else v6_loop s3 (gs @ [of_int acc]) (Some (Suc (length gs))))
                  else v6_loop s2 (gs @ [of_int acc]) ell)))"
  by pat_completeness auto
termination
  by (relation "measure (\<lambda>(s, gs, ell). length s)") (auto dest!: scan_hex_length)

declare v6_loop.simps [simp del]

definition expand :: "uint16 list \<Rightarrow> nat option \<Rightarrow> uint16 list option" where
  "expand gs ell = (if length gs < 8
     then (case ell of None \<Rightarrow> None
       | Some e \<Rightarrow> Some (take e gs @ replicate (8 - length gs) 0 @ drop e gs))
     else (case ell of None \<Rightarrow> Some gs | Some _ \<Rightarrow> None))"

definition parse_ipv6_body :: "string \<Rightarrow> string \<Rightarrow> addr option" where
  "parse_ipv6_body s z =
     (let lead = has_prefix s ''::''; body = (if lead then drop 2 s else s) in
      if lead \<and> body = [] then Some (IP6 (replicate 8 0) z)
      else (case v6_loop body [] (if lead then Some 0 else None) of
        None \<Rightarrow> None
      | Some (r, gs, ell) \<Rightarrow>
          if r \<noteq> [] then None else map_option (\<lambda>g. IP6 g z) (expand gs ell)))"

definition parse_ipv6 :: "string \<Rightarrow> addr option" where
  "parse_ipv6 t =
     (let s = takeWhile (\<lambda>c. c \<noteq> CHR ''%'') t; z = drop (Suc (length s)) t
      in if CHR ''%'' \<in> set t \<and> z = [] then None else parse_ipv6_body s z)"

fun parse_addr_from :: "string \<Rightarrow> string \<Rightarrow> addr option" where
  "parse_addr_from t [] = None"
| "parse_addr_from t (c # s) =
     (if c = CHR ''.'' then map_option IP4 (parse_ipv4_fields t)
      else if c = CHR '':'' then parse_ipv6 t
      else if c = CHR ''%'' then None
      else parse_addr_from t s)"

definition parse_addr :: "string \<Rightarrow> addr option" where
  "parse_addr s = parse_addr_from s s"

section \<open>Prefixes\<close>

text \<open>\<open>detect.PrefixString\<close>: the /24 of an IPv4 address, the /48 of an IPv6 address.\<close>

fun masked_text :: "addr \<Rightarrow> string" where
  "masked_text (IP4 bs) = string4 (take 3 bs @ [0]) @ ''/24''"
| "masked_text (IP6 gs z) = addr_string (IP6 (take 3 gs @ replicate 5 0) []) @ ''/48''"

definition PrefixString :: "string \<Rightarrow> string" where
  "PrefixString value = (case parse_addr value of
     None \<Rightarrow> [] | Some a \<Rightarrow> masked_text (unmap a))"

section \<open>Digits\<close>

lemma small_nat_cases: "0 \<le> (n :: int) \<Longrightarrow> n < 16 \<Longrightarrow> n \<in> {0, 1, 2, 3, 4, 5, 6, 7, 8, 9, 10, 11, 12, 13, 14, 15}"
  unfolding insert_iff empty_iff by presburger

lemma hex_value_digit: "0 \<le> n \<Longrightarrow> n < 16 \<Longrightarrow> hex_value (digit n) = Some n"
  by (drule (1) small_nat_cases) (auto simp: hex_value_def digit_def char_in_def)

lemma dec_value_digit: "0 \<le> n \<Longrightarrow> n < 10 \<Longrightarrow> dec_value (digit n) = Some n"
  using small_nat_cases [of n] by (auto simp: dec_value_def digit_def char_in_def)

lemma separators [simp]:
  "dec_value CHR ''.'' = None" "hex_value CHR '':'' = None" "hex_value CHR ''.'' = None"
  "hex_value CHR ''%'' = None"
  by (auto simp: dec_value_def hex_value_def char_in_def)

lemma digit_not_special:
  "0 \<le> n \<Longrightarrow> n < 16 \<Longrightarrow> digit n \<noteq> CHR ''.'' \<and> digit n \<noteq> CHR '':'' \<and> digit n \<noteq> CHR ''%''"
  using hex_value_digit [of n] by (metis option.distinct(1) separators(2-4))

lemma special_not_digit:
  "0 \<le> n \<Longrightarrow> n < 16 \<Longrightarrow> CHR ''.'' \<noteq> digit n"
  "0 \<le> n \<Longrightarrow> n < 16 \<Longrightarrow> CHR '':'' \<noteq> digit n"
  "0 \<le> n \<Longrightarrow> n < 16 \<Longrightarrow> CHR ''%'' \<noteq> digit n"
  using digit_not_special [of n] by (metis)+

lemma nibbles:
  "256 * (n div 256) + n div 16 mod 16 * 16 + n mod 16 = (n :: int)"
  "4096 * (n div 4096) + 256 * (n div 256 mod 16) + n div 16 mod 16 * 16 + n mod 16 = (n :: int)"
proof -
  have a: "n div 256 = n div 16 div 16" "n div 4096 = n div 256 div 16"
    using zdiv_zmult2_eq [of 16 n 16] zdiv_zmult2_eq [of 16 n 256] by simp_all
  show "256 * (n div 256) + n div 16 mod 16 * 16 + n mod 16 = n"
    using div_mult_mod_eq [of n 16] div_mult_mod_eq [of "n div 16" 16] a by linarith
  then show "4096 * (n div 4096) + 256 * (n div 256 mod 16) + n div 16 mod 16 * 16 + n mod 16 = n"
    using div_mult_mod_eq [of "n div 256" 16] a by linarith
qed


section \<open>The text of an address parses back\<close>

lemma uint8_lt: "uint (b :: uint8) < 256"
  using uint_lt2p [of b] by simp

lemma uint16_lt: "uint (g :: uint16) < 65536"
  using uint_lt2p [of g] by simp

subsection \<open>IPv4\<close>

lemma v4_loop_digits: "\<exists>k > 0. v4_loop (dec_octet b @ r) 0 0 fs = v4_loop r (uint b) k fs"
proof -
  note n = uint8_lt [of b]
  consider "uint b < 10" | "10 \<le> uint b" "uint b < 100" | "100 \<le> uint b" by linarith
  then show ?thesis
  proof cases
    case 1
    then show ?thesis by (auto simp: dec_octet_def dec_value_digit)
  next
    case 2
    then have "0 < uint b div 10" "uint b div 10 < 10" "uint b div 10 * 10 + uint b mod 10 = uint b"
      by simp_all
    then show ?thesis using 2 n by (auto simp: dec_octet_def Let_def dec_value_digit)
  next
    case 3
    have "uint b div 10 div 10 = uint b div 100"
      using zdiv_zmult2_eq [of 10 "uint b" 10] by simp
    then have d: "(uint b div 100 * 10 + uint b div 10 mod 10) * 10 + uint b mod 10 = uint b"
      "uint b div 100 * 10 + uint b div 10 mod 10 = uint b div 10"
      using div_mult_mod_eq [of "uint b div 10" 10] div_mult_mod_eq [of "uint b" 10] by simp_all
    have e: "0 < uint b div 100" "uint b div 100 < 10" "uint b div 10 < 26" using 3 n by simp_all
    show ?thesis using 3 n d e by (auto simp: dec_octet_def Let_def dec_value_digit)
  qed
qed

lemma v4_loop_octet:
  "v4_loop (dec_octet b @ CHR ''.'' # s) 0 0 fs =
     (if s = [] \<or> length fs = 3 then None else v4_loop s 0 0 (fs @ [b]))"
  "v4_loop (dec_octet b) 0 0 fs = (if length fs = 3 then Some (fs @ [b]) else None)"
  using v4_loop_digits [of b "CHR ''.'' # s" fs] v4_loop_digits [of b "[]" fs] by auto

lemma dec_octet_nonempty [simp]: "dec_octet b \<noteq> []"
  by (simp add: dec_octet_def Let_def)

lemma parse_ipv4_string4:
  assumes "length bs = 4"
  shows "parse_ipv4_fields (string4 bs) = Some bs"
proof -
  obtain a b c d where bs: "bs = [a, b, c, d]"
    using assms by (auto simp: numeral_eq_Suc length_Suc_conv)
  show ?thesis
    by (simp add: bs string4_def parse_ipv4_fields_def v4_loop_octet)
qed

subsection \<open>IPv6 groups\<close>

definition stops :: "string \<Rightarrow> bool" where
  "stops s \<longleftrightarrow> s = [] \<or> hex_value (hd s) = None"

lemma scan_hex_group:
  assumes "stops s"
  shows "\<exists>n > 0. scan_hex (hex_group g @ s) 0 0 = Some (uint g, n, s)"
proof -
  have st: "scan_hex s a n = Some (a, n, s)" for a n
    using assms by (cases s) (auto simp: stops_def)
  show ?thesis
    using uint16_lt [of g]
    by (auto simp: hex_group_def Let_def hex_value_digit st nibbles)
qed

lemma stops_simps [simp]: "stops []" "stops (CHR '':'' # s)" "stops (CHR ''.'' # s)"
  by (simp_all add: stops_def)

lemma hex_group_hd: "hex_group g \<noteq> [] \<and> hd (hex_group g) \<noteq> CHR '':''"
  using uint16_lt [of g] by (auto simp: hex_group_def Let_def digit_not_special)

lemma groups_text_Cons:
  "groups_text (g # gs) = hex_group g @ (if gs = [] then [] else CHR '':'' # groups_text gs)"
  by (cases gs) (simp_all add: groups_text_def)

lemma groups_text_hd: "gs \<noteq> [] \<Longrightarrow> \<exists>c t. groups_text gs = c # t \<and> c \<noteq> CHR '':''"
  using hex_group_hd [of "hd gs"]
  by (cases gs; cases "hex_group (hd gs)") (auto simp: groups_text_Cons)

lemma groups_text_Nil_iff: "groups_text gs = [] \<longleftrightarrow> gs = []"
  using groups_text_hd [of gs] by (cases "gs = []") (auto simp: groups_text_def)

lemma v6_loop_groups:
  "gs \<noteq> [] \<Longrightarrow> length pre + length gs \<le> 8 \<Longrightarrow>
     v6_loop (groups_text gs) pre ell = Some ([], pre @ gs, ell)"
proof (induction gs arbitrary: pre)
  case (Cons g gs)
  show ?case
  proof (cases "gs = []")
    case True
    then show ?thesis
      using scan_hex_group [of "[]" g] Cons.prems
      by (subst v6_loop.simps) (auto simp: groups_text_Cons)
  next
    case False
    obtain c t where ct: "groups_text gs = c # t" "c \<noteq> CHR '':''"
      using groups_text_hd [OF False] by blast
    have "v6_loop (groups_text (g # gs)) pre ell = v6_loop (groups_text gs) (pre @ [g]) ell"
      using scan_hex_group [of "CHR '':'' # groups_text gs" g] Cons.prems False ct
      by (subst v6_loop.simps) (auto simp: groups_text_Cons)
    then show ?thesis
      using Cons.IH [of "pre @ [g]"] Cons.prems False by simp
  qed
qed simp

lemma v6_loop_ellipsis:
  "gs \<noteq> [] \<Longrightarrow> length pre + length gs < 8 \<Longrightarrow>
     v6_loop (groups_text gs @ ''::'' @ s) pre None =
       (if s = [] then Some ([], pre @ gs, Some (length (pre @ gs)))
        else v6_loop s (pre @ gs) (Some (length (pre @ gs))))"
proof (induction gs arbitrary: pre)
  case (Cons g gs)
  show ?case
  proof (cases "gs = []")
    case True
    then show ?thesis
      using scan_hex_group [of "''::'' @ s" g] Cons.prems
      by (subst v6_loop.simps) (auto simp: groups_text_Cons)
  next
    case False
    obtain c t where ct: "groups_text gs = c # t" "c \<noteq> CHR '':''"
      using groups_text_hd [OF False] by blast
    have "v6_loop (groups_text (g # gs) @ ''::'' @ s) pre None =
        v6_loop (groups_text gs @ ''::'' @ s) (pre @ [g]) None"
      using scan_hex_group [of "CHR '':'' # groups_text gs @ ''::'' @ s" g] Cons.prems False ct
      by (subst v6_loop.simps) (auto simp: groups_text_Cons)
    then show ?thesis
      using Cons.IH [of "pre @ [g]"] Cons.prems False by simp
  qed
qed simp

subsection \<open>The zero run\<close>

definition run_ok :: "uint16 list \<Rightarrow> nat \<times> nat \<Rightarrow> bool" where
  "run_ok gs r \<longleftrightarrow> r = (255, 255) \<or> (fst r + 2 \<le> snd r \<and> snd r \<le> length gs \<and>
     gs = take (fst r) gs @ replicate (snd r - fst r) 0 @ drop (snd r) gs)"

lemma run_end_split:
  "i \<le> length gs \<Longrightarrow> run_end gs i \<le> length gs \<and>
     gs = take i gs @ replicate (run_end gs i - i) 0 @ drop (run_end gs i) gs"
proof -
  assume i: "i \<le> length gs"
  let ?z = "takeWhile (\<lambda>g. g = 0) (drop i gs)"
  have z: "?z = replicate (length ?z) 0"
    by (rule replicate_length_same [symmetric]) (auto dest: set_takeWhileD)
  have "drop i gs = ?z @ dropWhile (\<lambda>g. g = 0) (drop i gs)" by simp
  moreover have "dropWhile (\<lambda>g. g = 0) (drop i gs) = drop (length ?z) (drop i gs)"
    by (rule dropWhile_eq_drop)
  ultimately have "drop i gs = replicate (length ?z) 0 @ drop (length ?z + i) gs"
    using z by (metis drop_drop)
  moreover have "length ?z \<le> length (drop i gs)" by (rule length_takeWhile_le)
  ultimately show ?thesis
    using i by (simp add: run_end_def add.commute)
qed

lemma zero_run_ok:
  "run_ok gs best \<Longrightarrow> \<forall>i \<in> set is. i \<le> length gs \<Longrightarrow> run_ok gs (zero_run gs is best)"
proof (induction gs "is" best rule: zero_run.induct)
  case (2 gs i "is" best)
  let ?j = "run_end gs i"
  have "run_ok gs (if 2 \<le> ?j - i \<and> snd best - fst best < ?j - i then (i, ?j) else best)"
    using 2(2,3) run_end_split [of i gs] by (auto simp: run_ok_def)
  with 2 show ?case by (simp add: Let_def)
qed simp

subsection \<open>Round trip\<close>

lemma expand_run:
  assumes "gs = take a gs @ replicate (b - a) 0 @ drop b gs" "a < b" "b \<le> 8" "length gs = 8"
  shows "expand (take a gs @ drop b gs) (Some a) = Some gs"
proof -
  have "8 - length (take a gs @ drop b gs) = b - a"
    using assms by simp
  moreover have "take a (take a gs @ drop b gs) = take a gs" "drop a (take a gs @ drop b gs) = drop b gs"
    using assms by simp_all
  ultimately show ?thesis
    using assms by (simp add: expand_def)
qed

lemma text_no_percent: "CHR ''%'' \<notin> set (groups_text gs)"
proof (induction gs)
  case (Cons g gs)
  have "CHR ''%'' \<notin> set (hex_group g)"
    using uint16_lt [of g] by (auto simp: hex_group_def Let_def special_not_digit)
  with Cons show ?case by (simp add: groups_text_Cons)
qed (simp add: groups_text_def)

lemma string4_no_percent: "CHR ''%'' \<notin> set (string4 bs) \<and> CHR '':'' \<notin> set (string4 bs)"
proof (induction bs)
  case (Cons b bs)
  have "CHR ''%'' \<notin> set (dec_octet b) \<and> CHR '':'' \<notin> set (dec_octet b)"
    using uint8_lt [of b] by (auto simp: dec_octet_def Let_def special_not_digit)
  with Cons show ?case by (cases bs) (auto simp: string4_def)
qed (simp add: string4_def)

lemma parse_ipv6_zone:
  assumes "CHR ''%'' \<notin> set s"
  shows "parse_ipv6 (s @ zone_text z) = parse_ipv6_body s z"
proof -
  have "takeWhile (\<lambda>c. c \<noteq> CHR ''%'') (s @ zone_text z) = s"
    using assms by (subst takeWhile_append2) (auto simp: zone_text_def)
  moreover have "CHR ''%'' \<in> set (s @ zone_text z) \<longleftrightarrow> z \<noteq> []"
    using assms by (auto simp: zone_text_def)
  moreover have "drop (Suc (length s)) (s @ zone_text z) = z"
    by (simp add: zone_text_def)
  ultimately show ?thesis unfolding parse_ipv6_def Let_def by (simp only:) simp
qed

lemma no_lead: "gs \<noteq> [] \<Longrightarrow> \<not> has_prefix (groups_text gs @ s) ''::''"
  using groups_text_hd [of gs] by (auto simp: has_prefix_def)

lemma parse_ipv6_string6:
  assumes "length gs = 8"
  shows "parse_ipv6 (string6 gs @ zone_text z) = Some (IP6 gs z)"
proof -
  obtain zs ze where r: "zero_run gs [0..<8] (255, 255) = (zs, ze)"
    by (cases "zero_run gs [0..<8] (255, 255)")
  have ok: "run_ok gs (zs, ze)"
    using zero_run_ok [of gs "(255, 255)" "[0..<8]"] assms r by (simp add: run_ok_def)
  show ?thesis
  proof (cases "ze = 255")
    case True
    have "gs \<noteq> []" using assms by auto
    then show ?thesis
      using v6_loop_groups [of gs "[]" None] no_lead [of gs "[]"] text_no_percent [of gs] True assms
      by (simp add: string6_def r parse_ipv6_zone parse_ipv6_body_def expand_def)
  next
    case False
    with ok assms have run: "zs + 2 \<le> ze" "ze \<le> 8"
      "gs = take zs gs @ replicate (ze - zs) 0 @ drop ze gs"
      by (auto simp: run_ok_def)
    have ex: "expand (take zs gs @ drop ze gs) (Some zs) = Some gs"
      using run assms by (intro expand_run) auto
    have text_eq: "string6 gs = groups_text (take zs gs) @ ''::'' @ groups_text (drop ze gs)"
      using False by (simp add: string6_def r)
    have pc: "CHR ''%'' \<notin> set (string6 gs)"
      by (simp add: text_eq text_no_percent)
    have rest: "v6_loop (groups_text (drop ze gs)) (take zs gs) (Some zs) =
        Some ([], take zs gs @ drop ze gs, Some zs)" if "drop ze gs \<noteq> []"
      using that run assms by (intro v6_loop_groups) auto
    note nil = groups_text_Nil_iff [of "drop ze gs"]
    show ?thesis
    proof (cases "zs = 0")
      case True
      have nil8: "drop ze gs = [] \<Longrightarrow> gs = replicate 8 0"
        using run assms True by (metis append_Nil append_Nil2 diff_zero drop_eq_Nil le_antisym take0)
      show ?thesis
        using pc ex rest nil nil8 True
        by (simp add: parse_ipv6_zone parse_ipv6_body_def) (auto simp: text_eq has_prefix_def groups_text_def Let_def)
    next
      case False
      then have ne: "take zs gs \<noteq> []" using assms by auto
      have lt: "length (take zs gs) < 8" using run assms by simp
      show ?thesis
        using pc ex rest nil ne lt run assms v6_loop_ellipsis [OF ne, of "[]" "groups_text (drop ze gs)"]
          no_lead [OF ne, of "''::'' @ groups_text (drop ze gs)"]
        by (simp add: parse_ipv6_zone parse_ipv6_body_def) (auto simp: text_eq Let_def min_def)
    qed
  qed
qed

subsection \<open>Mapped addresses\<close>

lemma join_hi_lo: "join_bytes (hi_byte g) (lo_byte g) = g"
proof -
  have "uint g div 256 < 256" using uint16_lt [of g] by simp
  then have "uint g div 256 mod 256 = uint g div 256"
    by (simp add: pos_imp_zdiv_nonneg_iff)
  then have "uint g div 256 mod 256 * 256 + uint g mod 256 = uint g"
    using div_mult_mod_eq [of "uint g" 256] by linarith
  then have "uint (join_bytes (hi_byte g) (lo_byte g)) = uint g"
    using uint16_lt [of g]
    by (simp add: join_bytes_def hi_byte_def lo_byte_def uint_word_ariths unsigned_ucast_eq
        unsigned_push_bit_eq unsigned_drop_bit_eq drop_bit_eq_div push_bit_eq_mult take_bit_eq_mod
        uint_div uint_mod)
  then show ?thesis by (simp add: word_uint_eq_iff)
qed

lemma scan_hex_octet:
  "\<exists>a n. 0 < n \<and> scan_hex (dec_octet b @ CHR ''.'' # s) 0 0 = Some (a, n, CHR ''.'' # s)"
  using uint8_lt [of b] by (auto simp: dec_octet_def Let_def hex_value_digit)

lemma string4_Cons:
  "string4 (b # bs) = dec_octet b @ (if bs = [] then [] else CHR ''.'' # string4 bs)"
  by (cases bs) (simp_all add: string4_def)

lemma v6_loop_string4:
  assumes "length bs = 4" "length gs \<le> 6"
  shows "v6_loop (string4 bs) gs (Some e) = Some ([], gs @ pack_octets bs, Some e)"
proof -
  obtain b bs' where bs: "bs = b # bs'" "bs' \<noteq> []"
    using assms(1) by (auto simp: numeral_eq_Suc length_Suc_conv)
  have s: "string4 bs = dec_octet b @ CHR ''.'' # string4 bs'"
    using bs by (simp add: string4_Cons)
  obtain a n where "0 < n"
    "scan_hex (string4 bs) 0 0 = Some (a, n, CHR ''.'' # string4 bs')"
    using scan_hex_octet [of b "string4 bs'"] s by auto
  then show ?thesis
    using assms parse_ipv4_string4 [OF assms(1)]
    by (subst v6_loop.simps) simp
qed

lemma parse_ipv6_mapped:
  assumes "is4in6 (IP6 gs z)"
  shows "parse_ipv6 (''::ffff:'' @ string4 (mapped_octets gs) @ zone_text z) = Some (IP6 gs z)"
proof -
  let ?t = "''::ffff:'' @ string4 (mapped_octets gs)"
  have l: "length (mapped_octets gs) = 4" by (simp add: mapped_octets_def)
  have g: "gs = [0, 0, 0, 0, 0, 65535, gs ! 6, gs ! 7]"
  proof -
    have "gs = take 6 gs @ drop 6 gs" by simp
    also have "drop 6 gs = [gs ! 6, gs ! 7]"
      using assms by (simp add: Cons_nth_drop_Suc [symmetric])
    finally show ?thesis using assms by simp
  qed
  have pk: "pack_octets (mapped_octets gs) = [gs ! 6, gs ! 7]"
    by (simp add: pack_octets_def mapped_octets_def join_hi_lo)
  have "string4 (mapped_octets gs) \<noteq> []" by (simp add: mapped_octets_def string4_Cons)
  then have c: "\<exists>c t. string4 (mapped_octets gs) = c # t \<and> c \<noteq> CHR '':''"
    using string4_no_percent [of "mapped_octets gs"]
    by (cases "string4 (mapped_octets gs)") auto
  have "v6_loop (''ffff:'' @ string4 (mapped_octets gs)) [] (Some 0) =
      v6_loop (string4 (mapped_octets gs)) [65535] (Some 0)"
    using c by (subst v6_loop.simps) (auto simp: hex_value_def char_in_def)
  then have "v6_loop (''ffff:'' @ string4 (mapped_octets gs)) [] (Some 0) =
      Some ([], [65535, gs ! 6, gs ! 7], Some 0)"
    using v6_loop_string4 [OF l, of "[65535]"] pk by simp
  moreover have "expand [65535, gs ! 6, gs ! 7] (Some 0) = Some gs"
    using g by (simp add: expand_def numeral_eq_Suc)
  ultimately have "parse_ipv6_body ?t z = Some (IP6 gs z)"
    by (simp add: parse_ipv6_body_def has_prefix_def)
  moreover have "CHR ''%'' \<notin> set ?t" using string4_no_percent by simp
  ultimately show ?thesis using parse_ipv6_zone [of ?t z] by simp
qed

subsection \<open>The theorem\<close>

definition plain_text :: "string \<Rightarrow> bool" where
  "plain_text s \<longleftrightarrow> CHR ''.'' \<notin> set s \<and> CHR '':'' \<notin> set s \<and> CHR ''%'' \<notin> set s"

lemma parse_addr_from_plain: "plain_text p \<Longrightarrow> parse_addr_from t (p @ r) = parse_addr_from t r"
  by (induction p) (auto simp: plain_text_def)

lemma plain_hex_group: "plain_text (hex_group g)"
  using uint16_lt [of g] by (auto simp: plain_text_def hex_group_def Let_def special_not_digit)

lemma plain_dec_octet: "plain_text (dec_octet b)"
  using uint8_lt [of b] by (auto simp: plain_text_def dec_octet_def Let_def special_not_digit)

lemma groups_text_shape:
  "gs \<noteq> [] \<Longrightarrow> \<exists>p r. plain_text p \<and> (groups_text gs @ CHR '':'' # s = p @ CHR '':'' # r)"
  using plain_hex_group by (cases gs) (auto simp: groups_text_Cons)

lemma string6_shape:
  assumes "length gs = 8"
  shows "\<exists>p r. plain_text p \<and> string6 gs = p @ CHR '':'' # r"
proof -
  obtain g g' gs' where gs: "gs = g # g' # gs'"
    using assms by (cases gs; cases "tl gs") auto
  obtain zs ze where r: "zero_run gs [0..<8] (255, 255) = (zs, ze)"
    by (cases "zero_run gs [0..<8] (255, 255)")
  show ?thesis
  proof (cases "ze = 255")
    case True
    then have "string6 gs = hex_group g @ CHR '':'' # groups_text (g' # gs')"
      by (simp add: string6_def r) (simp add: gs groups_text_Cons)
    then show ?thesis using plain_hex_group by blast
  next
    case False
    then have eq: "string6 gs =
        groups_text (take zs gs) @ CHR '':'' # CHR '':'' # groups_text (drop ze gs)"
      by (simp add: string6_def r)
    show ?thesis
    proof (cases "take zs gs = []")
      case True
      have "plain_text []" by (simp add: plain_text_def)
      then show ?thesis using eq True by (metis append_Nil groups_text_Nil_iff)
    next
      case False
      then show ?thesis using eq groups_text_shape [OF False] by metis
    qed
  qed
qed

theorem parse_addr_string: "addr_wf a \<Longrightarrow> parse_addr (addr_string a) = Some a"
proof (cases a)
  case (IP4 bs)
  assume "addr_wf a"
  with IP4 have l: "length bs = 4" by simp
  then obtain b bs' where bs: "bs = b # bs'" "bs' \<noteq> []"
    by (auto simp: numeral_eq_Suc length_Suc_conv)
  have "parse_addr_from t (string4 bs) = map_option IP4 (parse_ipv4_fields t)" for t
    using bs parse_addr_from_plain [OF plain_dec_octet [of b]] by (simp add: string4_Cons)
  then show ?thesis using IP4 l by (simp add: parse_addr_def parse_ipv4_string4)
next
  case (IP6 gs z)
  assume "addr_wf a"
  with IP6 have l: "length gs = 8" by simp
  show ?thesis
  proof (cases "is4in6 a")
    case True
    then show ?thesis
      using IP6 parse_ipv6_mapped [of gs z] by (simp add: parse_addr_def)
  next
    case False
    obtain p r where "plain_text p" "string6 gs = p @ CHR '':'' # r"
      using string6_shape [OF l] by blast
    then have "parse_addr_from t (string6 gs @ zone_text z) = parse_ipv6 t" for t
      using parse_addr_from_plain [of p] by simp
    then show ?thesis using False IP6 l by (simp add: parse_addr_def parse_ipv6_string6)
  qed
qed

lemma addr_string_inj: "addr_wf a \<Longrightarrow> addr_wf b \<Longrightarrow> addr_string a = addr_string b \<Longrightarrow> a = b"
  by (metis option.inject parse_addr_string)

lemma unmap_wf: "addr_wf a \<Longrightarrow> addr_wf (unmap a)"
  by (cases a) (auto simp: mapped_octets_def)

lemma unmap_not_mapped: "\<not> is4in6 (unmap a)"
  by (cases a) auto

lemma unmap_unmap [simp]: "unmap (unmap a) = unmap a"
  by (cases a) auto

section \<open>Parsed addresses\<close>

lemma v4_loop_length: "v4_loop s val dl fs = Some bs \<Longrightarrow> length bs = 4"
  by (induction s val dl fs rule: v4_loop.induct) (auto split: option.splits if_splits)

lemma v6_loop_length:
  "v6_loop s gs ell = Some (r, gs', ell') \<Longrightarrow> length gs \<le> 8 \<Longrightarrow> length gs' \<le> 8"
proof (induction "length s" arbitrary: s gs ell rule: less_induct)
  case less
  have IH: "length t < length s \<Longrightarrow> v6_loop t (gs @ [g]) e = Some (r, gs', ell') \<Longrightarrow>
      length gs < 8 \<Longrightarrow> length gs' \<le> 8" for t g e
    using less.hyps [of t "gs @ [g]" e] by simp
  show ?case
  proof (cases "8 \<le> length gs")
    case True
    then show ?thesis using less.prems by (subst (asm) v6_loop.simps) simp
  next
    case False
    obtain a n s1 where sc: "scan_hex s 0 0 = Some (a, n, s1)" "0 < n"
      using less.prems(1) False by (subst (asm) v6_loop.simps) (auto split: option.splits if_splits)
    then have "length s1 < length s" using scan_hex_length [OF sc(1)] by simp
    then show ?thesis
      using less.prems(1) False sc
      by (subst (asm) v6_loop.simps)
        (auto simp: pack_octets_def split: list.splits if_splits option.splits elim!: IH [rotated])
  qed
qed

lemma parse_addr_from_wf: "parse_addr_from t s = Some a \<Longrightarrow> addr_wf a"
proof (induction t s rule: parse_addr_from.induct)
  case (2 t c s)
  have v6: "addr_wf a" if "parse_ipv6 t = Some a"
  proof -
    from that obtain s' z where "parse_ipv6_body s' z = Some a"
      by (auto simp: parse_ipv6_def Let_def split: if_splits)
    then show ?thesis
      by (auto simp: parse_ipv6_body_def expand_def Let_def split: if_splits option.splits
          dest!: v6_loop_length)
  qed
  with 2 show ?case
    by (auto simp: parse_ipv4_fields_def dest: v4_loop_length split: if_splits)
qed simp

lemma parse_addr_wf: "parse_addr s = Some a \<Longrightarrow> addr_wf a"
  by (simp add: parse_addr_def parse_addr_from_wf)

lemma parse_ipv6_body_zone: "parse_ipv6_body s z = Some a \<Longrightarrow> \<exists>gs. a = IP6 gs z"
  by (auto simp: parse_ipv6_body_def Let_def split: if_splits option.splits prod.splits)

lemma parse_addr_from_zone:
  "parse_addr_from t s = Some a \<Longrightarrow> CHR ''%'' \<notin> set t \<Longrightarrow> case a of IP4 _ \<Rightarrow> True | IP6 _ z \<Rightarrow> z = []"
proof (induction t s rule: parse_addr_from.induct)
  case (2 t c s)
  have "parse_ipv6 t = parse_ipv6_body t []"
    using parse_ipv6_zone [OF 2(3), of "[]"] by (simp add: zone_text_def)
  then have "case a of IP4 _ \<Rightarrow> True | IP6 _ z \<Rightarrow> z = []" if "parse_ipv6 t = Some a"
    using that parse_ipv6_body_zone [of t "[]" a] by auto
  with 2 show ?case by (auto split: if_splits)
qed simp

lemma hex_group_length: "length (hex_group g) \<le> 4"
  by (simp add: hex_group_def Let_def)

lemma groups_text_length: "length (groups_text gs) \<le> 5 * length gs"
proof (induction gs)
  case (Cons g gs)
  then show ?case using hex_group_length [of g] by (simp add: groups_text_Cons)
qed (simp add: groups_text_def)

lemma string6_length:
  assumes "length gs = 8"
  shows "length (string6 gs) \<le> 40"
proof -
  obtain zs ze where r: "zero_run gs [0..<8] (255, 255) = (zs, ze)"
    by (cases "zero_run gs [0..<8] (255, 255)")
  have "run_ok gs (zs, ze)"
    using zero_run_ok [of gs "(255, 255)" "[0..<8]"] assms r by (simp add: run_ok_def)
  then show ?thesis
    using groups_text_length [of gs] groups_text_length [of "take zs gs"]
      groups_text_length [of "drop ze gs"] assms
    by (auto simp: string6_def r run_ok_def min_def)
qed

lemma string4_length: "length (string4 bs) \<le> 4 * length bs"
proof (induction bs)
  case (Cons b bs)
  have "length (dec_octet b) \<le> 3" by (simp add: dec_octet_def Let_def)
  with Cons show ?case by (simp add: string4_Cons)
qed (simp add: string4_def)

lemma string6_no_percent: "CHR ''%'' \<notin> set (string6 gs)"
  by (auto simp: string6_def text_no_percent split: prod.splits)

text \<open>The canonical text of a parsed, unzoned address is short, unzoned and parses to itself.\<close>

lemma canonical_text:
  assumes "parse_addr s = Some a" "CHR ''%'' \<notin> set s"
  shows "length (addr_string (unmap a)) \<le> 40" "CHR ''%'' \<notin> set (addr_string (unmap a))"
    "parse_addr (addr_string (unmap a)) = Some (unmap a)"
proof -
  have wf: "addr_wf (unmap a)" using parse_addr_wf [OF assms(1)] by (rule unmap_wf)
  have z: "case a of IP4 _ \<Rightarrow> True | IP6 _ z \<Rightarrow> z = []"
    using assms by (auto simp: parse_addr_def intro: parse_addr_from_zone)
  show "parse_addr (addr_string (unmap a)) = Some (unmap a)" using wf by (rule parse_addr_string)
  show "length (addr_string (unmap a)) \<le> 40"
    using wf z string6_length string4_length [of "mapped_octets (case a of IP6 gs _ \<Rightarrow> gs)"]
      string4_length [of "case a of IP4 bs \<Rightarrow> bs"]
    by (cases a) (auto simp: zone_text_def mapped_octets_def)
  show "CHR ''%'' \<notin> set (addr_string (unmap a))"
    using z string6_no_percent string4_no_percent
    by (cases a) (auto simp: zone_text_def)
qed

definition unzoned :: "addr \<Rightarrow> bool" where
  "unzoned a \<longleftrightarrow> (case a of IP4 _ \<Rightarrow> True | IP6 _ z \<Rightarrow> z = [])"

lemma unzoned_text:
  assumes "addr_wf a" "unzoned a"
  shows "length (addr_string a) \<le> 45" "CHR ''%'' \<notin> set (addr_string a)"
proof -
  show "length (addr_string a) \<le> 45"
    using assms string6_length [of "case a of IP6 gs _ \<Rightarrow> gs"]
      string4_length [of "mapped_octets (case a of IP6 gs _ \<Rightarrow> gs)"]
      string4_length [of "case a of IP4 bs \<Rightarrow> bs"]
    by (cases a) (auto simp: unzoned_def zone_text_def mapped_octets_def)
  show "CHR ''%'' \<notin> set (addr_string a)"
    using assms(2) string6_no_percent string4_no_percent
    by (cases a) (auto simp: unzoned_def zone_text_def)
qed

end
