(* ===== verification/Model.thy ===== *)
theory Model
  imports Float64 Netip
begin

text \<open>
  The shared data of \<open>internal/model\<close>: severities, directions, events and traffic totals. Go's
  string constants stay strings. The text a component formats (summaries, evidence values) is
  kept as the format string with its arguments, \<open>Fmt\<close>; turning it into characters is not
  modelled.
\<close>

section \<open>Text before formatting\<close>

datatype gotext =
    Text string
  | Number int
  | Float f64
  | Bool bool
  | Dur duration
  | Fmt string "gotext list"

section \<open>Severities and directions\<close>

type_synonym severity = string

definition SeverityInfo :: severity where "SeverityInfo = ''info''"
definition SeverityLow :: severity where "SeverityLow = ''low''"
definition SeverityMedium :: severity where "SeverityMedium = ''medium''"
definition SeverityHigh :: severity where "SeverityHigh = ''high''"
definition SeverityCritical :: severity where "SeverityCritical = ''critical''"

type_synonym direction = string

definition DirectionInbound :: direction where "DirectionInbound = ''inbound''"
definition DirectionOutbound :: direction where "DirectionOutbound = ''outbound''"

lemma directions_differ [simp]:
  "DirectionInbound \<noteq> DirectionOutbound" "DirectionOutbound \<noteq> DirectionInbound"
  by (simp_all add: DirectionInbound_def DirectionOutbound_def)

section \<open>Events and totals\<close>

record geo =
  g_CountryCode :: string
  g_Country :: string
  g_Region :: string
  g_City :: string
  g_ASN :: nat
  g_ASNOrg :: string
  g_ASNNetwork :: string
  g_DatabaseAge :: string
  g_Estimate :: bool

definition no_geo :: geo where
  "no_geo = \<lparr>g_CountryCode = [], g_Country = [], g_Region = [], g_City = [], g_ASN = 0,
     g_ASNOrg = [], g_ASNNetwork = [], g_DatabaseAge = [], g_Estimate = False\<rparr>"

record event =
  ev_ID :: string
  ev_IncidentID :: string
  ev_ObservedAt :: time
  ev_Kind :: string
  ev_Phase :: string
  ev_Severity :: severity
  ev_Summary :: gotext
  ev_SourceIP :: string
  ev_SourceRange :: string
  ev_Target :: gotext
  ev_Count :: uint64
  ev_Geo :: geo
  ev_Evidence :: "(string \<times> gotext) list"

definition set_evidence :: "string \<Rightarrow> gotext \<Rightarrow> event \<Rightarrow> event" where
  "set_evidence k v e = e\<lparr>ev_Evidence := AList.update k v (ev_Evidence e)\<rparr>"

record traffic =
  tr_HourUTC :: time
  tr_Direction :: direction
  tr_Country :: string
  tr_Region :: string
  tr_ASN :: nat
  tr_ASNOrg :: string
  tr_Bytes :: uint64
  tr_Packets :: uint64
  tr_Attributed :: bool

record interface_totals =
  it_Interface :: string
  it_HourUTC :: time
  it_RXBytes :: uint64
  it_TXBytes :: uint64
  it_RXPackets :: uint64
  it_TXPackets :: uint64

text \<open>
  \<open>model.NewID\<close> draws 80 random bits (the wall clock when that fails). The draws of a process are a sequence \<open>ids\<close>; a component
  that creates identifiers carries its position in it.
\<close>

definition new_id :: "(nat \<Rightarrow> string) \<Rightarrow> nat \<Rightarrow> string \<Rightarrow> string" where
  "new_id ids k prefix = prefix @ ''_'' @ ids k"

lemma set_evidence_simps [simp]:
  "ev_Kind (set_evidence k v e) = ev_Kind e"
  "ev_Phase (set_evidence k v e) = ev_Phase e"
  "ev_IncidentID (set_evidence k v e) = ev_IncidentID e"
  "ev_SourceIP (set_evidence k v e) = ev_SourceIP e"
  "ev_ObservedAt (set_evidence k v e) = ev_ObservedAt e"
  "ev_Count (set_evidence k v e) = ev_Count e"
  "ev_ID (set_evidence k v e) = ev_ID e"
  by (simp_all add: set_evidence_def)

end
