(* ===== verification/Packet.thy ===== *)
theory Packet
  imports Model
begin

text \<open>
  \<open>internal/sensor/packet.go\<close>: decoding of a captured Ethernet frame. Every byte the code indexes
  or slices is taken through \<open>byte_at\<close> and \<open>u16\<close>, which return no value out of range, so that a read
  outside the frame, a run-time panic in Go, is the outcome \<open>Panic\<close> of the model.
\<close>

section \<open>Frames and results\<close>

definition ethertype_IPv4 :: uint16 where "ethertype_IPv4 = 0x0800"
definition ethertype_IPv6 :: uint16 where "ethertype_IPv6 = 0x86dd"
definition ethertype_VLAN :: uint16 where "ethertype_VLAN = 0x8100"
definition ethertype_QinQ :: uint16 where "ethertype_QinQ = 0x88a8"

record packet =
  pk_Direction :: direction
  pk_RemoteIP :: addr
  pk_Protocol :: string
  pk_LocalPort :: uint16
  pk_RemotePort :: uint16
  pk_TCPFlags :: uint8
  pk_Bytes :: uint64

datatype packet_error =
    InvalidPacketDirection | TruncatedEthernet | TruncatedVLAN | UnsupportedEtherType
  | InvalidIPv4 | InvalidIPv4HeaderLength | InvalidIPv4TotalLength
  | InvalidIPv6 | InvalidIPv6PayloadLength | TruncatedIPv6Extension | InvalidIPv6ExtensionLength
  | TruncatedIPv6Fragment | TruncatedIPv6AH | InvalidIPv6AHLength | InvalidIPv6TransportOffset
  | Panic

text \<open>\<open>data[i]\<close>, \<open>binary.BigEndian.Uint16(data[i:i+2])\<close> and \<open>data[i:j]\<close>.\<close>

definition byte_at :: "byte list \<Rightarrow> nat \<Rightarrow> byte option" where
  "byte_at bs i = (if i < length bs then Some (bs ! i) else None)"

definition be16 :: "byte \<Rightarrow> byte \<Rightarrow> uint16" where
  "be16 hi lo = word_of_int (uint hi * 256 + uint lo)"

definition u16 :: "byte list \<Rightarrow> nat \<Rightarrow> uint16 option" where
  "u16 bs i = (if i + 2 \<le> length bs then Some (be16 (bs ! i) (bs ! (i + 1))) else None)"

definition slice :: "byte list \<Rightarrow> nat \<Rightarrow> nat \<Rightarrow> byte list option" where
  "slice bs i j = (if i \<le> j \<and> j \<le> length bs then Some (take (j - i) (drop i bs)) else None)"

definition groups_of :: "byte list \<Rightarrow> uint16 list" where
  "groups_of bs = map (\<lambda>i. be16 (bs ! (2 * i)) (bs ! (2 * i + 1))) [0..<8]"

section \<open>Transport\<close>

text \<open>The ports are source then destination; inbound, the source is the remote side.\<close>

definition set_ports :: "byte list \<Rightarrow> packet \<Rightarrow> packet option" where
  "set_ports data p = (case (u16 data 0, u16 data 2) of
     (Some source, Some destination) \<Rightarrow> Some
       (if pk_Direction p = DirectionInbound
        then p\<lparr>pk_LocalPort := destination, pk_RemotePort := source\<rparr>
        else p\<lparr>pk_LocalPort := source, pk_RemotePort := destination\<rparr>)
   | _ \<Rightarrow> None)"

definition decodeTransport :: "packet \<Rightarrow> byte \<Rightarrow> byte list \<Rightarrow> bool \<Rightarrow> packet option" where
  "decodeTransport p protocol data parsePorts =
     (if protocol = 6 then
        (let p = p\<lparr>pk_Protocol := ''tcp''\<rparr> in
         if parsePorts \<and> 14 \<le> length data then
           (case (set_ports data p, byte_at data 13) of
              (Some p', Some flags) \<Rightarrow> Some (p'\<lparr>pk_TCPFlags := flags\<rparr>)
            | _ \<Rightarrow> None)
         else Some p)
      else if protocol = 17 then
        (let p = p\<lparr>pk_Protocol := ''udp''\<rparr> in
         if parsePorts \<and> 4 \<le> length data then set_ports data p else Some p)
      else if protocol = 1 then Some (p\<lparr>pk_Protocol := ''icmp''\<rparr>)
      else if protocol = 58 then Some (p\<lparr>pk_Protocol := ''icmpv6''\<rparr>)
      else Some (p\<lparr>pk_Protocol := ''other''\<rparr>))"

definition or_panic :: "'a option \<Rightarrow> packet_error + 'a" where
  "or_panic r = (case r of None \<Rightarrow> Inl Panic | Some x \<Rightarrow> Inr x)"

definition empty_packet :: "direction \<Rightarrow> packet" where
  "empty_packet d = \<lparr>pk_Direction = d, pk_RemoteIP = IP4 [], pk_Protocol = [], pk_LocalPort = 0,
     pk_RemotePort = 0, pk_TCPFlags = 0, pk_Bytes = 0\<rparr>"

section \<open>IPv4\<close>

definition decodeIPv4 :: "byte list \<Rightarrow> direction \<Rightarrow> packet_error + packet" where
  "decodeIPv4 data d =
     (if length data < 20 then Inl InvalidIPv4
      else case (byte_at data 0, u16 data 2, u16 data 6, byte_at data 9, slice data 12 16, slice data 16 20) of
        (Some b0, Some totalField, Some fragment, Some protocol, Some source, Some destination) \<Rightarrow>
          if drop_bit 4 b0 \<noteq> 4 then Inl InvalidIPv4
          else
            let headerLen = unat (and b0 0x0f) * 4; totalLen = unat totalField in
            if headerLen < 20 \<or> length data < headerLen then Inl InvalidIPv4HeaderLength
            else if totalLen < headerLen \<or> length data < totalLen then Inl InvalidIPv4TotalLength
            else
              let p = (empty_packet d)\<lparr>pk_RemoteIP :=
                    IP4 (if d = DirectionInbound then source else destination)\<rparr>
              in or_panic (case slice data headerLen totalLen of
                   None \<Rightarrow> None
                 | Some transport \<Rightarrow>
                     decodeTransport p protocol transport (and fragment 0x1fff = 0))
      | _ \<Rightarrow> Inl Panic)"

section \<open>IPv6\<close>

text \<open>
  The loop over extension headers has at most eight rounds. It ends at a transport header, at a
  fragment that is not the first (whose payload is never traversed), or with an error.
\<close>

datatype ext_result =
    AtTransport byte nat
  | LaterFragment byte
  | ExtError packet_error

fun ipv6_extensions :: "nat \<Rightarrow> byte list \<Rightarrow> nat \<Rightarrow> byte \<Rightarrow> nat \<Rightarrow> ext_result" where
  "ipv6_extensions 0 data stop nxt offset = AtTransport nxt offset"
| "ipv6_extensions (Suc n) data stop nxt offset =
     (if nxt = 0 \<or> nxt = 43 \<or> nxt = 60 then
        if stop < offset + 2 then ExtError TruncatedIPv6Extension
        else (case (byte_at data offset, byte_at data (offset + 1)) of
          (Some nxt', Some len) \<Rightarrow>
            let length = (unat len + 1) * 8 in
            if length < 8 \<or> stop < offset + length then ExtError InvalidIPv6ExtensionLength
            else ipv6_extensions n data stop nxt' (offset + length)
        | _ \<Rightarrow> ExtError Panic)
      else if nxt = 44 then
        if stop < offset + 8 then ExtError TruncatedIPv6Fragment
        else (case (byte_at data offset, u16 data (offset + 2)) of
          (Some nxt', Some fragment) \<Rightarrow>
            if and fragment 0xfff8 = 0 then ipv6_extensions n data stop nxt' (offset + 8)
            else LaterFragment nxt'
        | _ \<Rightarrow> ExtError Panic)
      else if nxt = 51 then
        if stop < offset + 2 then ExtError TruncatedIPv6AH
        else (case (byte_at data offset, byte_at data (offset + 1)) of
          (Some nxt', Some len) \<Rightarrow>
            let length = (unat len + 2) * 4 in
            if length < 8 \<or> stop < offset + length then ExtError InvalidIPv6AHLength
            else ipv6_extensions n data stop nxt' (offset + length)
        | _ \<Rightarrow> ExtError Panic)
      else AtTransport nxt offset)"

definition ipv6_transport :: "packet \<Rightarrow> byte list \<Rightarrow> nat \<Rightarrow> byte \<Rightarrow> packet_error + packet" where
  "ipv6_transport p data stop nxt = (case ipv6_extensions 8 data stop nxt 40 of
     ExtError e \<Rightarrow> Inl e
   | LaterFragment protocol \<Rightarrow> or_panic (decodeTransport p protocol [] False)
   | AtTransport protocol offset \<Rightarrow>
       if stop < offset then Inl InvalidIPv6TransportOffset
       else or_panic (case slice data offset stop of
           None \<Rightarrow> None
         | Some transport \<Rightarrow> decodeTransport p protocol transport True))"

definition decodeIPv6 :: "byte list \<Rightarrow> direction \<Rightarrow> packet_error + packet" where
  "decodeIPv6 data d =
     (if length data < 40 then Inl InvalidIPv6
      else case (byte_at data 0, u16 data 4, byte_at data 6, slice data 8 24, slice data 24 40) of
        (Some b0, Some payload, Some nxt, Some source, Some destination) \<Rightarrow>
          if drop_bit 4 b0 \<noteq> 6 then Inl InvalidIPv6
          else if payload \<noteq> 0 \<and> length data < 40 + unat payload then Inl InvalidIPv6PayloadLength
          else ipv6_transport
            ((empty_packet d)\<lparr>pk_RemoteIP :=
               IP6 (groups_of (if d = DirectionInbound then source else destination)) []\<rparr>)
            data (if payload = 0 then length data else 40 + unat payload) nxt
      | _ \<Rightarrow> Inl Panic)"

section \<open>Ethernet\<close>

fun vlan_tags :: "nat \<Rightarrow> byte list \<Rightarrow> uint16 \<Rightarrow> nat \<Rightarrow> packet_error + (uint16 \<times> nat)" where
  "vlan_tags 0 frame ty offset = Inr (ty, offset)"
| "vlan_tags (Suc n) frame ty offset =
     (if ty = ethertype_VLAN \<or> ty = ethertype_QinQ then
        if length frame < offset + 4 then Inl TruncatedVLAN
        else (case u16 frame (offset + 2) of
            None \<Rightarrow> Inl Panic
          | Some ty' \<Rightarrow> vlan_tags n frame ty' (offset + 4))
      else Inr (ty, offset))"

definition DecodeEthernet :: "byte list \<Rightarrow> direction \<Rightarrow> packet_error + packet" where
  "DecodeEthernet frame d =
     (if d \<noteq> DirectionInbound \<and> d \<noteq> DirectionOutbound then Inl InvalidPacketDirection
      else if length frame < 14 then Inl TruncatedEthernet
      else case u16 frame 12 of
        None \<Rightarrow> Inl Panic
      | Some ty \<Rightarrow> (case vlan_tags 2 frame ty 14 of
          Inl e \<Rightarrow> Inl e
        | Inr (ty', offset) \<Rightarrow>
            (case slice frame offset (length frame) of
              None \<Rightarrow> Inl Panic
            | Some data \<Rightarrow>
                if ty' = ethertype_IPv4 \<or> ty' = ethertype_IPv6 then
                  (case (if ty' = ethertype_IPv4 then decodeIPv4 data d else decodeIPv6 data d) of
                     Inl e \<Rightarrow> Inl e
                   | Inr p \<Rightarrow> Inr (p\<lparr>pk_Bytes := of_nat (length frame)\<rparr>))
                else Inl UnsupportedEtherType)))"

section \<open>Reads stay inside the frame\<close>

lemma byte_at_Some: "i < length bs \<Longrightarrow> byte_at bs i = Some (bs ! i)"
  by (simp add: byte_at_def)

lemma u16_Some: "i + 2 \<le> length bs \<Longrightarrow> u16 bs i = Some (be16 (bs ! i) (bs ! (i + 1)))"
  by (simp add: u16_def)

lemma slice_Some: "i \<le> j \<Longrightarrow> j \<le> length bs \<Longrightarrow> slice bs i j = Some (take (j - i) (drop i bs))"
  by (simp add: slice_def)

lemmas in_range = byte_at_Some u16_Some slice_Some

lemma set_ports_Some:
  "4 \<le> length data \<Longrightarrow> \<exists>p'. set_ports data p = Some p' \<and> pk_Direction p' = pk_Direction p \<and>
     pk_RemoteIP p' = pk_RemoteIP p \<and> pk_Protocol p' = pk_Protocol p"
  by (auto simp: set_ports_def in_range)

lemma decodeTransport_Some:
  "\<exists>p'. decodeTransport p protocol data ports = Some p' \<and> pk_Direction p' = pk_Direction p \<and>
     pk_RemoteIP p' = pk_RemoteIP p \<and>
     pk_Protocol p' \<in> {''tcp'', ''udp'', ''icmp'', ''icmpv6'', ''other''}"
proof -
  have "\<exists>p'. set_ports data p1 = Some p' \<and> pk_Direction p' = pk_Direction p1 \<and>
     pk_RemoteIP p' = pk_RemoteIP p1 \<and> pk_Protocol p' = pk_Protocol p1" if "4 \<le> length data" for p1
    using that by (rule set_ports_Some)
  from this [of "p\<lparr>pk_Protocol := ''tcp''\<rparr>"] this [of "p\<lparr>pk_Protocol := ''udp''\<rparr>"]
  show ?thesis by (auto simp: decodeTransport_def Let_def in_range)
qed

lemma decodeTransport_no_ports:
  "decodeTransport p protocol data False = Some p' \<Longrightarrow>
     pk_LocalPort p' = pk_LocalPort p \<and> pk_RemotePort p' = pk_RemotePort p \<and> pk_TCPFlags p' = pk_TCPFlags p"
  by (auto simp: decodeTransport_def Let_def split: if_splits)

lemma ipv6_extensions_total:
  assumes "offset \<le> stop" "stop \<le> length data"
  shows "ipv6_extensions n data stop nxt offset \<noteq> ExtError Panic \<and>
    (\<forall>x off. ipv6_extensions n data stop nxt offset = AtTransport x off \<longrightarrow> off \<le> stop)"
  using assms
proof (induction n arbitrary: nxt offset)
  case (Suc n)
  have "\<not> stop < offset + 2 \<Longrightarrow> byte_at data offset = Some (data ! offset)"
    "\<not> stop < offset + 2 \<Longrightarrow> byte_at data (offset + 1) = Some (data ! (offset + 1))"
    "\<not> stop < offset + 8 \<Longrightarrow> byte_at data offset = Some (data ! offset)"
    "\<not> stop < offset + 8 \<Longrightarrow> u16 data (offset + 2) = Some (be16 (data ! (offset + 2)) (data ! (offset + 2 + 1)))"
    using Suc.prems by (simp_all add: in_range)
  note reads = this
  show ?case using Suc.IH reads Suc.prems by (simp add: Let_def not_less)
qed simp

lemma vlan_tags_total:
  assumes "offset \<le> length frame"
  shows "case vlan_tags n frame ty offset of Inl e \<Rightarrow> e \<noteq> Panic | Inr (_, off) \<Rightarrow> off \<le> length frame"
  using assms by (induction n arbitrary: ty offset) (auto simp: in_range not_less)

text \<open>What a decoded packet looks like.\<close>

definition packet_ok :: "direction \<Rightarrow> packet \<Rightarrow> bool" where
  "packet_ok d p \<longleftrightarrow> pk_Direction p = d \<and> addr_wf (pk_RemoteIP p) \<and> unzoned (pk_RemoteIP p) \<and>
     pk_Protocol p \<in> {''tcp'', ''udp'', ''icmp'', ''icmpv6'', ''other''}"

lemma or_panic_transport:
  assumes "pk_Direction p = d" "addr_wf (pk_RemoteIP p)" "unzoned (pk_RemoteIP p)"
  shows "case or_panic (decodeTransport p protocol data ports) of Inl e \<Rightarrow> e \<noteq> Panic | Inr q \<Rightarrow> packet_ok d q"
  using decodeTransport_Some [of p protocol data ports] assms by (auto simp: or_panic_def packet_ok_def)

lemma decodeIPv4_total:
  "case decodeIPv4 data d of Inl e \<Rightarrow> e \<noteq> Panic | Inr p \<Rightarrow> packet_ok d p"
proof (cases "length data < 20")
  case False
  have b0: "byte_at data 0 = Some (data ! 0)" using False by (cases data) (auto simp: byte_at_def)
  show ?thesis
    using False
    by (auto simp: decodeIPv4_def b0 in_range Let_def not_less empty_packet_def unzoned_def
        intro!: or_panic_transport)
qed (simp add: decodeIPv4_def)

lemma ipv6_transport_total:
  assumes "40 \<le> stop" "stop \<le> length data" and p: "pk_Direction p = d" "addr_wf (pk_RemoteIP p)" "unzoned (pk_RemoteIP p)"
  shows "case ipv6_transport p data stop nxt of Inl e \<Rightarrow> e \<noteq> Panic | Inr q \<Rightarrow> packet_ok d q"
proof (cases "ipv6_extensions 8 data stop nxt 40")
  case (AtTransport protocol offset)
  then have "offset \<le> stop" using ipv6_extensions_total [OF assms(1,2), of 8 nxt] by blast
  then show ?thesis
    using or_panic_transport [OF p, of protocol "take (stop - offset) (drop offset data)" True] assms(2)
    by (simp add: ipv6_transport_def AtTransport in_range)
next
  case (LaterFragment protocol)
  then show ?thesis
    using or_panic_transport [OF p, of protocol "[]" False] by (simp add: LaterFragment ipv6_transport_def)
next
  case (ExtError e)
  then show ?thesis
    using ipv6_extensions_total [OF assms(1,2), of 8 nxt] by (auto simp: ipv6_transport_def)
qed

lemma decodeIPv6_total:
  "case decodeIPv6 data d of Inl e \<Rightarrow> e \<noteq> Panic | Inr p \<Rightarrow> packet_ok d p"
proof (cases "length data < 40")
  case False
  have b0: "byte_at data 0 = Some (data ! 0)" using False by (cases data) (auto simp: byte_at_def)
  show ?thesis
    using False
    by (auto simp: decodeIPv6_def b0 in_range not_less empty_packet_def groups_of_def unzoned_def
        intro!: ipv6_transport_total)
qed (simp add: decodeIPv6_def)

text \<open>C38: decoding never reads outside.\<close>

theorem decode_total:
  "case DecodeEthernet frame d of
     Inl e \<Rightarrow> e \<noteq> Panic
   | Inr p \<Rightarrow> packet_ok d p \<and> pk_Bytes p = of_nat (length frame)"
proof (cases "length frame < 14")
  case False
  then have "14 \<le> length frame" by simp
  note tags = vlan_tags_total [OF this, of 2 "be16 (frame ! 12) (frame ! 13)"]
  show ?thesis
  proof (cases "vlan_tags 2 frame (be16 (frame ! 12) (frame ! 13)) 14")
    case (Inl e)
    then show ?thesis using False tags by (simp add: DecodeEthernet_def in_range)
  next
    case (Inr r)
    obtain ty off where r: "r = (ty, off)" by (cases r)
    let ?inner = "if ty = ethertype_IPv4 then decodeIPv4 (drop off frame) d else decodeIPv6 (drop off frame) d"
    have "case ?inner of Inl e \<Rightarrow> e \<noteq> Panic | Inr p \<Rightarrow> packet_ok d p"
      by (simp add: decodeIPv4_total decodeIPv6_total)
    then show ?thesis
      using False tags Inr r
      by (cases ?inner) (simp_all add: DecodeEthernet_def in_range packet_ok_def)
  qed
qed (simp add: DecodeEthernet_def)
section \<open>Fragments and round trip\<close>

lemma decode_untagged:
  assumes "14 \<le> length frame" "be16 (frame ! 12) (frame ! 13) = ty"
    and "ty = ethertype_IPv4 \<or> ty = ethertype_IPv6"
    and "d = DirectionInbound \<or> d = DirectionOutbound"
  shows "DecodeEthernet frame d =
    (case (if ty = ethertype_IPv4 then decodeIPv4 (drop 14 frame) d else decodeIPv6 (drop 14 frame) d) of
       Inl e \<Rightarrow> Inl e | Inr p \<Rightarrow> Inr (p\<lparr>pk_Bytes := of_nat (length frame)\<rparr>))"
proof -
  have "\<not> (ty = ethertype_VLAN \<or> ty = ethertype_QinQ)"
    using assms(3) by (auto simp: ethertype_VLAN_def ethertype_QinQ_def ethertype_IPv4_def ethertype_IPv6_def)
  then have "vlan_tags 2 frame ty 14 = Inr (ty, 14)" by (simp add: numeral_2_eq_2)
  moreover have "u16 frame 12 = Some ty" using assms(1,2) by (simp add: u16_def)
  moreover have "slice frame 14 (length frame) = Some (drop 14 frame)" using assms(1) by (simp add: slice_def)
  ultimately show ?thesis
    using assms(1,3,4) unfolding DecodeEthernet_def by auto
qed

lemma decodeIPv4_eq:
  assumes "20 \<le> length data"
  shows "decodeIPv4 data d =
    (if drop_bit 4 (data ! 0) \<noteq> 4 then Inl InvalidIPv4
     else if unat (and (data ! 0) 0x0f) * 4 < 20 \<or> length data < unat (and (data ! 0) 0x0f) * 4
     then Inl InvalidIPv4HeaderLength
     else if unat (be16 (data ! 2) (data ! 3)) < unat (and (data ! 0) 0x0f) * 4 \<or>
       length data < unat (be16 (data ! 2) (data ! 3))
     then Inl InvalidIPv4TotalLength
     else or_panic (decodeTransport
       ((empty_packet d)\<lparr>pk_RemoteIP := IP4 (take 4 (drop (if d = DirectionInbound then 12 else 16) data))\<rparr>)
       (data ! 9)
       (take (unat (be16 (data ! 2) (data ! 3)) - unat (and (data ! 0) 0x0f) * 4)
         (drop (unat (and (data ! 0) 0x0f) * 4) data))
       (and (be16 (data ! 6) (data ! 7)) 0x1fff = 0)))"
proof -
  have "byte_at data 0 = Some (data ! 0)" using assms by (cases data) (auto simp: byte_at_def)
  then show ?thesis
    using assms by (simp add: decodeIPv4_def in_range Let_def)
qed

lemma decodeIPv4_Inr:
  assumes "decodeIPv4 data d = Inr p"
  obtains q transport where "pk_LocalPort q = 0" "pk_RemotePort q = 0" "pk_TCPFlags q = 0"
    "decodeTransport q (data ! 9) transport (and (be16 (data ! 6) (data ! 7)) 0x1fff = 0) = Some p"
proof -
  have "20 \<le> length data" using assms by (auto simp: decodeIPv4_def split: if_splits)
  then show thesis
    using assms that [of "(empty_packet d)\<lparr>pk_RemoteIP := IP4 (take 4 (drop (if d = DirectionInbound then 12 else 16) data))\<rparr>"]
    by (auto simp: decodeIPv4_eq or_panic_def empty_packet_def split: if_splits option.splits)
qed

lemma decodeIPv6_fragment_Inr:
  assumes "decodeIPv6 data d = Inr p" "data ! 6 = 44" "and (be16 (data ! 42) (data ! 43)) 0xfff8 \<noteq> (0 :: uint16)"
  obtains q where "pk_LocalPort q = 0" "pk_RemotePort q = 0" "pk_TCPFlags q = 0"
    "decodeTransport q (data ! 40) [] False = Some p"
proof -
  obtain q stop where q: "pk_LocalPort q = 0" "pk_RemotePort q = 0" "pk_TCPFlags q = 0"
    and r: "ipv6_transport q data stop (data ! 6) = Inr p" and le: "stop \<le> length data"
  proof -
    have "40 \<le> length data" using assms(1) by (auto simp: decodeIPv6_def split: if_splits)
    moreover from this have "byte_at data 0 = Some (data ! 0)" by (cases data) (auto simp: byte_at_def)
    ultimately show ?thesis
      using assms(1) that [of "empty_packet d\<lparr>pk_RemoteIP :=
        IP6 (groups_of (if d = DirectionInbound then take 16 (drop 8 data) else take 16 (drop 24 data))) []\<rparr>"]
      by (auto simp: decodeIPv6_def empty_packet_def in_range split: if_splits)
  qed
  show thesis
  proof (cases "stop < 48")
    case True
    then have "ipv6_extensions 8 data stop (data ! 6) 40 = ExtError TruncatedIPv6Fragment"
      using assms(2) ipv6_extensions.simps(2) [of 7 data stop "data ! 6" 40] by simp
    then show thesis using r by (simp add: ipv6_transport_def)
  next
    case False
    then have "ipv6_extensions 8 data stop (data ! 6) 40 = LaterFragment (data ! 40)"
      using assms(2,3) le ipv6_extensions.simps(2) [of 7 data stop "data ! 6" 40] by (simp add: in_range)
    then show thesis using r q that by (auto simp: ipv6_transport_def or_panic_def split: option.splits)
  qed
qed

text \<open>Later fragments never yield ports.\<close>

theorem later_fragment_no_ports:
  assumes "DecodeEthernet frame d = Inr p"
    and "be16 (frame ! 12) (frame ! 13) = ethertype_IPv4 \<and>
         and (be16 (frame ! 20) (frame ! 21)) 0x1fff \<noteq> (0 :: uint16) \<or>
       be16 (frame ! 12) (frame ! 13) = ethertype_IPv6 \<and> frame ! 20 = 44 \<and>
         and (be16 (frame ! 56) (frame ! 57)) 0xfff8 \<noteq> (0 :: uint16)"
  shows "pk_LocalPort p = 0 \<and> pk_RemotePort p = 0 \<and> pk_TCPFlags p = 0"
proof -
  have len: "14 \<le> length frame" and d: "d = DirectionInbound \<or> d = DirectionOutbound"
    using assms(1) by (auto simp: DecodeEthernet_def split: if_splits)
  have ty: "be16 (frame ! 12) (frame ! 13) = ethertype_IPv4 \<or> be16 (frame ! 12) (frame ! 13) = ethertype_IPv6"
    using assms(2) by auto
  have nth: "drop 14 frame ! i = frame ! (14 + i)" for i using len by (simp add: add.commute)
  obtain p0 where p: "pk_LocalPort p = pk_LocalPort p0" "pk_RemotePort p = pk_RemotePort p0" "pk_TCPFlags p = pk_TCPFlags p0"
    and r: "(if be16 (frame ! 12) (frame ! 13) = ethertype_IPv4 then decodeIPv4 (drop 14 frame) d
      else decodeIPv6 (drop 14 frame) d) = Inr p0"
    using assms(1) decode_untagged [OF len refl ty d] by (auto split: sum.splits)
  show ?thesis
  proof (cases "be16 (frame ! 12) (frame ! 13) = ethertype_IPv4")
    case True
    then have "decodeIPv4 (drop 14 frame) d = Inr p0" using r by simp
    then obtain q transport where q: "pk_LocalPort q = 0" "pk_RemotePort q = 0" "pk_TCPFlags q = 0"
      "decodeTransport q (frame ! 23) transport (and (be16 (frame ! 20) (frame ! 21)) 0x1fff = (0 :: uint16)) = Some p0"
      by (rule decodeIPv4_Inr) (simp add: nth)
    moreover have "and (be16 (frame ! 20) (frame ! 21)) 0x1fff \<noteq> (0 :: uint16)"
      using assms(2) True by (auto simp: ethertype_IPv4_def ethertype_IPv6_def)
    ultimately show ?thesis using p decodeTransport_no_ports by simp
  next
    case False
    then have "decodeIPv6 (drop 14 frame) d = Inr p0" using r by simp
    moreover have "drop 14 frame ! 6 = 44" "and (be16 (drop 14 frame ! 42) (drop 14 frame ! 43)) 0xfff8 \<noteq> (0 :: uint16)"
      using assms(2) False by (simp_all add: nth)
    ultimately obtain q where "pk_LocalPort q = 0" "pk_RemotePort q = 0" "pk_TCPFlags q = 0"
      "decodeTransport q (drop 14 frame ! 40) [] False = Some p0"
      by (rule decodeIPv6_fragment_Inr)
    then show ?thesis using p decodeTransport_no_ports by simp
  qed
qed

definition sample_fragment :: "byte list" where
  "sample_fragment = replicate 12 0 @ [8, 0, 0x45, 0, 0, 24, 0, 0, 0, 1, 64, 17, 0, 0, 10, 0, 0, 1, 10, 0, 0, 2, 0, 53, 0, 99]"

definition sample_fragment_packet :: packet where
  "sample_fragment_packet = (empty_packet DirectionInbound)\<lparr>pk_RemoteIP := IP4 [10, 0, 0, 1], pk_Protocol := ''udp'', pk_Bytes := 38\<rparr>"

theorem later_fragment_no_ports_witness:
  "DecodeEthernet sample_fragment DirectionInbound = Inr sample_fragment_packet \<and>
   pk_LocalPort sample_fragment_packet = 0 \<and> pk_RemotePort sample_fragment_packet = 0 \<and> pk_TCPFlags sample_fragment_packet = 0"
proof
  show "DecodeEthernet sample_fragment DirectionInbound = Inr sample_fragment_packet" by code_simp
  then show "pk_LocalPort sample_fragment_packet = 0 \<and> pk_RemotePort sample_fragment_packet = 0 \<and> pk_TCPFlags sample_fragment_packet = 0"
    by (rule later_fragment_no_ports) code_simp
qed

text \<open>The bytes of an untagged IPv4 frame with a 20-byte header carrying a TCP segment.\<close>

definition ipv4_tcp_frame :: "byte list \<Rightarrow> byte list \<Rightarrow> byte list \<Rightarrow> byte \<times> byte \<Rightarrow> byte \<times> byte \<Rightarrow>
    byte list \<Rightarrow> byte \<Rightarrow> byte list \<Rightarrow> byte list" where
  "ipv4_tcp_frame macs source destination sport dport middle flags rest = macs @ [8, 0] @
     (let total = 34 + length rest in
      [0x45, 0, of_nat (total div 256), of_nat total, 0, 0, 0, 0, 64, 6, 0, 0]) @
     source @ destination @ [fst sport, snd sport, fst dport, snd dport] @ middle @ [flags] @ rest"

lemma uint_be16: "uint (be16 hi lo) = uint hi * 256 + uint lo"
proof -
  have "uint hi < 256" "uint lo < 256" using uint_lt2p [of hi] uint_lt2p [of lo] by simp_all
  then show ?thesis by (simp add: be16_def uint_word_of_int del: of_int_add of_int_mult)
qed

lemma unat_be16: "n < 65536 \<Longrightarrow> unat (be16 (of_nat (n div 256)) (of_nat n)) = n"
proof -
  assume n: "n < 65536"
  have b: "uint (of_nat m :: byte) = int (m mod 256)" for m
    by (simp add: uint_nat unat_of_nat zmod_int)
  have "uint (be16 (of_nat (n div 256)) (of_nat n)) = int (n div 256 mod 256 * 256 + n mod 256)"
    unfolding uint_be16 b by simp
  also have "n div 256 mod 256 * 256 + n mod 256 = n" using n by simp
  finally show ?thesis by (simp add: unat_eq_nat_uint)
qed

lemma decode_ipv4_tcp_frame:
  assumes "length macs = 12" "length source = 4" "length destination = 4" "length middle = 9"
    and "length rest < 65000" "d = DirectionInbound \<or> d = DirectionOutbound"
  shows "DecodeEthernet (ipv4_tcp_frame macs source destination sport dport middle flags rest) d =
    map_sum id (pk_Bytes_update (\<lambda>_. of_nat (48 + length rest))) (or_panic (decodeTransport
      ((empty_packet d)\<lparr>pk_RemoteIP := IP4 (if d = DirectionInbound then source else destination)\<rparr>) 6
      ([fst sport, snd sport, fst dport, snd dport] @ middle @ [flags] @ rest) True))"
proof -
  let ?f = "ipv4_tcp_frame macs source destination sport dport middle flags rest"
  let ?seg = "[fst sport, snd sport, fst dport, snd dport] @ middle @ [flags] @ rest"
  let ?total = "34 + length rest"
  let ?head = "[0x45, 0, of_nat (?total div 256), of_nat ?total, 0, 0, 0, 0, 64, 6, 0, 0] :: byte list"
  define data where "data = ?head @ source @ destination @ ?seg"
  have f: "?f = macs @ [8, 0] @ data" by (simp add: ipv4_tcp_frame_def data_def Let_def)
  have ty: "be16 (?f ! 12) (?f ! 13) = ethertype_IPv4"
    using assms(1) by (simp add: f nth_append be16_def ethertype_IPv4_def)
  have len: "length data = ?total" using assms by (simp add: data_def)
  have drop: "drop 14 ?f = data" using assms(1) by (simp add: f)
  have flen: "length ?f = 48 + length rest" using assms(1) len by (simp add: f)
  have nths: "data ! 0 = 0x45" "data ! 2 = of_nat (?total div 256)" "data ! 3 = of_nat ?total"
    "data ! 6 = 0" "data ! 7 = 0" "data ! 9 = 6"
    by (simp_all add: data_def)
  have hdr: "unat (and (0x45 :: byte) 0x0f) = 5" "drop_bit 4 (0x45 :: byte) = 4"
    "and (be16 0 0) 0x1fff = 0" by (simp_all add: be16_def) 
  have total: "unat (be16 (data ! 2) (data ! 3)) = ?total"
    using assms(5) unfolding nths by (intro unat_be16) simp
  have parts: "take 4 (drop 12 data) = source" "take 4 (drop 16 data) = destination"
    using assms by (simp_all add: data_def)
  have seg: "take (14 + length rest) (drop 20 data) = ?seg"
    using assms by (simp add: data_def)
  have "decodeIPv4 data d = or_panic (decodeTransport
      ((empty_packet d)\<lparr>pk_RemoteIP := IP4 (if d = DirectionInbound then source else destination)\<rparr>) 6 ?seg True)"
    using len parts(1,2) seg assms(4) by (subst decodeIPv4_eq) (simp_all only: total, simp_all add: nths hdr)
  then show ?thesis
    using decode_untagged [OF _ ty _ assms(6)] flen drop by (simp split: sum.split)
qed



end
