(* ===== verification/Interfaces.thy ===== *)
theory Interfaces
  imports GoPrelude
begin

text \<open>
  The contracts one component relies on and another provides, as locales. Each is interpreted on
  the definitions of the component that provides it; the lemmas proved here once then hold of the
  code's model.
\<close>

section \<open>Self-delimiting messages on a byte stream\<close>

text \<open>
  A reader takes one message from the front of a stream. The provider promises that it takes
  exactly what the writer put there; a client may then read any number of messages back.
\<close>

fun read_many :: "(byte list \<Rightarrow> 'e + ('a \<times> byte list)) \<Rightarrow> nat \<Rightarrow> byte list \<Rightarrow> 'e + ('a list \<times> byte list)" where
  "read_many rd 0 input = Inr ([], input)"
| "read_many rd (Suc n) input = (case rd input of
     Inl e \<Rightarrow> Inl e
   | Inr (x, rest) \<Rightarrow> (case read_many rd n rest of
       Inl e \<Rightarrow> Inl e
     | Inr (xs, rest') \<Rightarrow> Inr (x # xs, rest')))"

locale stream_codec =
  fixes put :: "'a \<Rightarrow> byte list"
    and get :: "byte list \<Rightarrow> 'e + ('a \<times> byte list)"
    and sendable :: "'a \<Rightarrow> bool"
  assumes get_put: "sendable x \<Longrightarrow> get (put x @ rest) = Inr (x, rest)"
begin

lemma read_many_put:
  "list_all sendable xs \<Longrightarrow>
     read_many get (length xs) (concat (map put xs) @ rest) = Inr (xs, rest)"
  by (induction xs) (simp_all add: get_put)

lemma put_inj:
  assumes "sendable x" "sendable y" "put x @ r = put y @ s"
  shows "x = y \<and> r = s"
  using get_put [OF assms(1), of r] get_put [OF assms(2), of s] unfolding assms(3) by simp

end

section \<open>Cumulative counters and their deltas\<close>

text \<open>
  A producer reports cumulative snapshots; a consumer accounts differences. The provider promises
  that an accepted difference is exact for every counter; then the accepted differences of a run
  of snapshots add up to its last snapshot.
\<close>

locale cumulative =
  fixes delta :: "'h \<Rightarrow> 'h \<Rightarrow> 'e + 'h"
    and count :: "'c \<Rightarrow> 'h \<Rightarrow> nat"
  assumes delta_exact: "delta now before = Inr d \<Longrightarrow> count c before + count c d = count c now"
begin

fun deltas :: "'h \<Rightarrow> 'h list \<Rightarrow> 'e + 'h list" where
  "deltas before [] = Inr []"
| "deltas before (now # later) = (case delta now before of
     Inl e \<Rightarrow> Inl e
   | Inr d \<Rightarrow> (case deltas now later of
       Inl e \<Rightarrow> Inl e
     | Inr ds \<Rightarrow> Inr (d # ds)))"

lemma telescope:
  "deltas before hs = Inr ds \<Longrightarrow>
     count c before + (\<Sum>d\<leftarrow>ds. count c d) = count c (last (before # hs))"
proof (induction hs arbitrary: before ds)
  case (Cons now later)
  then show ?case
    by (auto split: sum.splits dest!: delta_exact [where c = c] simp flip: add.assoc)
qed simp

lemma delta_mono: "delta now before = Inr d \<Longrightarrow> count c before \<le> count c now"
  using delta_exact [of now before d c] by simp

end

section \<open>Clients of a shared budget\<close>

text \<open>
  Several clients draw on one budget and each action runs one of them with the budget lent to it.
  A client promises to account what it draws to what it holds, and to rely on the budget only for
  its bound; then what all clients hold together is exactly what the budget has handed out.
\<close>

locale budget_clients =
  fixes used limit :: "'p \<Rightarrow> int"
    and held :: "'c \<Rightarrow> nat"
    and ok :: "'p \<Rightarrow> 'c \<Rightarrow> bool"
    and act :: "'o \<Rightarrow> 'p \<times> 'c \<Rightarrow> 'p \<times> 'c"
  assumes act_ok: "ok p c \<Longrightarrow> act x (p, c) = (p', c') \<Longrightarrow> ok p' c'"
    and act_account: "ok p c \<Longrightarrow> act x (p, c) = (p', c') \<Longrightarrow>
      used p' - int (held c') = used p - int (held c) \<and> limit p' = limit p"
    and ok_within: "ok p c \<Longrightarrow> used p \<le> limit p"
    and ok_any: "ok p c \<Longrightarrow> used q \<le> limit q \<Longrightarrow> ok q c"
begin

definition accounted :: "'p \<Rightarrow> (string \<times> 'c) list \<Rightarrow> bool" where
  "accounted p m \<longleftrightarrow> keys_distinct m \<and> used p = int (al_sum held m) \<and> used p \<le> limit p \<and>
     (\<forall>(k, c)\<in>set m. ok p c)"

lemma accounted_bound: "accounted p m \<Longrightarrow> int (al_sum held m) \<le> limit p"
  by (simp add: accounted_def)

lemma accounted_ok: "accounted p m \<Longrightarrow> map_of m k = Some c \<Longrightarrow> ok p c"
  by (auto simp: accounted_def dest: map_of_SomeD)

lemma all_ok: "\<forall>(k, c)\<in>set m. ok p c \<Longrightarrow> used q \<le> limit q \<Longrightarrow> \<forall>(k, c)\<in>set m. ok q c"
  using ok_any by blast

lemma accounted_act:
  assumes "accounted p m" "map_of m k = Some c" "act x (p, c) = (p', c')"
  shows "accounted p' (AList.update k c' m)"
proof -
  have c: "ok p c" using accounted_ok assms(1,2) .
  have c': "ok p' c'" using act_ok [OF c assms(3)] .
  have "used p' - int (held c') = used p - int (held c)" using act_account [OF c assms(3)] by simp
  moreover have "al_sum held (AList.update k c' m) + held c = al_sum held m + held c'"
    by (rule al_sum_update_Some [OF assms(2)])
  ultimately have "used p' = int (al_sum held (AList.update k c' m))"
    using assms(1) by (simp add: accounted_def)
  moreover have "\<forall>(k, c)\<in>set m. ok p' c"
    by (rule all_ok [where p = p, OF _ ok_within [OF c']]) (use assms(1) in \<open>simp add: accounted_def\<close>)
  ultimately show ?thesis
    using assms(1) c' ok_within [OF c'] by (auto simp: accounted_def dest: subsetD [OF set_update_subset])
qed

lemma accounted_insert:
  assumes "accounted p m" "map_of m k = None" "ok p c" "held c = 0"
  shows "accounted p (AList.update k c m)"
  using assms by (auto simp: accounted_def al_sum_update_None dest: subsetD [OF set_update_subset])

lemma accounted_delete:
  assumes "accounted p m" "map_of m k = Some c" "held c = 0"
  shows "accounted p (AList.delete k m)"
proof -
  have "al_sum held (AList.delete k m) + held c = al_sum held m"
    by (rule al_sum_delete_Some) (use assms in \<open>auto simp: accounted_def\<close>)
  moreover have "set (AList.delete k m) \<subseteq> set m" by (auto simp: AList.delete_eq)
  ultimately show ?thesis using assms by (auto simp: accounted_def)
qed

end

section \<open>Transactions\<close>

text \<open>
  Calls that change a store inside a transaction. The provider promises that a failing call is rolled
  back; then what every successful call keeps holds after any sequence of calls, failing ones included.
\<close>

locale transactional =
  fixes call :: "'c \<Rightarrow> 'd \<Rightarrow> ('e + 'a) \<times> 'd"
  assumes rolled_back: "call c db = (Inl x, db') \<Longrightarrow> db' = db"
begin

fun call_all :: "'c list \<Rightarrow> 'd \<Rightarrow> 'd" where
  "call_all [] db = db"
| "call_all (c # cs) db = call_all cs (snd (call c db))"

lemma call_keeps:
  assumes "\<And>a db'. call c db = (Inr a, db') \<Longrightarrow> P db'" "P db"
  shows "P (snd (call c db))"
  using assms rolled_back [of c db] by (metis prod.collapse sum.exhaust_sel)

lemma calls_keep:
  assumes step: "\<And>c db a db'. call c db = (Inr a, db') \<Longrightarrow> P db \<Longrightarrow> P db'" and "P db"
  shows "P (call_all cs db)"
  using \<open>P db\<close> by (induction cs arbitrary: db) (simp_all add: call_keeps step)

end

end
