(* ===== verification/Protocol.thy ===== *)
theory Protocol
  imports Model Interfaces
begin

text \<open>
  \<open>internal/protocol\<close>: the sensor-to-daemon wire contract. The batch and its structural validation
  (\<open>ValidateAt\<close>), the cumulative collector health with its deltas (\<open>health.go\<close>) and the
  length-prefixed framing (\<open>WriteFrame\<close>, \<open>ReadFrame\<close>, \<open>writeAll\<close>). The JSON codec is an argument
  of the framing; the callback \<open>Acknowledge\<close> of a batch is not part of the record.
\<close>

section \<open>Constants and identities\<close>

definition Version :: int where "Version = 5"
definition MaxFrameSize :: int where "MaxFrameSize = 1048576"
definition MaxFlowsPerBatch :: int where "MaxFlowsPerBatch = 4096"
definition MaxInterfaces :: int where "MaxInterfaces = 8"
definition MaxBatchPackets :: uint64 where "MaxBatchPackets = 2 ^ 36"
definition MaxBatchBytes :: uint64 where "MaxBatchBytes = 2 ^ 40"
definition MaxRemoteIPText :: int where "MaxRemoteIPText = 45"
definition maxFlowPackets :: uint64 where "maxFlowPackets = 2 ^ 36"
definition maxFlowBytes :: uint64 where "maxFlowBytes = 2 ^ 40"
definition MaxBatchIntervalMillis :: int where "MaxBatchIntervalMillis = 65000"
definition max_sequence :: uint64 where "max_sequence = 0x7FFFFFFFFFFFFFFF"

lemmas limit_defs [counter_simps] =
  MaxBatchPackets_def MaxBatchBytes_def maxFlowPackets_def maxFlowBytes_def

definition MaxElapsedInterval :: "duration \<Rightarrow> duration" where
  "MaxElapsedInterval nominal =
     nominal + min (max (250 * millisecond) (go_div nominal 10)) (5 * second)"

text \<open>Go tests the runes of a name; the tested runes are ASCII, so testing bytes is the same.\<close>

definition unsafe_name_char :: "char \<Rightarrow> bool" where
  "unsafe_name_char c \<longleftrightarrow> of_char c \<le> (32 :: nat) \<or> of_char c = (127 :: nat)"

definition ValidInterfaceName :: "string \<Rightarrow> bool" where
  "ValidInterfaceName name \<longleftrightarrow> name \<noteq> [] \<and> length name \<le> 15 \<and> CHR ''/'' \<notin> set name \<and>
     \<not> list_ex unsafe_name_char name"

definition ValidSessionID :: "string \<Rightarrow> bool" where
  "ValidSessionID value \<longleftrightarrow> length value = 32 \<and>
     list_all (\<lambda>c. char_in CHR ''0'' CHR ''9'' c \<or> char_in CHR ''a'' CHR ''f'' c) value"

section \<open>Flows and batches\<close>

record flow =
  fl_Direction :: direction
  fl_RemoteIP :: string
  fl_Protocol :: string
  fl_LocalPort :: uint16
  fl_RemotePort :: uint16
  fl_TCPFlags :: uint8
  fl_Packets :: uint64
  fl_Bytes :: uint64

record batch =
  bt_ConnectionID :: uint64
  bt_ProtocolVersion :: int
  bt_SessionID :: string
  bt_Sequence :: uint64
  bt_SentAt :: time
  bt_IntervalMillis :: int
  bt_Interface :: string
  bt_Flows :: "flow list"
  bt_RXBytes :: uint64
  bt_TXBytes :: uint64
  bt_RXPackets :: uint64
  bt_TXPackets :: uint64
  bt_InboundSYN :: uint64
  bt_InboundUDP :: uint64
  bt_InboundICMP :: uint64
  bt_KernelPackets :: uint64
  bt_KernelDrops :: uint64
  bt_KernelStatsErrors :: uint64
  bt_OverflowBytes :: uint64
  bt_OverflowPackets :: uint64
  bt_ParseErrors :: uint64
  bt_IPCDroppedBatches :: uint64
  bt_IPCDroppedPackets :: uint64
  bt_IPCDroppedBytes :: uint64
  bt_HealthCountersSaturated :: bool

definition empty_flow :: flow where
  "empty_flow = \<lparr>fl_Direction = [], fl_RemoteIP = [], fl_Protocol = [], fl_LocalPort = 0,
     fl_RemotePort = 0, fl_TCPFlags = 0, fl_Packets = 0, fl_Bytes = 0\<rparr>"

definition empty_batch :: batch where
  "empty_batch = \<lparr>bt_ConnectionID = 0, bt_ProtocolVersion = 0, bt_SessionID = [], bt_Sequence = 0,
     bt_SentAt = zero_time, bt_IntervalMillis = 0, bt_Interface = [], bt_Flows = [],
     bt_RXBytes = 0, bt_TXBytes = 0, bt_RXPackets = 0, bt_TXPackets = 0, bt_InboundSYN = 0,
     bt_InboundUDP = 0, bt_InboundICMP = 0, bt_KernelPackets = 0, bt_KernelDrops = 0,
     bt_KernelStatsErrors = 0, bt_OverflowBytes = 0, bt_OverflowPackets = 0, bt_ParseErrors = 0,
     bt_IPCDroppedBatches = 0, bt_IPCDroppedPackets = 0, bt_IPCDroppedBytes = 0,
     bt_HealthCountersSaturated = False\<rparr>"

record commit_ack =
  ak_ProtocolVersion :: int
  ak_SessionID :: string
  ak_Interface :: string
  ak_Sequence :: uint64
  ak_CommittedSequence :: uint64
  ak_HealthCommitted :: bool
  ak_TrafficCommitted :: bool
  ak_EventsCommitted :: bool
  ak_NotificationsCommitted :: bool
  ak_Complete :: bool
  ak_Duplicate :: bool
  ak_Reason :: string

section \<open>Validation\<close>

datatype flow_error =
    InvalidDirection | OversizedOrZonedIP | InvalidIP | ZeroCounters | CountersExceedBounds
  | InvalidProtocol

datatype batch_error =
    UnsupportedVersion int
  | InvalidSessionOrSequence
  | MissingSentAt
  | ClockSkew
  | IntervalOutsideBounds
  | InterfaceMissingOrLong
  | InterfaceUnsafe
  | TooManyFlows
  | FlowError nat flow_error
  | ByteCounterExceeds
  | PacketCounterExceeds
  | FlowsExceedTotals
  | ProtocolsExceedReceived

record flow_sums =
  fs_RXBytes :: uint64
  fs_TXBytes :: uint64
  fs_RXPackets :: uint64
  fs_TXPackets :: uint64

definition no_sums :: flow_sums where
  "no_sums = \<lparr>fs_RXBytes = 0, fs_TXBytes = 0, fs_RXPackets = 0, fs_TXPackets = 0\<rparr>"

definition known_protocol :: "string \<Rightarrow> bool" where
  "known_protocol p \<longleftrightarrow>
     p = ''tcp'' \<or> p = ''udp'' \<or> p = ''icmp'' \<or> p = ''icmpv6'' \<or> p = ''other''"

text \<open>One iteration: the checks of a flow, with its address rewritten to canonical text.\<close>

definition validate_flow :: "flow \<Rightarrow> flow_error + flow" where
  "validate_flow f =
     (if fl_Direction f \<noteq> DirectionInbound \<and> fl_Direction f \<noteq> DirectionOutbound
      then Inl InvalidDirection
      else if MaxRemoteIPText < int (length (fl_RemoteIP f)) \<or> CHR ''%'' \<in> set (fl_RemoteIP f)
      then Inl OversizedOrZonedIP
      else case parse_addr (fl_RemoteIP f) of
        None \<Rightarrow> Inl InvalidIP
      | Some a \<Rightarrow>
          if fl_Packets f = 0 \<or> fl_Bytes f = 0 then Inl ZeroCounters
          else if maxFlowPackets < fl_Packets f \<or> maxFlowBytes < fl_Bytes f
          then Inl CountersExceedBounds
          else if \<not> known_protocol (fl_Protocol f) then Inl InvalidProtocol
          else Inr (f\<lparr>fl_RemoteIP := addr_string (unmap a)\<rparr>))"

definition add_flow :: "flow \<Rightarrow> flow_sums \<Rightarrow> flow_sums" where
  "add_flow f s = (if fl_Direction f = DirectionInbound
     then s\<lparr>fs_RXBytes := fs_RXBytes s + fl_Bytes f, fs_RXPackets := fs_RXPackets s + fl_Packets f\<rparr>
     else s\<lparr>fs_TXBytes := fs_TXBytes s + fl_Bytes f, fs_TXPackets := fs_TXPackets s + fl_Packets f\<rparr>)"

fun validate_flows :: "nat \<Rightarrow> flow list \<Rightarrow> flow_sums \<Rightarrow> batch_error + (flow list \<times> flow_sums)" where
  "validate_flows i [] s = Inr ([], s)"
| "validate_flows i (f # fs) s = (case validate_flow f of
     Inl e \<Rightarrow> Inl (FlowError i e)
   | Inr f' \<Rightarrow> (case validate_flows (Suc i) fs (add_flow f' s) of
       Inl e \<Rightarrow> Inl e
     | Inr (fs', s') \<Rightarrow> Inr (f' # fs', s')))"

definition byte_counters :: "batch \<Rightarrow> uint64 list" where
  "byte_counters b = [bt_RXBytes b, bt_TXBytes b, bt_OverflowBytes b, bt_IPCDroppedBytes b]"

definition packet_counters :: "batch \<Rightarrow> uint64 list" where
  "packet_counters b = [bt_RXPackets b, bt_TXPackets b, bt_InboundSYN b, bt_InboundUDP b,
     bt_InboundICMP b, bt_KernelPackets b, bt_KernelDrops b, bt_KernelStatsErrors b,
     bt_OverflowPackets b, bt_ParseErrors b, bt_IPCDroppedBatches b, bt_IPCDroppedPackets b]"

definition invalid_session :: "batch \<Rightarrow> bool" where
  "invalid_session b \<longleftrightarrow>
     bt_ProtocolVersion b < 5 \<and> (bt_SessionID b \<noteq> [] \<or> bt_Sequence b \<noteq> 0) \<or>
     bt_ProtocolVersion b \<ge> 5 \<and> (bt_SessionID b \<noteq> [] \<or> bt_Sequence b \<noteq> 0) \<and>
       (\<not> ValidSessionID (bt_SessionID b) \<or> bt_Sequence b = 0 \<or> max_sequence < bt_Sequence b)"

definition ValidateAt :: "time \<Rightarrow> batch \<Rightarrow> batch_error + batch" where
  "ValidateAt reference b =
     (if bt_ProtocolVersion b < 1 \<or> Version < bt_ProtocolVersion b
      then Inl (UnsupportedVersion (bt_ProtocolVersion b))
      else if invalid_session b then Inl InvalidSessionOrSequence
      else if is_zero (bt_SentAt b) \<or> \<not> year_in_range (bt_SentAt b) \<or> is_zero reference
      then Inl MissingSentAt
      else if 10 * minute < time_sub reference (bt_SentAt b) \<or>
        time_sub reference (bt_SentAt b) < - 10 * minute
      then Inl ClockSkew
      else if bt_IntervalMillis b < 100 \<or>
        (if bt_ProtocolVersion b < 4 then 60000 else MaxBatchIntervalMillis) < bt_IntervalMillis b
      then Inl IntervalOutsideBounds
      else if bt_Interface b = [] \<or> 15 < length (bt_Interface b) then Inl InterfaceMissingOrLong
      else if list_ex (\<lambda>c. unsafe_name_char c \<or> c = CHR ''/'') (bt_Interface b)
      then Inl InterfaceUnsafe
      else if MaxFlowsPerBatch < int (length (bt_Flows b)) then Inl TooManyFlows
      else case validate_flows 0 (bt_Flows b) no_sums of
        Inl e \<Rightarrow> Inl e
      | Inr (fs, s) \<Rightarrow>
          if list_ex (\<lambda>c. MaxBatchBytes < c) (byte_counters b) then Inl ByteCounterExceeds
          else if list_ex (\<lambda>c. MaxBatchPackets < c) (packet_counters b)
          then Inl PacketCounterExceeds
          else if bt_RXBytes b < fs_RXBytes s \<or> bt_TXBytes b < fs_TXBytes s \<or>
            bt_RXPackets b < fs_RXPackets s \<or> bt_TXPackets b < fs_TXPackets s
          then Inl FlowsExceedTotals
          else if bt_RXPackets b < bt_InboundSYN b + bt_InboundUDP b + bt_InboundICMP b
          then Inl ProtocolsExceedReceived
          else Inr (b\<lparr>bt_Flows := fs\<rparr>))"

section \<open>Collector health\<close>

record collector_health =
  h_OverflowBytes :: uint64
  h_OverflowPackets :: uint64
  h_ParseErrors :: uint64
  h_KernelPackets :: uint64
  h_KernelDrops :: uint64
  h_KernelStatsErrors :: uint64
  h_IPCDroppedBatches :: uint64
  h_IPCDroppedPackets :: uint64
  h_IPCDroppedBytes :: uint64
  h_Saturated :: bool

definition no_health :: collector_health where
  "no_health = \<lparr>h_OverflowBytes = 0, h_OverflowPackets = 0, h_ParseErrors = 0,
     h_KernelPackets = 0, h_KernelDrops = 0, h_KernelStatsErrors = 0, h_IPCDroppedBatches = 0,
     h_IPCDroppedPackets = 0, h_IPCDroppedBytes = 0, h_Saturated = False\<rparr>"

definition CollectorHealth :: "batch \<Rightarrow> collector_health" where
  "CollectorHealth b = \<lparr>h_OverflowBytes = bt_OverflowBytes b,
     h_OverflowPackets = bt_OverflowPackets b, h_ParseErrors = bt_ParseErrors b,
     h_KernelPackets = bt_KernelPackets b, h_KernelDrops = bt_KernelDrops b,
     h_KernelStatsErrors = bt_KernelStatsErrors b, h_IPCDroppedBatches = bt_IPCDroppedBatches b,
     h_IPCDroppedPackets = bt_IPCDroppedPackets b, h_IPCDroppedBytes = bt_IPCDroppedBytes b,
     h_Saturated = bt_HealthCountersSaturated b\<rparr>"

definition Apply :: "collector_health \<Rightarrow> batch \<Rightarrow> batch" where
  "Apply h b = b\<lparr>bt_OverflowBytes := h_OverflowBytes h, bt_OverflowPackets := h_OverflowPackets h,
     bt_ParseErrors := h_ParseErrors h, bt_KernelPackets := h_KernelPackets h,
     bt_KernelDrops := h_KernelDrops h, bt_KernelStatsErrors := h_KernelStatsErrors h,
     bt_IPCDroppedBatches := h_IPCDroppedBatches h, bt_IPCDroppedPackets := h_IPCDroppedPackets h,
     bt_IPCDroppedBytes := h_IPCDroppedBytes h, bt_HealthCountersSaturated := h_Saturated h\<rparr>"

text \<open>The counters in the order of the loop of \<open>Delta\<close>, each with its limit.\<close>

definition health_counters :: "(collector_health \<Rightarrow> uint64) list" where
  "health_counters = [h_OverflowBytes, h_OverflowPackets, h_ParseErrors, h_KernelPackets,
     h_KernelDrops, h_KernelStatsErrors, h_IPCDroppedBatches, h_IPCDroppedPackets,
     h_IPCDroppedBytes]"

definition health_limits :: "uint64 list" where
  "health_limits = [MaxBatchBytes, MaxBatchPackets, MaxBatchPackets, MaxBatchPackets,
     MaxBatchPackets, MaxBatchPackets, MaxBatchPackets, MaxBatchPackets, MaxBatchBytes]"

datatype health_error = HealthResetOrOverflow | SaturationReset

definition health_sub :: "collector_health \<Rightarrow> collector_health \<Rightarrow> collector_health" where
  "health_sub h p = \<lparr>h_OverflowBytes = h_OverflowBytes h - h_OverflowBytes p,
     h_OverflowPackets = h_OverflowPackets h - h_OverflowPackets p,
     h_ParseErrors = h_ParseErrors h - h_ParseErrors p,
     h_KernelPackets = h_KernelPackets h - h_KernelPackets p,
     h_KernelDrops = h_KernelDrops h - h_KernelDrops p,
     h_KernelStatsErrors = h_KernelStatsErrors h - h_KernelStatsErrors p,
     h_IPCDroppedBatches = h_IPCDroppedBatches h - h_IPCDroppedBatches p,
     h_IPCDroppedPackets = h_IPCDroppedPackets h - h_IPCDroppedPackets p,
     h_IPCDroppedBytes = h_IPCDroppedBytes h - h_IPCDroppedBytes p,
     h_Saturated = h_Saturated h\<rparr>"

definition Delta :: "collector_health \<Rightarrow> collector_health \<Rightarrow> health_error + collector_health" where
  "Delta h previous =
     (if list_ex (\<lambda>(c, limit). c h < c previous \<or> limit < c h) (zip health_counters health_limits)
      then Inl HealthResetOrOverflow
      else if h_Saturated previous \<and> \<not> h_Saturated h then Inl SaturationReset
      else Inr (health_sub h previous))"

section \<open>Framing\<close>

text \<open>
  A writer answers each call of \<open>Write\<close> with a byte count or an error; \<open>ws k\<close> is the answer to
  call \<open>k\<close>. Following the contract of \<open>io.Writer\<close> it has then taken that many bytes of the
  offered payload. The results hold the next call, the bytes taken and the error.
\<close>

datatype write_outcome = Wrote int | WriteFails

datatype frame_error =
    FrameTooLarge | WriteError | ShortWrite | UnexpectedEOF | InvalidFrameSize | DecodeError

function writeAll :: "(nat \<Rightarrow> write_outcome) \<Rightarrow> nat \<Rightarrow> byte list \<Rightarrow>
    nat \<times> byte list \<times> frame_error option" where
  "writeAll ws k payload =
     (if payload = [] then (k, [], None)
      else case ws k of
        WriteFails \<Rightarrow> (Suc k, [], Some WriteError)
      | Wrote n \<Rightarrow>
          if n \<le> 0 \<or> int (length payload) < n then (Suc k, [], Some ShortWrite)
          else (let (k', out, e) = writeAll ws (Suc k) (drop (nat n) payload)
                in (k', take (nat n) payload @ out, e)))"
  by pat_completeness auto
termination
  by (relation "measure (\<lambda>(ws, k, payload). length payload)") auto

declare writeAll.simps [simp del]

definition be32 :: "int \<Rightarrow> byte list" where
  "be32 n = [word_of_int (n div 16777216), word_of_int (n div 65536), word_of_int (n div 256),
     word_of_int n]"

definition of_be32 :: "byte list \<Rightarrow> int" where
  "of_be32 bs = ((uint (bs ! 0) * 256 + uint (bs ! 1)) * 256 + uint (bs ! 2)) * 256 + uint (bs ! 3)"

definition WriteFrame :: "(nat \<Rightarrow> write_outcome) \<Rightarrow> nat \<Rightarrow> byte list \<Rightarrow>
    nat \<times> byte list \<times> frame_error option" where
  "WriteFrame ws k payload =
     (if MaxFrameSize < int (length payload) then (k, [], Some FrameTooLarge)
      else case writeAll ws k (be32 (int (length payload))) of
        (k', out, Some e) \<Rightarrow> (k', out, Some e)
      | (k', out, None) \<Rightarrow> (case writeAll ws k' payload of
          (k'', out', e) \<Rightarrow> (k'', out @ out', e)))"

text \<open>Reading takes the stream as the bytes still to come; \<open>dec\<close> decodes one JSON document with
  no unknown field and nothing after it.\<close>

definition read_payload :: "byte list \<Rightarrow> frame_error + (byte list \<times> byte list)" where
  "read_payload input =
     (if length input < 4 then Inl UnexpectedEOF
      else let size = of_be32 (take 4 input); rest = drop 4 input in
        if size = 0 \<or> MaxFrameSize < size then Inl InvalidFrameSize
        else if int (length rest) < size then Inl UnexpectedEOF
        else Inr (take (nat size) rest, drop (nat size) rest))"

definition ReadFrame :: "(byte list \<Rightarrow> 'v option) \<Rightarrow> byte list \<Rightarrow> frame_error + ('v \<times> byte list)" where
  "ReadFrame dec input = (case read_payload input of
     Inl e \<Rightarrow> Inl e
   | Inr (payload, rest) \<Rightarrow> (case dec payload of
       None \<Rightarrow> Inl DecodeError
     | Some v \<Rightarrow> Inr (v, rest)))"

section \<open>Facts about framing\<close>

lemma writeAll_prefix:
  "writeAll ws k p = (k', out, e) \<Longrightarrow>
     k \<le> k' \<and> (\<exists>r. p = out @ r) \<and> (e = None \<longleftrightarrow> out = p)"
proof (induction ws k p arbitrary: k' out e rule: writeAll.induct)
  case (1 ws k p)
  show ?case
  proof (cases "p = []")
    case True
    then show ?thesis using 1(2) by (subst (asm) writeAll.simps) auto
  next
    case False
    show ?thesis
    proof (cases "ws k")
      case WriteFails
      then show ?thesis using 1(2) False by (subst (asm) writeAll.simps) auto
    next
      case (Wrote n)
      show ?thesis
      proof (cases "n \<le> 0 \<or> int (length p) < n")
        case True
        then show ?thesis using 1(2) False Wrote by (subst (asm) writeAll.simps) auto
      next
        case ok: False
        obtain k1 o1 e1 where w: "writeAll ws (Suc k) (drop (nat n) p) = (k1, o1, e1)"
          by (cases "writeAll ws (Suc k) (drop (nat n) p)") auto
        have ih: "Suc k \<le> k1" "\<exists>r. drop (nat n) p = o1 @ r" "e1 = None \<longleftrightarrow> o1 = drop (nat n) p"
          using 1(1) [OF False Wrote ok w] by auto
        have res: "k' = k1" "out = take (nat n) p @ o1" "e = e1"
          using 1(2) False Wrote ok w by (subst (asm) writeAll.simps, simp)+
        obtain r where "drop (nat n) p = o1 @ r" using ih(2) by blast
        then have "p = out @ r" using res(2) by (metis append.assoc append_take_drop_id)
        moreover have "out = p \<longleftrightarrow> o1 = drop (nat n) p"
          using res(2) by (metis append_same_eq append_take_drop_id same_append_eq)
        ultimately show ?thesis using ih res by auto
      qed
    qed
  qed
qed

lemma of_be32_be32:
  assumes "0 \<le> n" "n < 2 ^ 32"
  shows "of_be32 (be32 n @ s) = n"
proof -
  have b: "uint (word_of_int m :: byte) = m mod 256" for m
    by (simp add: uint_word_of_int)
  have a: "n div 256 div 256 = n div 65536" "n div 65536 div 256 = n div 16777216"
    by (simp_all add: zdiv_zmult2_eq [symmetric])
  have "n div 16777216 mod 256 = n div 16777216"
    using assms by simp
  then show ?thesis
    using div_mult_mod_eq [of n 256] div_mult_mod_eq [of "n div 256" 256]
      div_mult_mod_eq [of "n div 65536" 256] a
    by (simp add: of_be32_def be32_def b)
qed

section \<open>Facts about validation\<close>

text \<open>The exact totals of the flows of one direction, over the naturals.\<close>

definition flow_total :: "direction \<Rightarrow> (flow \<Rightarrow> uint64) \<Rightarrow> flow list \<Rightarrow> nat" where
  "flow_total d c fs = (\<Sum>f\<leftarrow>filter (\<lambda>f. fl_Direction f = d) fs. unat (c f))"

text \<open>What the receiver may rely on for one flow.\<close>

definition flow_ok :: "flow \<Rightarrow> bool" where
  "flow_ok f \<longleftrightarrow>
     (fl_Direction f = DirectionInbound \<or> fl_Direction f = DirectionOutbound) \<and>
     (\<exists>a. parse_addr (fl_RemoteIP f) = Some a \<and> unmap a = a \<and> addr_string a = fl_RemoteIP f) \<and>
     length (fl_RemoteIP f) \<le> 40 \<and> CHR ''%'' \<notin> set (fl_RemoteIP f) \<and>
     fl_Packets f \<noteq> 0 \<and> fl_Bytes f \<noteq> 0 \<and>
     fl_Packets f \<le> maxFlowPackets \<and> fl_Bytes f \<le> maxFlowBytes \<and> known_protocol (fl_Protocol f)"

lemma flow_total_simps [simp]:
  "flow_total d c [] = 0"
  "flow_total d c (f # fs) = (if fl_Direction f = d then unat (c f) else 0) + flow_total d c fs"
  by (simp_all add: flow_total_def)

lemma validate_flow_ok: "validate_flow f = Inr f' \<Longrightarrow> flow_ok f'"
  by (auto simp: validate_flow_def flow_ok_def not_less canonical_text split: if_splits option.splits)

lemma validate_flow_rewrites:
  "validate_flow f = Inr f' \<Longrightarrow> \<exists>a. parse_addr (fl_RemoteIP f) = Some a \<and>
     f' = f\<lparr>fl_RemoteIP := addr_string (unmap a)\<rparr>"
  by (auto simp: validate_flow_def split: if_splits option.splits)

lemma validate_flow_fixes: "flow_ok f \<Longrightarrow> validate_flow f = Inr f"
  by (auto simp: validate_flow_def flow_ok_def MaxRemoteIPText_def not_less)

lemma validate_flows_Inr:
  "validate_flows i fs s = Inr (fs', s') \<Longrightarrow>
     list_all2 (\<lambda>f f'. validate_flow f = Inr f') fs fs' \<and> s' = fold add_flow fs' s"
  by (induction fs arbitrary: i s fs' s') (auto split: sum.splits prod.splits)

lemma validate_flows_fixes:
  "list_all flow_ok fs \<Longrightarrow> validate_flows i fs s = Inr (fs, fold add_flow fs s)"
  by (induction fs arbitrary: i s) (auto simp: validate_flow_fixes)

lemma unat_add_small:
  "unat (x :: uint64) + unat y < 2 ^ 64 \<Longrightarrow> unat (x + y) = unat x + unat y"
  by (simp add: unat_word_ariths)

text \<open>No wrap-around: at most 4096 flows of at most \<open>2 ^ 40\<close> each stay below \<open>2 ^ 64\<close>.\<close>

lemma fold_add_flow:
  assumes "list_all flow_ok fs"
    and "\<forall>g\<in>{fs_RXBytes, fs_TXBytes, fs_RXPackets, fs_TXPackets}.
      unat (g s) + length fs * 2 ^ 40 < 2 ^ 64"
  shows "unat (fs_RXBytes (fold add_flow fs s)) = unat (fs_RXBytes s) + flow_total DirectionInbound fl_Bytes fs \<and>
    unat (fs_TXBytes (fold add_flow fs s)) = unat (fs_TXBytes s) + flow_total DirectionOutbound fl_Bytes fs \<and>
    unat (fs_RXPackets (fold add_flow fs s)) = unat (fs_RXPackets s) + flow_total DirectionInbound fl_Packets fs \<and>
    unat (fs_TXPackets (fold add_flow fs s)) = unat (fs_TXPackets s) + flow_total DirectionOutbound fl_Packets fs"
  using assms
proof (induction fs arbitrary: s)
  case (Cons f fs)
  have b: "unat (fl_Bytes f) \<le> 2 ^ 40" and p: "unat (fl_Packets f) \<le> 2 ^ 40"
    using Cons.prems(1) by (auto simp: flow_ok_def word_le_nat_alt counter_simps)
  have pre: "unat (g s) + 2 ^ 40 + length fs * 2 ^ 40 < 2 ^ 64"
    if "g \<in> {fs_RXBytes, fs_TXBytes, fs_RXPackets, fs_TXPackets}" for g
    using Cons.prems(2) that by (auto simp: algebra_simps)
  have step: "unat (g s + c) = unat (g s) + unat c"
    if "g \<in> {fs_RXBytes, fs_TXBytes, fs_RXPackets, fs_TXPackets}" "unat c \<le> 2 ^ 40" for g c
    using pre [OF that(1)] that(2) by (intro unat_add_small) linarith
  have upd: "unat (fs_RXBytes (add_flow f s)) = unat (fs_RXBytes s) + (if fl_Direction f = DirectionInbound then unat (fl_Bytes f) else 0)"
    "unat (fs_TXBytes (add_flow f s)) = unat (fs_TXBytes s) + (if fl_Direction f = DirectionInbound then 0 else unat (fl_Bytes f))"
    "unat (fs_RXPackets (add_flow f s)) = unat (fs_RXPackets s) + (if fl_Direction f = DirectionInbound then unat (fl_Packets f) else 0)"
    "unat (fs_TXPackets (add_flow f s)) = unat (fs_TXPackets s) + (if fl_Direction f = DirectionInbound then 0 else unat (fl_Packets f))"
    using step b p by (simp_all add: add_flow_def)
  have room: "\<forall>g\<in>{fs_RXBytes, fs_TXBytes, fs_RXPackets, fs_TXPackets}.
      unat (g (add_flow f s)) + length fs * 2 ^ 40 < 2 ^ 64"
    using upd pre b p by force
  have dir: "fl_Direction f = DirectionInbound \<or> fl_Direction f = DirectionOutbound"
    using Cons.prems(1) by (simp add: flow_ok_def)
  show ?case
    using Cons.IH [OF _ room] Cons.prems(1) upd dir by auto
qed simp

lemma validate_at_Inr:
  assumes "ValidateAt r b = Inr b'"
  obtains fs where "validate_flows 0 (bt_Flows b) no_sums = Inr (fs, fold add_flow fs no_sums)"
    "b' = b\<lparr>bt_Flows := fs\<rparr>" "list_all flow_ok fs" "length fs = length (bt_Flows b)"
    "length fs \<le> 4096"
    "list_all2 (\<lambda>f f'. validate_flow f = Inr f') (bt_Flows b) fs"
proof -
  obtain fs s where v: "validate_flows 0 (bt_Flows b) no_sums = Inr (fs, s)"
    and b': "b' = b\<lparr>bt_Flows := fs\<rparr>" and l: "int (length (bt_Flows b)) \<le> 4096"
    using assms by (auto simp: ValidateAt_def MaxFlowsPerBatch_def split: if_splits sum.splits prod.splits)
  from validate_flows_Inr [OF v] have all: "list_all2 (\<lambda>f f'. validate_flow f = Inr f') (bt_Flows b) fs"
    and s: "s = fold add_flow fs no_sums" by auto
  have "list_all flow_ok fs"
    using all by (auto simp: list_all_length list_all2_conv_all_nth intro: validate_flow_ok)
  then show thesis using that v s b' l all list_all2_lengthD [OF all] by auto
qed

lemma flow_sums_exact:
  assumes "list_all flow_ok fs" "length fs \<le> 4096"
  shows "unat (fs_RXBytes (fold add_flow fs no_sums)) = flow_total DirectionInbound fl_Bytes fs"
    "unat (fs_TXBytes (fold add_flow fs no_sums)) = flow_total DirectionOutbound fl_Bytes fs"
    "unat (fs_RXPackets (fold add_flow fs no_sums)) = flow_total DirectionInbound fl_Packets fs"
    "unat (fs_TXPackets (fold add_flow fs no_sums)) = flow_total DirectionOutbound fl_Packets fs"
proof -
  have "length fs * 2 ^ 40 \<le> 4096 * 2 ^ 40" using assms(2) by (rule mult_le_mono1)
  then have "\<forall>g\<in>{fs_RXBytes, fs_TXBytes, fs_RXPackets, fs_TXPackets}. unat (g no_sums) + length fs * 2 ^ 40 < 2 ^ 64"
    by (simp add: no_sums_def)
  from fold_add_flow [OF assms(1) this]
  show "unat (fs_RXBytes (fold add_flow fs no_sums)) = flow_total DirectionInbound fl_Bytes fs"
    "unat (fs_TXBytes (fold add_flow fs no_sums)) = flow_total DirectionOutbound fl_Bytes fs"
    "unat (fs_RXPackets (fold add_flow fs no_sums)) = flow_total DirectionInbound fl_Packets fs"
    "unat (fs_TXPackets (fold add_flow fs no_sums)) = flow_total DirectionOutbound fl_Packets fs"
    by (simp_all add: no_sums_def)
qed

text \<open>What \<open>ValidateAt\<close> guarantees of an accepted batch.\<close>

definition batch_ok :: "batch \<Rightarrow> bool" where
  "batch_ok b \<longleftrightarrow>
     1 \<le> bt_ProtocolVersion b \<and> bt_ProtocolVersion b \<le> 5 \<and>
     100 \<le> bt_IntervalMillis b \<and> bt_IntervalMillis b \<le> 65000 \<and>
     ValidInterfaceName (bt_Interface b) \<and>
     (bt_Sequence b \<noteq> 0 \<longrightarrow> ValidSessionID (bt_SessionID b) \<and> unat (bt_Sequence b) < 2 ^ 63) \<and>
     length (bt_Flows b) \<le> 4096 \<and> list_all flow_ok (bt_Flows b) \<and>
     flow_total DirectionInbound fl_Bytes (bt_Flows b) \<le> unat (bt_RXBytes b) \<and>
     flow_total DirectionOutbound fl_Bytes (bt_Flows b) \<le> unat (bt_TXBytes b) \<and>
     flow_total DirectionInbound fl_Packets (bt_Flows b) \<le> unat (bt_RXPackets b) \<and>
     flow_total DirectionOutbound fl_Packets (bt_Flows b) \<le> unat (bt_TXPackets b) \<and>
     unat (bt_InboundSYN b) + unat (bt_InboundUDP b) + unat (bt_InboundICMP b) \<le> unat (bt_RXPackets b) \<and>
     list_all (\<lambda>c. unat c \<le> 2 ^ 40) (byte_counters b) \<and>
     list_all (\<lambda>c. unat c \<le> 2 ^ 36) (packet_counters b)"

lemma unat_limits [counter_simps]:
  "unat MaxBatchBytes = 2 ^ 40" "unat MaxBatchPackets = 2 ^ 36"
  "unat maxFlowBytes = 2 ^ 40" "unat maxFlowPackets = 2 ^ 36"
  by (simp_all add: limit_defs)

lemma counters_le_unat:
  "list_ex (\<lambda>c. MaxBatchBytes < c) cs \<longleftrightarrow> \<not> list_all (\<lambda>c. unat c \<le> 2 ^ 40) cs"
  "list_ex (\<lambda>c. MaxBatchPackets < c) cs \<longleftrightarrow> \<not> list_all (\<lambda>c. unat c \<le> 2 ^ 36) cs"
  by (induction cs) (auto simp: word_less_nat_alt counter_simps)

lemma list_ex_or_eq: "list_ex (\<lambda>c. P c \<or> c = x) cs \<longleftrightarrow> list_ex P cs \<or> x \<in> set cs"
  by (induction cs) auto

lemma interface_ok_iff:
  "ValidInterfaceName n \<longleftrightarrow>
     \<not> (n = [] \<or> 15 < length n) \<and> \<not> list_ex (\<lambda>c. unsafe_name_char c \<or> c = CHR ''/'') n"
  by (simp add: ValidInterfaceName_def list_ex_or_eq not_less conj_ac)

lemma unat_max_sequence [counter_simps]: "unat max_sequence = 9223372036854775807"
  by (simp add: max_sequence_def)

lemma protocol_sum_le:
  assumes "list_all (\<lambda>c. unat c \<le> 2 ^ 36) (packet_counters b)"
  shows "bt_RXPackets b < bt_InboundSYN b + bt_InboundUDP b + bt_InboundICMP b \<longleftrightarrow>
    unat (bt_RXPackets b) < unat (bt_InboundSYN b) + unat (bt_InboundUDP b) + unat (bt_InboundICMP b)"
proof -
  have "unat (bt_InboundSYN b) \<le> 2 ^ 36" "unat (bt_InboundUDP b) \<le> 2 ^ 36" "unat (bt_InboundICMP b) \<le> 2 ^ 36"
    using assms by (simp_all add: packet_counters_def)
  then have "unat (bt_InboundSYN b + bt_InboundUDP b + bt_InboundICMP b) =
      unat (bt_InboundSYN b) + unat (bt_InboundUDP b) + unat (bt_InboundICMP b)"
    by (simp add: unat_add_small)
  then show ?thesis by (simp add: word_less_nat_alt)
qed

lemma batch_counters_update [simp]:
  "byte_counters (b\<lparr>bt_Flows := fs\<rparr>) = byte_counters b"
  "packet_counters (b\<lparr>bt_Flows := fs\<rparr>) = packet_counters b"
  "invalid_session (b\<lparr>bt_Flows := fs\<rparr>) = invalid_session b"
  by (simp_all add: byte_counters_def packet_counters_def invalid_session_def)

lemma validate_at_batch_ok:
  assumes v: "ValidateAt r b = Inr b'"
  shows "batch_ok b'"
proof -
  obtain fs where fs: "validate_flows 0 (bt_Flows b) no_sums = Inr (fs, fold add_flow fs no_sums)"
    "b' = b\<lparr>bt_Flows := fs\<rparr>" and ok: "list_all flow_ok fs" and l: "length fs \<le> 4096"
    using validate_at_Inr [OF v] by blast
  have guards: "\<not> (bt_ProtocolVersion b < 1 \<or> Version < bt_ProtocolVersion b)"
    "\<not> invalid_session b" "\<not> (bt_IntervalMillis b < 100 \<or>
        (if bt_ProtocolVersion b < 4 then 60000 else MaxBatchIntervalMillis) < bt_IntervalMillis b)"
    "\<not> (bt_Interface b = [] \<or> 15 < length (bt_Interface b))"
    "\<not> list_ex (\<lambda>c. unsafe_name_char c \<or> c = CHR ''/'') (bt_Interface b)"
    "\<not> list_ex (\<lambda>c. MaxBatchBytes < c) (byte_counters b)"
    "\<not> list_ex (\<lambda>c. MaxBatchPackets < c) (packet_counters b)"
    "\<not> bt_RXBytes b < fs_RXBytes (fold add_flow fs no_sums)"
    "\<not> bt_TXBytes b < fs_TXBytes (fold add_flow fs no_sums)"
    "\<not> bt_RXPackets b < fs_RXPackets (fold add_flow fs no_sums)"
    "\<not> bt_TXPackets b < fs_TXPackets (fold add_flow fs no_sums)"
    "\<not> bt_RXPackets b < bt_InboundSYN b + bt_InboundUDP b + bt_InboundICMP b"
    using v fs(1) by (simp_all add: ValidateAt_def split: if_splits)
  have counters: "list_all (\<lambda>c. unat c \<le> 2 ^ 40) (byte_counters b)"
    "list_all (\<lambda>c. unat c \<le> 2 ^ 36) (packet_counters b)"
    using guards(6,7) by (simp_all only: counters_le_unat not_not)
  show ?thesis
    unfolding batch_ok_def fs(2) interface_ok_iff
    using guards counters ok l protocol_sum_le [OF counters(2)] flow_sums_exact [OF ok l]
    by (auto simp: Version_def MaxBatchIntervalMillis_def invalid_session_def unat_max_sequence
        word_less_nat_alt not_less split: if_splits)
qed

text \<open>Validation is complete as well: a batch that meets the bounds is accepted.\<close>

lemma validate_flows_complete:
  "\<forall>f\<in>set fs. \<exists>f'. validate_flow f = Inr f' \<Longrightarrow>
     \<exists>fs'. validate_flows i fs s = Inr (fs', fold add_flow fs' s)"
proof (induction fs arbitrary: i s)
  case (Cons f fs)
  obtain f' where f': "validate_flow f = Inr f'" using Cons.prems by auto
  obtain fs' where "validate_flows (Suc i) fs (add_flow f' s) = Inr (fs', fold add_flow fs' (add_flow f' s))"
    using Cons by fastforce
  then show ?case using f' by simp
qed simp

lemma flow_total_canonical:
  assumes "list_all2 (\<lambda>f f'. validate_flow f = Inr f') fs fs'"
    and "\<And>f ip. c (f\<lparr>fl_RemoteIP := ip\<rparr>) = c f"
  shows "flow_total d c fs' = flow_total d c fs"
  using assms(1)
proof (induction rule: list_all2_induct)
  case (Cons f fs f' fs')
  obtain ip where "f' = f\<lparr>fl_RemoteIP := ip\<rparr>" using validate_flow_rewrites [OF Cons(1)] by blast
  then show ?case using Cons(3) by (simp add: assms(2))
qed simp

lemma validate_at_complete:
  assumes head: "1 \<le> bt_ProtocolVersion b" "bt_ProtocolVersion b \<le> 5" "\<not> invalid_session b"
    and clock: "\<not> is_zero (bt_SentAt b)" "year_in_range (bt_SentAt b)" "\<not> is_zero reference"
      "\<bar>reference - bt_SentAt b\<bar> \<le> 10 * minute"
    and interval: "100 \<le> bt_IntervalMillis b"
      "\<not> (if bt_ProtocolVersion b < 4 then 60000 else MaxBatchIntervalMillis) < bt_IntervalMillis b"
    and iface: "ValidInterfaceName (bt_Interface b)"
    and flows: "length (bt_Flows b) \<le> 4096" "\<forall>f\<in>set (bt_Flows b). \<exists>f'. validate_flow f = Inr f'"
    and counters: "list_all (\<lambda>c. unat c \<le> 2 ^ 40) (byte_counters b)"
      "list_all (\<lambda>c. unat c \<le> 2 ^ 36) (packet_counters b)"
    and totals: "flow_total DirectionInbound fl_Bytes (bt_Flows b) \<le> unat (bt_RXBytes b)"
      "flow_total DirectionOutbound fl_Bytes (bt_Flows b) \<le> unat (bt_TXBytes b)"
      "flow_total DirectionInbound fl_Packets (bt_Flows b) \<le> unat (bt_RXPackets b)"
      "flow_total DirectionOutbound fl_Packets (bt_Flows b) \<le> unat (bt_TXPackets b)"
      "unat (bt_InboundSYN b) + unat (bt_InboundUDP b) + unat (bt_InboundICMP b) \<le> unat (bt_RXPackets b)"
  shows "\<exists>b'. ValidateAt reference b = Inr b'"
proof -
  obtain fs where v: "validate_flows 0 (bt_Flows b) no_sums = Inr (fs, fold add_flow fs no_sums)"
    using validate_flows_complete [OF flows(2)] by blast
  have all: "list_all2 (\<lambda>f f'. validate_flow f = Inr f') (bt_Flows b) fs"
    using validate_flows_Inr [OF v] by blast
  have ok: "list_all flow_ok fs"
    using all by (auto simp: list_all_length list_all2_conv_all_nth intro: validate_flow_ok)
  have len: "length fs \<le> 4096" using flows(1) list_all2_lengthD [OF all] by simp
  have sums: "\<not> bt_RXBytes b < fs_RXBytes (fold add_flow fs no_sums)"
    "\<not> bt_TXBytes b < fs_TXBytes (fold add_flow fs no_sums)"
    "\<not> bt_RXPackets b < fs_RXPackets (fold add_flow fs no_sums)"
    "\<not> bt_TXPackets b < fs_TXPackets (fold add_flow fs no_sums)"
    using totals flow_sums_exact [OF ok len]
      flow_total_canonical [OF all, of fl_Bytes] flow_total_canonical [OF all, of fl_Packets]
    by (simp_all add: word_less_nat_alt not_less)
  have skew: "\<not> (10 * minute < time_sub reference (bt_SentAt b) \<or> time_sub reference (bt_SentAt b) < - 10 * minute)"
    using clock(4) by (auto simp: time_sub_def max_duration_def min_duration_def time_simps)
  have bounds: "\<not> list_ex (\<lambda>c. MaxBatchBytes < c) (byte_counters b)"
    "\<not> list_ex (\<lambda>c. MaxBatchPackets < c) (packet_counters b)"
    using counters by (simp_all only: counters_le_unat not_not)
  have protocols: "\<not> bt_RXPackets b < bt_InboundSYN b + bt_InboundUDP b + bt_InboundICMP b"
    using protocol_sum_le [OF counters(2)] totals(5) by simp
  show ?thesis
    unfolding ValidateAt_def v
    using head clock(1-3) skew interval iface flows(1) bounds sums protocols
    by (simp add: Version_def interface_ok_iff MaxFlowsPerBatch_def)
qed

text \<open>C4: an accepted batch has safe bounds.\<close>

theorem validate_at_sound:
  assumes "ValidateAt reference b = Inr b'"
  shows "batch_ok b' \<and> \<bar>reference - bt_SentAt b\<bar> \<le> 10 * minute \<and>
    b' = b\<lparr>bt_Flows := bt_Flows b'\<rparr> \<and>
    list_all2 (\<lambda>f f'. f' = f\<lparr>fl_RemoteIP := fl_RemoteIP f'\<rparr>) (bt_Flows b) (bt_Flows b')"
proof -
  obtain fs where b': "b' = b\<lparr>bt_Flows := fs\<rparr>"
    and all: "list_all2 (\<lambda>f f'. validate_flow f = Inr f') (bt_Flows b) fs"
    using validate_at_Inr [OF assms] by blast
  have "\<not> 10 * minute < time_sub reference (bt_SentAt b)" "\<not> time_sub reference (bt_SentAt b) < - 10 * minute"
    using assms by (auto simp: ValidateAt_def split: if_splits)
  then have "\<bar>reference - bt_SentAt b\<bar> \<le> 10 * minute"
    by (auto simp: time_sub_def max_duration_def min_duration_def time_simps)
  moreover have "list_all2 (\<lambda>f f'. f' = f\<lparr>fl_RemoteIP := fl_RemoteIP f'\<rparr>) (bt_Flows b) fs"
    using all by (rule list_all2_mono) (auto dest: validate_flow_rewrites)
  ultimately show ?thesis using validate_at_batch_ok [OF assms] b' by simp
qed

definition sample_batch :: batch where
  "sample_batch = empty_batch\<lparr>bt_ProtocolVersion := 5, bt_SentAt := 1000 * second, bt_IntervalMillis := 1000,
     bt_Interface := ''eth0'', bt_RXBytes := 100, bt_RXPackets := 2, bt_InboundSYN := 1,
     bt_Flows := [empty_flow\<lparr>fl_Direction := DirectionInbound, fl_RemoteIP := ''::ffff:10.0.0.1'',
       fl_Protocol := ''tcp'', fl_Packets := 2, fl_Bytes := 100\<rparr>]\<rparr>"

lemma sample_batch_validates:
  "ValidateAt (1001 * second) sample_batch =
     Inr (sample_batch\<lparr>bt_Flows := map (\<lambda>f. f\<lparr>fl_RemoteIP := ''10.0.0.1''\<rparr>) (bt_Flows sample_batch)\<rparr>)"
  by code_simp

theorem validate_at_sound_witness:
  "batch_ok (sample_batch\<lparr>bt_Flows := map (\<lambda>f. f\<lparr>fl_RemoteIP := ''10.0.0.1''\<rparr>) (bt_Flows sample_batch)\<rparr>)"
  using validate_at_sound [OF sample_batch_validates] by blast

text \<open>Validation is idempotent.\<close>

theorem validate_at_idempotent:
  assumes "ValidateAt reference b = Inr b'"
  shows "ValidateAt reference b' = Inr b'"
proof -
  obtain fs where "validate_flows 0 (bt_Flows b) no_sums = Inr (fs, fold add_flow fs no_sums)"
    "b' = b\<lparr>bt_Flows := fs\<rparr>" "list_all flow_ok fs" "length fs = length (bt_Flows b)"
    using validate_at_Inr [OF assms] by blast
  then show ?thesis
    using assms validate_flows_fixes [of fs 0 no_sums] by (simp add: ValidateAt_def split: if_splits)
qed

theorem validate_at_idempotent_witness:
  "ValidateAt (1001 * second) (sample_batch\<lparr>bt_Flows := map (\<lambda>f. f\<lparr>fl_RemoteIP := ''10.0.0.1''\<rparr>) (bt_Flows sample_batch)\<rparr>)
   = Inr (sample_batch\<lparr>bt_Flows := map (\<lambda>f. f\<lparr>fl_RemoteIP := ''10.0.0.1''\<rparr>) (bt_Flows sample_batch)\<rparr>)"
  using validate_at_idempotent [OF sample_batch_validates] .

section \<open>Facts about frames\<close>

definition frame_bytes :: "byte list \<Rightarrow> byte list" where
  "frame_bytes payload = be32 (int (length payload)) @ payload"

definition sendable_payload :: "byte list \<Rightarrow> bool" where
  "sendable_payload payload \<longleftrightarrow> payload \<noteq> [] \<and> int (length payload) \<le> MaxFrameSize"

lemma length_be32 [simp]: "length (be32 n) = 4"
  by (simp add: be32_def)

lemma read_payload_frame:
  assumes "sendable_payload p"
  shows "read_payload (frame_bytes p @ rest) = Inr (p, rest)"
proof -
  have "int (length p) < 2 ^ 32" and ne: "p \<noteq> []" and le: "int (length p) \<le> MaxFrameSize"
    using assms by (auto simp: sendable_payload_def MaxFrameSize_def)
  then have "of_be32 (be32 (int (length p))) = int (length p)"
    using of_be32_be32 [of "int (length p)" "[]"] by simp
  with ne le show ?thesis by (simp add: read_payload_def frame_bytes_def Let_def)
qed

interpretation frames: stream_codec frame_bytes read_payload sendable_payload
  by unfold_locales (rule read_payload_frame)

lemma WriteFrame_bytes:
  assumes "WriteFrame ws k p = (k', out, e)"
  shows "(e = None \<longrightarrow> out = frame_bytes p \<and> int (length p) \<le> MaxFrameSize) \<and>
    (e \<noteq> None \<longrightarrow> (\<exists>r. r \<noteq> [] \<and> frame_bytes p = out @ r) \<or> p = [])"
proof (cases "MaxFrameSize < int (length p)")
  case True
  then show ?thesis
    using assms by (auto simp: WriteFrame_def frame_bytes_def be32_def)
next
  case False
  obtain k1 o1 e1 where h: "writeAll ws k (be32 (int (length p))) = (k1, o1, e1)"
    by (cases "writeAll ws k (be32 (int (length p)))") auto
  obtain k2 o2 e2 where b: "writeAll ws k1 p = (k2, o2, e2)"
    by (cases "writeAll ws k1 p") auto
  obtain r1 r2 where r: "be32 (int (length p)) = o1 @ r1" "p = o2 @ r2"
    using writeAll_prefix [OF h] writeAll_prefix [OF b] by metis
  have e: "e1 = None \<longleftrightarrow> o1 = be32 (int (length p))" "e2 = None \<longleftrightarrow> o2 = p"
    using writeAll_prefix [OF h] writeAll_prefix [OF b] by auto
  show ?thesis
  proof (cases e1)
    case None
    then show ?thesis using assms False h b e r
      by (auto simp: WriteFrame_def frame_bytes_def)
  next
    case (Some x)
    then have "r1 \<noteq> []" using e(1) r(1) by auto
    then have "frame_bytes p = o1 @ (r1 @ p) \<and> r1 @ p \<noteq> []" using r(1) by (simp add: frame_bytes_def)
    then show ?thesis using assms False h Some by (auto simp: WriteFrame_def)
  qed
qed

text \<open>C37: frame stream roundtrip.\<close>

theorem frame_roundtrip:
  assumes "WriteFrame ws k payload = (k', out, None)" and "payload \<noteq> []" and "dec payload = Some v"
  shows "ReadFrame dec (out @ rest) = Inr (v, rest)"
proof -
  have "out = frame_bytes payload" "sendable_payload payload"
    using WriteFrame_bytes [OF assms(1)] assms(2) by (auto simp: sendable_payload_def)
  then show ?thesis using frames.get_put [of payload rest] assms(3) by (simp add: ReadFrame_def)
qed

theorem frame_roundtrip_witness:
  "ReadFrame (\<lambda>p. Some p) ([0, 0, 0, 3, 7, 8, 9] @ [1, 2]) = Inr ([7, 8, 9], [1, 2])"
  by (rule frame_roundtrip [of "\<lambda>k. Wrote (if k = 1 then 2 else 1)" 0 "[7, 8, 9]" 6]) code_simp+

section \<open>Facts about health deltas\<close>

lemma CollectorHealth_Apply [simp]: "CollectorHealth (Apply h b) = h"
  by (cases h) (simp add: CollectorHealth_def Apply_def)

lemma Delta_Inr:
  assumes "Delta now before = Inr d" "c \<in> set health_counters"
  shows "c before \<le> c now" "c d = c now - c before"
proof -
  have guard: "\<not> list_ex (\<lambda>(c, limit). c now < c before \<or> limit < c now) (zip health_counters health_limits)"
    and d: "d = health_sub now before"
    using assms(1) by (auto simp: Delta_def split: if_splits)
  show "c before \<le> c now"
    using guard assms(2) unfolding health_counters_def health_limits_def by (auto simp: not_less)
  show "c d = c now - c before"
    using assms(2) unfolding d health_counters_def by (auto simp: health_sub_def)
qed

definition health_count :: "(collector_health \<Rightarrow> uint64) \<Rightarrow> collector_health \<Rightarrow> nat" where
  "health_count c h = (if c \<in> set health_counters then unat (c h) else 0)"

interpretation health_deltas: cumulative Delta health_count
proof
  fix now before d c
  assume "Delta now before = Inr d"
  from Delta_Inr [OF this, of c] show "health_count c before + health_count c d = health_count c now"
    by (auto simp: health_count_def unat_sub word_le_nat_alt)
qed

text \<open>C36: an accepted delta is exact, an error is a reset.\<close>

theorem delta_exact_or_reset:
  "case Delta h previous of
     Inr d \<Rightarrow> h_Saturated d = h_Saturated h \<and> (h_Saturated previous \<longrightarrow> h_Saturated h) \<and>
       (\<forall>c \<in> set health_counters. unat (c previous) + unat (c d) = unat (c h) \<and> unat (c h) \<le> 2 ^ 40)
   | Inl SaturationReset \<Rightarrow> h_Saturated previous \<and> \<not> h_Saturated h
   | Inl HealthResetOrOverflow \<Rightarrow>
       (\<exists>c \<in> set health_counters. unat (c h) < unat (c previous) \<or> 2 ^ 36 < unat (c h))"
proof (cases "Delta h previous")
  case (Inl e)
  then show ?thesis
    apply (auto simp: Delta_def split: if_splits)
    unfolding health_counters_def health_limits_def
     apply (auto simp: word_less_nat_alt unat_limits)
    done
next
  case (Inr d)
  have "\<not> list_ex (\<lambda>(c, limit). c h < c previous \<or> limit < c h) (zip health_counters health_limits)"
    using Inr by (auto simp: Delta_def split: if_splits)
  then have "unat (c h) \<le> 2 ^ 40" if "c \<in> set health_counters" for c
    using that unfolding health_counters_def health_limits_def
    by (auto simp: not_less word_le_nat_alt unat_limits)
  moreover have "unat (c previous) + unat (c d) = unat (c h)" if "c \<in> set health_counters" for c
    using health_deltas.delta_exact [OF Inr, of c] that by (simp add: health_count_def)
  ultimately show ?thesis using Inr by (auto simp: Delta_def health_sub_def split: if_splits)
qed

theorem delta_exact_or_reset_witness:
  "unat (h_ParseErrors (no_health\<lparr>h_ParseErrors := 2\<rparr>)) + unat (h_ParseErrors (no_health\<lparr>h_ParseErrors := 5\<rparr>)) =
     unat (h_ParseErrors (no_health\<lparr>h_ParseErrors := 7\<rparr>))"
proof -
  have "Delta (no_health\<lparr>h_ParseErrors := 7\<rparr>) (no_health\<lparr>h_ParseErrors := 2\<rparr>) =
      Inr (no_health\<lparr>h_ParseErrors := 5\<rparr>)"
    by code_simp
  then show ?thesis
    using delta_exact_or_reset [of "no_health\<lparr>h_ParseErrors := 7\<rparr>" "no_health\<lparr>h_ParseErrors := 2\<rparr>"]
    by (simp add: health_counters_def)
qed

end
