(* ===== verification/Aggregate.thy ===== *)
theory Aggregate
  imports Packet Protocol
begin

text \<open>
  \<open>internal/sensor/aggregate.go\<close>: the per-interface window of observed packets and its flush into
  a batch. Each method holds the aggregator's lock for its whole body, so a method is one atomic
  step. \<open>flushCurrent\<close> is \<open>flush\<close> at the instant it reads.
\<close>

section \<open>State\<close>

record flow_key =
  fk_direction :: direction
  fk_remoteIP :: string
  fk_protocol :: string
  fk_localPort :: uint16
  fk_remotePort :: uint16
  fk_tcpFlags :: uint8

record counters =
  ct_packets :: uint64
  ct_bytes :: uint64

record aggregator =
  ag_started :: time
  ag_iface :: string
  ag_maxFlows :: int
  ag_flows :: "(flow_key \<times> counters) list"
  ag_rxBytes :: uint64
  ag_txBytes :: uint64
  ag_rxPackets :: uint64
  ag_txPackets :: uint64
  ag_inboundSYN :: uint64
  ag_inboundUDP :: uint64
  ag_inboundICMP :: uint64
  ag_overflowBytes :: uint64
  ag_overflowPackets :: uint64
  ag_parseErrors :: uint64

definition NewAggregator :: "string \<Rightarrow> int \<Rightarrow> time \<Rightarrow> aggregator" where
  "NewAggregator iface maxFlows now = \<lparr>ag_started = now, ag_iface = iface, ag_maxFlows = maxFlows,
     ag_flows = [], ag_rxBytes = 0, ag_txBytes = 0, ag_rxPackets = 0, ag_txPackets = 0,
     ag_inboundSYN = 0, ag_inboundUDP = 0, ag_inboundICMP = 0, ag_overflowBytes = 0,
     ag_overflowPackets = 0, ag_parseErrors = 0\<rparr>"

section \<open>Observation\<close>

definition syn_only :: "uint8 \<Rightarrow> bool" where
  "syn_only flags \<longleftrightarrow> and flags 0x02 \<noteq> 0 \<and> and flags 0x10 = 0"

definition observe_totals :: "packet \<Rightarrow> aggregator \<Rightarrow> aggregator" where
  "observe_totals p a =
     (if pk_Direction p = DirectionInbound then
        let a = a\<lparr>ag_rxBytes := ag_rxBytes a + pk_Bytes p, ag_rxPackets := ag_rxPackets a + 1\<rparr> in
        if pk_Protocol p = ''tcp'' then
          (if syn_only (pk_TCPFlags p) then a\<lparr>ag_inboundSYN := ag_inboundSYN a + 1\<rparr> else a)
        else if pk_Protocol p = ''udp'' then a\<lparr>ag_inboundUDP := ag_inboundUDP a + 1\<rparr>
        else if pk_Protocol p = ''icmp'' \<or> pk_Protocol p = ''icmpv6''
        then a\<lparr>ag_inboundICMP := ag_inboundICMP a + 1\<rparr>
        else a
      else a\<lparr>ag_txBytes := ag_txBytes a + pk_Bytes p, ag_txPackets := ag_txPackets a + 1\<rparr>)"

definition packet_key :: "packet \<Rightarrow> flow_key" where
  "packet_key p = \<lparr>fk_direction = pk_Direction p, fk_remoteIP = addr_string (pk_RemoteIP p),
     fk_protocol = pk_Protocol p, fk_localPort = pk_LocalPort p, fk_remotePort = pk_RemotePort p,
     fk_tcpFlags = and (pk_TCPFlags p) 0x17\<rparr>"

definition observe_flow :: "packet \<Rightarrow> aggregator \<Rightarrow> aggregator" where
  "observe_flow p a =
     (let key = packet_key p; found = map_of (ag_flows a) key in
      if found = None \<and> ag_maxFlows a \<le> int (length (ag_flows a)) then
        a\<lparr>ag_overflowBytes := ag_overflowBytes a + pk_Bytes p,
          ag_overflowPackets := ag_overflowPackets a + 1\<rparr>
      else
        let v = (case found of None \<Rightarrow> \<lparr>ct_packets = 0, ct_bytes = 0\<rparr> | Some v \<Rightarrow> v) in
        a\<lparr>ag_flows := AList.update key
          \<lparr>ct_packets = ct_packets v + 1, ct_bytes = ct_bytes v + pk_Bytes p\<rparr> (ag_flows a)\<rparr>)"

definition Observe :: "packet \<Rightarrow> aggregator \<Rightarrow> aggregator" where
  "Observe p a = observe_flow p (observe_totals p a)"

definition ParseError :: "aggregator \<Rightarrow> aggregator" where
  "ParseError a = a\<lparr>ag_parseErrors := ag_parseErrors a + 1\<rparr>"

section \<open>Flush\<close>

definition flow_of :: "flow_key \<times> counters \<Rightarrow> flow" where
  "flow_of kv = (case kv of (k, v) \<Rightarrow>
     \<lparr>fl_Direction = fk_direction k, fl_RemoteIP = fk_remoteIP k, fl_Protocol = fk_protocol k,
       fl_LocalPort = fk_localPort k, fl_RemotePort = fk_remotePort k, fl_TCPFlags = fk_tcpFlags k,
       fl_Packets = ct_packets v, fl_Bytes = ct_bytes v\<rparr>)"

definition flow_less :: "flow \<Rightarrow> flow \<Rightarrow> bool" where
  "flow_less f g =
     (if fl_Bytes f \<noteq> fl_Bytes g then fl_Bytes g < fl_Bytes f
      else if fl_RemoteIP f \<noteq> fl_RemoteIP g then string_less (fl_RemoteIP f) (fl_RemoteIP g)
      else if fl_Protocol f \<noteq> fl_Protocol g then string_less (fl_Protocol f) (fl_Protocol g)
      else if fl_LocalPort f \<noteq> fl_LocalPort g then fl_LocalPort f < fl_LocalPort g
      else if fl_RemotePort f \<noteq> fl_RemotePort g then fl_RemotePort f < fl_RemotePort g
      else if fl_Direction f \<noteq> fl_Direction g then string_less (fl_Direction f) (fl_Direction g)
      else fl_TCPFlags f < fl_TCPFlags g)"

definition flush_batch :: "time \<Rightarrow> aggregator \<Rightarrow> batch" where
  "flush_batch now a = empty_batch\<lparr>bt_ProtocolVersion := Version, bt_SentAt := now,
     bt_IntervalMillis := milliseconds (max (time_sub now (ag_started a)) (100 * millisecond)),
     bt_Interface := ag_iface a, bt_RXBytes := ag_rxBytes a, bt_TXBytes := ag_txBytes a,
     bt_RXPackets := ag_rxPackets a, bt_TXPackets := ag_txPackets a,
     bt_InboundSYN := ag_inboundSYN a, bt_InboundUDP := ag_inboundUDP a,
     bt_InboundICMP := ag_inboundICMP a, bt_OverflowBytes := ag_overflowBytes a,
     bt_OverflowPackets := ag_overflowPackets a, bt_ParseErrors := ag_parseErrors a,
     bt_Flows := sort_by flow_less (map flow_of (ag_flows a))\<rparr>"

definition flush :: "time \<Rightarrow> aggregator \<Rightarrow> batch \<times> aggregator" where
  "flush now a = (flush_batch now a,
     a\<lparr>ag_started := now, ag_flows := [], ag_rxBytes := 0, ag_txBytes := 0, ag_rxPackets := 0,
       ag_txPackets := 0, ag_inboundSYN := 0, ag_inboundUDP := 0, ag_inboundICMP := 0,
       ag_overflowBytes := 0, ag_overflowPackets := 0, ag_parseErrors := 0\<rparr>)"

section \<open>The order of flushed flows\<close>

lemma flow_less_then_by:
  "flow_less = then_by fl_Bytes (\<lambda>x y. y < x) (then_by fl_RemoteIP string_less
     (then_by fl_Protocol string_less (then_by fl_LocalPort (<) (then_by fl_RemotePort (<)
     (then_by fl_Direction string_less (\<lambda>f g. fl_TCPFlags f < fl_TCPFlags g))))))"
  by (intro ext) (simp add: flow_less_def then_by_def)

lemma flow_less_irrefl: "\<not> flow_less f f"
  unfolding flow_less_then_by by (intro then_by_irrefl) simp

lemma flow_less_transp: "transp flow_less"
  unfolding flow_less_then_by
  by (intro then_by_transp strict_linear_intros) (auto intro: transpI)

lemma flow_less_total:
  assumes "f \<noteq> g" "fl_Bytes f = fl_Bytes g \<Longrightarrow> fl_RemoteIP f = fl_RemoteIP g \<Longrightarrow>
      fl_Protocol f = fl_Protocol g \<Longrightarrow> fl_LocalPort f = fl_LocalPort g \<Longrightarrow>
      fl_RemotePort f = fl_RemotePort g \<Longrightarrow> fl_Direction f = fl_Direction g \<Longrightarrow>
      fl_TCPFlags f = fl_TCPFlags g \<Longrightarrow> f = g"
  shows "flow_less f g \<or> flow_less g f"
  unfolding flow_less_then_by
  using assms
  by (intro then_by_total strict_linear_intros) (metis linorder_neqE)

lemma flow_of_same_key:
  fixes m :: "(flow_key \<times> counters) list"
  assumes "keys_distinct m" "p \<in> set m" "q \<in> set m"
    and "fk_direction (fst p) = fk_direction (fst q)" "fk_remoteIP (fst p) = fk_remoteIP (fst q)"
      "fk_protocol (fst p) = fk_protocol (fst q)" "fk_localPort (fst p) = fk_localPort (fst q)"
      "fk_remotePort (fst p) = fk_remotePort (fst q)" "fk_tcpFlags (fst p) = fk_tcpFlags (fst q)"
  shows "p = q"
proof -
  have "fst p = fst q" using assms(4-) by (cases "fst p"; cases "fst q") auto
  then show ?thesis
    using assms(1-3) by (metis eq_key_imp_eq_value keys_distinct_def prod.collapse)
qed

lemma flows_strict_total:
  assumes "keys_distinct m"
  shows "strict_total_on (set (map flow_of m)) flow_less"
  unfolding strict_total_on_def
proof (intro conjI ballI impI)
  fix f g assume "f \<in> set (map flow_of m)" "g \<in> set (map flow_of m)"
  then obtain p q where "p \<in> set m" "q \<in> set m" "f = flow_of p" "g = flow_of q" by auto
  then show "f = g \<or> flow_less f g \<or> flow_less g f"
    using flow_less_total [of f g] flow_of_same_key [OF assms, of p q]
    by (auto simp: flow_of_def split: prod.splits)
qed (auto simp: flow_less_irrefl intro: transpD [OF flow_less_transp])

section \<open>Accounting\<close>

text \<open>The exact totals of the packets of one direction, and of the flows that record them.\<close>

definition packet_bytes :: "direction \<Rightarrow> packet list \<Rightarrow> nat" where
  "packet_bytes d ps = (\<Sum>p\<leftarrow>filter (\<lambda>p. pk_Direction p = d) ps. unat (pk_Bytes p))"

definition packet_count :: "direction \<Rightarrow> packet list \<Rightarrow> nat" where
  "packet_count d ps = length (filter (\<lambda>p. pk_Direction p = d) ps)"

definition dir_sum :: "direction \<Rightarrow> (counters \<Rightarrow> uint64) \<Rightarrow> (flow_key \<times> counters) list \<Rightarrow> nat" where
  "dir_sum d c m = al_sum (\<lambda>v. unat (c v)) (filter (\<lambda>p. fk_direction (fst p) = d) m)"

definition recorded :: "flow_key \<Rightarrow> (flow_key \<times> counters) list \<Rightarrow> counters" where
  "recorded key m = (case map_of m key of None \<Rightarrow> \<lparr>ct_packets = 0, ct_bytes = 0\<rparr> | Some v \<Rightarrow> v)"

lemma packet_totals_simps [simp]:
  "packet_bytes d [] = 0" "packet_count d [] = 0"
  "packet_bytes d (ps @ [p]) = packet_bytes d ps + (if pk_Direction p = d then unat (pk_Bytes p) else 0)"
  "packet_count d (ps @ [p]) = packet_count d ps + (if pk_Direction p = d then 1 else 0)"
  by (simp_all add: packet_bytes_def packet_count_def)

lemma recorded_le:
  assumes "fk_direction key = d" "unat (c \<lparr>ct_packets = 0, ct_bytes = 0\<rparr>) = 0"
  shows "unat (c (recorded key m)) \<le> dir_sum d c m"
proof (cases "map_of m key")
  case (Some v)
  then have "map_of (filter (\<lambda>p. fk_direction (fst p) = d) m) key = Some v"
    using assms(1) map_of_filter_keys [of "\<lambda>k. fk_direction k = d" m key] by simp
  then show ?thesis
    using al_sum_ge_member [of _ key v "\<lambda>v. unat (c v)"] Some by (simp add: recorded_def dir_sum_def)
qed (use assms in \<open>simp add: recorded_def\<close>)

lemma dir_sum_update:
  assumes "unat (c \<lparr>ct_packets = 0, ct_bytes = 0\<rparr>) = 0" "unat (c v) = unat (c (recorded key m)) + x"
  shows "dir_sum d c (AList.update key v m) = dir_sum d c m + (if fk_direction key = d then x else 0)"
proof (cases "fk_direction key = d")
  case True
  let ?m = "filter (\<lambda>p. fk_direction (fst p) = d) m"
  have m: "map_of ?m key = map_of m key"
    using True map_of_filter_keys [of "\<lambda>k. fk_direction k = d" m key] by simp
  have f: "filter (\<lambda>p. fk_direction (fst p) = d) (AList.update key v m) = AList.update key v ?m"
    using True filter_keys_update [of "\<lambda>k. fk_direction k = d" key v m] by simp
  show ?thesis
  proof (cases "map_of m key")
    case None
    then show ?thesis
      using True m f assms al_sum_update_None [of ?m key "\<lambda>v. unat (c v)" v]
      by (simp add: dir_sum_def recorded_def)
  next
    case (Some w)
    then show ?thesis
      using True m f assms(2) al_sum_update_Some [of ?m key w "\<lambda>v. unat (c v)" v]
      by (simp add: dir_sum_def recorded_def)
  qed
next
  case False
  then show ?thesis
    using filter_keys_update [of "\<lambda>k. fk_direction k = d" key v m] by (simp add: dir_sum_def)
qed

lemma observe_flow_eq:
  "observe_flow p a =
     (if map_of (ag_flows a) (packet_key p) = None \<and> ag_maxFlows a \<le> int (length (ag_flows a))
      then a\<lparr>ag_overflowBytes := ag_overflowBytes a + pk_Bytes p,
        ag_overflowPackets := ag_overflowPackets a + 1\<rparr>
      else a\<lparr>ag_flows := AList.update (packet_key p)
        \<lparr>ct_packets = ct_packets (recorded (packet_key p) (ag_flows a)) + 1,
         ct_bytes = ct_bytes (recorded (packet_key p) (ag_flows a)) + pk_Bytes p\<rparr> (ag_flows a)\<rparr>)"
  unfolding observe_flow_def recorded_def Let_def ..

text \<open>
  The invariant of a window in which \<open>ps\<close> was observed: totals are exact, every byte and packet is
  in a flow or in the overflow, and the flows stay within their bound.
\<close>

definition window_inv :: "packet list \<Rightarrow> aggregator \<Rightarrow> bool" where
  "window_inv ps a \<longleftrightarrow>
     keys_distinct (ag_flows a) \<and> int (length (ag_flows a)) \<le> max 0 (ag_maxFlows a) \<and>
     fst ` set (ag_flows a) \<subseteq> packet_key ` set ps \<and>
     unat (ag_rxBytes a) = packet_bytes DirectionInbound ps \<and>
     unat (ag_txBytes a) = packet_bytes DirectionOutbound ps \<and>
     unat (ag_rxPackets a) = packet_count DirectionInbound ps \<and>
     unat (ag_txPackets a) = packet_count DirectionOutbound ps \<and>
     unat (ag_inboundSYN a) + unat (ag_inboundUDP a) + unat (ag_inboundICMP a)
       \<le> packet_count DirectionInbound ps \<and>
     (\<forall>d\<in>{DirectionInbound, DirectionOutbound}.
        dir_sum d ct_bytes (ag_flows a) \<le> packet_bytes d ps \<and>
        dir_sum d ct_packets (ag_flows a) \<le> packet_count d ps) \<and>
     dir_sum DirectionInbound ct_bytes (ag_flows a) + dir_sum DirectionOutbound ct_bytes (ag_flows a)
       + unat (ag_overflowBytes a) = packet_bytes DirectionInbound ps + packet_bytes DirectionOutbound ps \<and>
     dir_sum DirectionInbound ct_packets (ag_flows a) + dir_sum DirectionOutbound ct_packets (ag_flows a)
       + unat (ag_overflowPackets a) = packet_count DirectionInbound ps + packet_count DirectionOutbound ps \<and>
     (\<forall>(k, v)\<in>set (ag_flows a). ct_packets v \<noteq> 0 \<and> ct_bytes v \<noteq> 0)"

definition directed :: "packet \<Rightarrow> bool" where
  "directed p \<longleftrightarrow> pk_Direction p = DirectionInbound \<or> pk_Direction p = DirectionOutbound"

text \<open>No counter of a window can wrap while the bytes observed in it fit a word.\<close>

definition window_fits :: "packet list \<Rightarrow> bool" where
  "window_fits ps \<longleftrightarrow> list_all (\<lambda>p. directed p \<and> pk_Bytes p \<noteq> 0) ps \<and>
     packet_bytes DirectionInbound ps + packet_bytes DirectionOutbound ps < 2 ^ 64"

lemma window_count_le: "window_fits ps \<Longrightarrow> packet_count d ps \<le> packet_bytes d ps"
  unfolding window_fits_def
proof (induction ps rule: rev_induct)
  case (snoc p ps)
  then have "unat (pk_Bytes p) \<noteq> 0" by (simp add: unat_eq_0)
  with snoc show ?case by (auto split: if_splits)
qed simp

lemma window_fits_snoc: "window_fits (ps @ [p]) \<Longrightarrow> window_fits ps \<and> directed p \<and> pk_Bytes p \<noteq> 0"
  by (auto simp: window_fits_def)

lemma window_fits_bytes: "window_fits ps \<Longrightarrow> d \<in> {DirectionInbound, DirectionOutbound} \<Longrightarrow> packet_bytes d ps < 2 ^ 64"
  by (auto simp: window_fits_def)

lemma observe_totals_frame [simp]:
  "ag_flows (observe_totals p a) = ag_flows a" "ag_maxFlows (observe_totals p a) = ag_maxFlows a"
  "ag_overflowBytes (observe_totals p a) = ag_overflowBytes a"
  "ag_overflowPackets (observe_totals p a) = ag_overflowPackets a"
  "ag_iface (observe_totals p a) = ag_iface a" "ag_started (observe_totals p a) = ag_started a"
  "ag_parseErrors (observe_totals p a) = ag_parseErrors a"
  by (simp_all add: observe_totals_def Let_def)

lemma observe_flow_frame [simp]:
  "ag_rxBytes (observe_flow p a) = ag_rxBytes a" "ag_txBytes (observe_flow p a) = ag_txBytes a"
  "ag_rxPackets (observe_flow p a) = ag_rxPackets a" "ag_txPackets (observe_flow p a) = ag_txPackets a"
  "ag_inboundSYN (observe_flow p a) = ag_inboundSYN a" "ag_inboundUDP (observe_flow p a) = ag_inboundUDP a"
  "ag_inboundICMP (observe_flow p a) = ag_inboundICMP a" "ag_maxFlows (observe_flow p a) = ag_maxFlows a"
  "ag_iface (observe_flow p a) = ag_iface a" "ag_started (observe_flow p a) = ag_started a"
  "ag_parseErrors (observe_flow p a) = ag_parseErrors a"
  by (simp_all add: observe_flow_eq)

lemma observe_totals_exact:
  assumes fits: "window_fits (ps @ [p])" and inv: "window_inv ps a"
  defines "b \<equiv> observe_totals p a"
  shows "unat (ag_rxBytes b) = packet_bytes DirectionInbound (ps @ [p])"
    "unat (ag_txBytes b) = packet_bytes DirectionOutbound (ps @ [p])"
    "unat (ag_rxPackets b) = packet_count DirectionInbound (ps @ [p])"
    "unat (ag_txPackets b) = packet_count DirectionOutbound (ps @ [p])"
    "unat (ag_inboundSYN b) + unat (ag_inboundUDP b) + unat (ag_inboundICMP b)
       \<le> packet_count DirectionInbound (ps @ [p])"
proof -
  have lt: "packet_bytes d (ps @ [p]) < 2 ^ 64" "packet_count d (ps @ [p]) < 2 ^ 64"
    if "d \<in> {DirectionInbound, DirectionOutbound}" for d
    using window_fits_bytes [OF fits that] window_count_le [OF fits, of d] by auto
  have inc: "unat (c + 1) = unat c + 1" if "unat (c :: uint64) + 1 < 2 ^ 64" for c
    using that by (simp add: unat_add_small)
  have In: "packet_bytes DirectionInbound (ps @ [p]) < 2 ^ 64" "packet_count DirectionInbound (ps @ [p]) < 2 ^ 64"
    and Out: "packet_bytes DirectionOutbound (ps @ [p]) < 2 ^ 64" "packet_count DirectionOutbound (ps @ [p]) < 2 ^ 64"
    using lt by auto
  have dir: "pk_Direction p = DirectionInbound \<or> pk_Direction p = DirectionOutbound"
    using window_fits_snoc [OF fits] by (simp add: directed_def)
  note I = inv [unfolded window_inv_def]
  show "unat (ag_rxBytes b) = packet_bytes DirectionInbound (ps @ [p])"
    using I dir In(1) by (auto simp: b_def observe_totals_def Let_def unat_add_small)
  show "unat (ag_txBytes b) = packet_bytes DirectionOutbound (ps @ [p])"
    using I dir Out(1) by (auto simp: b_def observe_totals_def Let_def unat_add_small)
  show "unat (ag_rxPackets b) = packet_count DirectionInbound (ps @ [p])"
    using I dir In(2) by (auto simp: b_def observe_totals_def Let_def inc)
  show "unat (ag_txPackets b) = packet_count DirectionOutbound (ps @ [p])"
    using I dir Out(2) by (auto simp: b_def observe_totals_def Let_def inc)
  show "unat (ag_inboundSYN b) + unat (ag_inboundUDP b) + unat (ag_inboundICMP b)
       \<le> packet_count DirectionInbound (ps @ [p])"
    using I dir In(2) by (auto simp: b_def observe_totals_def Let_def inc)
qed

lemma packet_key_direction [simp]: "fk_direction (packet_key p) = pk_Direction p"
  by (simp add: packet_key_def)

lemma observe_flow_exact:
  assumes fits: "window_fits (ps @ [p])" and inv: "window_inv ps a" and fl: "ag_flows b = ag_flows a"
    and ov: "ag_overflowBytes b = ag_overflowBytes a" "ag_overflowPackets b = ag_overflowPackets a"
  defines "c \<equiv> observe_flow p b"
  obtains "ag_flows c = ag_flows a"
      "unat (ag_overflowBytes c) = unat (ag_overflowBytes a) + unat (pk_Bytes p)"
      "unat (ag_overflowPackets c) = unat (ag_overflowPackets a) + 1"
  | v where "ag_flows c = AList.update (packet_key p) v (ag_flows a)" "ct_packets v \<noteq> 0" "ct_bytes v \<noteq> 0"
      "\<And>d. dir_sum d ct_bytes (ag_flows c) = dir_sum d ct_bytes (ag_flows a) + (if pk_Direction p = d then unat (pk_Bytes p) else 0)"
      "\<And>d. dir_sum d ct_packets (ag_flows c) = dir_sum d ct_packets (ag_flows a) + (if pk_Direction p = d then 1 else 0)"
      "ag_overflowBytes c = ag_overflowBytes a" "ag_overflowPackets c = ag_overflowPackets a"
      "map_of (ag_flows a) (packet_key p) \<noteq> None \<or> int (length (ag_flows a)) < ag_maxFlows b"
proof -
  note I = inv [unfolded window_inv_def]
  have dir: "pk_Direction p \<in> {DirectionInbound, DirectionOutbound}" and nz: "pk_Bytes p \<noteq> 0"
    using window_fits_snoc [OF fits] by (auto simp: directed_def)
  have total: "packet_bytes DirectionInbound ps + packet_bytes DirectionOutbound ps + unat (pk_Bytes p) < 2 ^ 64"
    using fits dir by (auto simp: window_fits_def)
  have counts: "packet_count d ps \<le> packet_bytes d ps" for d
    using window_count_le window_fits_snoc [OF fits] by blast
  have nz': "0 < unat (pk_Bytes p)" using nz by (simp add: unat_gt_0)
  have small: "unat (ag_overflowBytes a) + unat (pk_Bytes p) < 2 ^ 64" "unat (ag_overflowPackets a) + 1 < 2 ^ 64"
    using I total counts [of DirectionInbound] counts [of DirectionOutbound] nz' by linarith+
  let ?w = "recorded (packet_key p) (ag_flows a)"
  have "unat (ct_bytes ?w) \<le> packet_bytes (pk_Direction p) ps" "unat (ct_packets ?w) \<le> packet_count (pk_Direction p) ps"
    using recorded_le [of "packet_key p" "pk_Direction p" ct_bytes "ag_flows a"]
      recorded_le [of "packet_key p" "pk_Direction p" ct_packets "ag_flows a"] I dir
    by (auto intro: order_trans)
  then have rec: "unat (ct_bytes ?w) + unat (pk_Bytes p) < 2 ^ 64" "unat (ct_packets ?w) + 1 < 2 ^ 64"
    using total counts [of "pk_Direction p"] dir nz' by auto
  show thesis
  proof (cases "map_of (ag_flows b) (packet_key p) = None \<and> ag_maxFlows b \<le> int (length (ag_flows b))")
    case True
    then have "c = b\<lparr>ag_overflowBytes := ag_overflowBytes b + pk_Bytes p, ag_overflowPackets := ag_overflowPackets b + 1\<rparr>"
      by (simp add: c_def observe_flow_eq)
    then show thesis using that(1) fl ov small by (simp add: unat_add_small)
  next
    case False
    define v where "v = \<lparr>ct_packets = ct_packets ?w + 1, ct_bytes = ct_bytes ?w + pk_Bytes p\<rparr>"
    have c: "c = b\<lparr>ag_flows := AList.update (packet_key p) v (ag_flows a)\<rparr>"
      unfolding c_def observe_flow_eq using False fl by (simp only: if_False v_def)
    have v: "unat (ct_bytes v) = unat (ct_bytes ?w) + unat (pk_Bytes p)" "unat (ct_packets v) = unat (ct_packets ?w) + 1"
      using rec by (simp_all add: v_def unat_add_small)
    have "ct_packets v \<noteq> 0" "ct_bytes v \<noteq> 0"
      using v nz' by (metis add_eq_0_iff_both_eq_0 less_irrefl unat_0 one_neq_zero)+
    with v show thesis
      using that(2) [of v] c ov False fl
      by (simp add: dir_sum_update [where x = "unat (pk_Bytes p)"] dir_sum_update [where x = 1] not_le)
  qed
qed

lemma Observe_window_inv:
  assumes fits: "window_fits (ps @ [p])" and inv: "window_inv ps a"
  shows "window_inv (ps @ [p]) (Observe p a)"
proof -
  let ?b = "observe_totals p a"
  note I = inv [unfolded window_inv_def]
  note tot = observe_totals_exact [OF fits inv]
  have dir: "pk_Direction p = DirectionInbound \<or> pk_Direction p = DirectionOutbound"
    using window_fits_snoc [OF fits] by (simp add: directed_def)
  show ?thesis
  proof (rule observe_flow_exact [OF fits inv, of ?b])
    assume f: "ag_flows (observe_flow p ?b) = ag_flows a"
      and o: "unat (ag_overflowBytes (observe_flow p ?b)) = unat (ag_overflowBytes a) + unat (pk_Bytes p)"
      "unat (ag_overflowPackets (observe_flow p ?b)) = unat (ag_overflowPackets a) + 1"
    show ?thesis
      unfolding window_inv_def Observe_def
      using I tot f o dir by (auto simp: less_imp_le trans_le_add1)
  next
    fix v
    assume f: "ag_flows (observe_flow p ?b) = AList.update (packet_key p) v (ag_flows a)"
      and v: "ct_packets v \<noteq> 0" "ct_bytes v \<noteq> 0"
      and s: "\<And>d. dir_sum d ct_bytes (ag_flows (observe_flow p ?b)) = dir_sum d ct_bytes (ag_flows a) + (if pk_Direction p = d then unat (pk_Bytes p) else 0)"
      "\<And>d. dir_sum d ct_packets (ag_flows (observe_flow p ?b)) = dir_sum d ct_packets (ag_flows a) + (if pk_Direction p = d then 1 else 0)"
      and o: "ag_overflowBytes (observe_flow p ?b) = ag_overflowBytes a" "ag_overflowPackets (observe_flow p ?b) = ag_overflowPackets a"
      and room: "map_of (ag_flows a) (packet_key p) \<noteq> None \<or> int (length (ag_flows a)) < ag_maxFlows ?b"
    have len: "int (length (AList.update (packet_key p) v (ag_flows a))) \<le> max 0 (ag_maxFlows a)"
      using room I by (cases "map_of (ag_flows a) (packet_key p)") (auto simp: length_update_None length_update_Some)
    have mem: "\<forall>(k, w)\<in>set (AList.update (packet_key p) v (ag_flows a)). ct_packets w \<noteq> 0 \<and> ct_bytes w \<noteq> 0"
      using v I set_update_subset [of "packet_key p" v "ag_flows a"] by blast
    have keys: "fst ` set (AList.update (packet_key p) v (ag_flows a)) \<subseteq> packet_key ` set (ps @ [p])"
      using I by (auto simp: dom_update image_iff dest!: subsetD [OF set_update_subset])
    have kd: "keys_distinct (AList.update (packet_key p) v (ag_flows a))" using I by simp
    show ?thesis
      unfolding window_inv_def Observe_def s o
      unfolding f
      using I tot kd len mem keys dir by (intro conjI) (auto)
  qed simp_all
qed

lemma fold_Observe_inv: "window_fits ps \<Longrightarrow> window_inv ps (fold Observe ps (NewAggregator iface n t))"
proof (induction ps rule: rev_induct)
  case Nil
  then show ?case
    by (simp add: window_inv_def NewAggregator_def dir_sum_def)
next
  case (snoc p ps)
  then show ?case using Observe_window_inv window_fits_snoc by simp
qed

section \<open>What a flushed batch reports\<close>

lemma flow_total_map_flow_of:
  "flow_total d fl_Bytes (map flow_of m) = dir_sum d ct_bytes m"
  "flow_total d fl_Packets (map flow_of m) = dir_sum d ct_packets m"
  by (induction m) (auto simp: flow_of_def dir_sum_def)

lemma flow_total_sort_by [simp]: "flow_total d c (sort_by lt fs) = flow_total d c fs"
proof -
  have "sum_list (map g (filter P (sort_by lt fs))) = sum_list (map g (filter P fs))" for g :: "flow \<Rightarrow> nat" and P
    by (metis mset_filter mset_map mset_sort_by sum_mset_sum_list)
  then show ?thesis by (simp add: flow_total_def)
qed

lemma flush_batch_fields:
  "bt_Flows (flush_batch now a) = sort_by flow_less (map flow_of (ag_flows a))"
  "bt_RXBytes (flush_batch now a) = ag_rxBytes a" "bt_TXBytes (flush_batch now a) = ag_txBytes a"
  "bt_RXPackets (flush_batch now a) = ag_rxPackets a" "bt_TXPackets (flush_batch now a) = ag_txPackets a"
  "bt_OverflowBytes (flush_batch now a) = ag_overflowBytes a"
  "bt_OverflowPackets (flush_batch now a) = ag_overflowPackets a"
  "bt_InboundSYN (flush_batch now a) = ag_inboundSYN a" "bt_InboundUDP (flush_batch now a) = ag_inboundUDP a"
  "bt_InboundICMP (flush_batch now a) = ag_inboundICMP a" "bt_ParseErrors (flush_batch now a) = ag_parseErrors a"
  "bt_Interface (flush_batch now a) = ag_iface a" "bt_SentAt (flush_batch now a) = now"
  "bt_ProtocolVersion (flush_batch now a) = 5"
  "bt_IntervalMillis (flush_batch now a) = milliseconds (max (time_sub now (ag_started a)) (100 * millisecond))"
  "bt_SessionID (flush_batch now a) = []" "bt_Sequence (flush_batch now a) = 0"
  "bt_KernelPackets (flush_batch now a) = 0" "bt_KernelDrops (flush_batch now a) = 0"
  "bt_KernelStatsErrors (flush_batch now a) = 0" "bt_IPCDroppedBatches (flush_batch now a) = 0"
  "bt_IPCDroppedPackets (flush_batch now a) = 0" "bt_IPCDroppedBytes (flush_batch now a) = 0"
  by (simp_all add: flush_batch_def empty_batch_def Version_def)


definition sample_packets :: "packet list" where
  "sample_packets =
     (let p = (empty_packet DirectionInbound)\<lparr>pk_RemoteIP := IP4 [10, 0, 0, 1], pk_Protocol := ''tcp'',
            pk_LocalPort := 22, pk_TCPFlags := 2, pk_Bytes := 60\<rparr>
      in [p, p\<lparr>pk_LocalPort := 80\<rparr>, p\<lparr>pk_Direction := DirectionOutbound, pk_Bytes := 40\<rparr>, p])"

lemma sample_packets_fit: "window_fits sample_packets"
  by (simp add: sample_packets_def window_fits_def directed_def packet_bytes_def empty_packet_def Let_def)


text \<open>Deterministic order.\<close>

theorem flush_order_independent:
  assumes "keys_distinct m" and "mset m' = mset m"
  shows "flush now (a\<lparr>ag_flows := m'\<rparr>) = flush now (a\<lparr>ag_flows := m\<rparr>) \<and>
    sorted_wrt (\<lambda>f g. \<not> flow_less g f) (bt_Flows (fst (flush now (a\<lparr>ag_flows := m\<rparr>)))) \<and>
    mset (bt_Flows (fst (flush now (a\<lparr>ag_flows := m\<rparr>)))) = image_mset flow_of (mset m)"
proof -
  have "mset (map flow_of m) = mset (map flow_of m')" using assms(2) by simp
  then have "sort_by flow_less (map flow_of m) = sort_by flow_less (map flow_of m')"
    by (rule sort_by_unique [OF flows_strict_total [OF assms(1)]])
  then have "flush_batch now (a\<lparr>ag_flows := m'\<rparr>) = flush_batch now (a\<lparr>ag_flows := m\<rparr>)"
    by (simp add: flush_batch_def)
  then show ?thesis
    using sorted_sort_by [OF flows_strict_total [OF assms(1)]]
    by (simp add: flush_def flush_batch_fields)
qed

definition sample_flow_map :: "(flow_key \<times> counters) list" where
  "sample_flow_map = ag_flows (fold Observe sample_packets (NewAggregator ''eth0'' 8 0))"

theorem flush_order_independent_witness:
  "flush second ((NewAggregator ''eth0'' 8 0)\<lparr>ag_flows := rev sample_flow_map\<rparr>) =
   flush second ((NewAggregator ''eth0'' 8 0)\<lparr>ag_flows := sample_flow_map\<rparr>)"
proof -
  have "keys_distinct sample_flow_map"
    using fold_Observe_inv [OF sample_packets_fit, of "''eth0''" 8 0]
    by (simp add: sample_flow_map_def window_inv_def)
  then show ?thesis
    using flush_order_independent [of sample_flow_map "rev sample_flow_map" second "NewAggregator ''eth0'' 8 0"]
    by (simp add: mset_rev)
qed

lemma window_flow_validates:
  assumes inv: "window_inv ps a" and ps: "\<forall>p\<in>set ps. packet_ok (pk_Direction p) p \<and> directed p"
    and small: "packet_bytes DirectionInbound ps \<le> 2 ^ 40" "packet_bytes DirectionOutbound ps \<le> 2 ^ 40"
      "packet_count DirectionInbound ps \<le> 2 ^ 36" "packet_count DirectionOutbound ps \<le> 2 ^ 36"
    and kv: "(k, v) \<in> set (ag_flows a)"
  shows "\<exists>f. validate_flow (flow_of (k, v)) = Inr f"
proof -
  note I = inv [unfolded window_inv_def]
  obtain p where p: "p \<in> set ps" "k = packet_key p" using I kv by (force simp: image_iff)
  have pk: "packet_ok (pk_Direction p) p" "directed p" using ps p by auto
  have dir: "pk_Direction p \<in> {DirectionInbound, DirectionOutbound}" using pk(2) by (auto simp: directed_def)
  have rec: "recorded k (ag_flows a) = v" using kv I map_of_iff_in [of "ag_flows a" k v] by (simp add: recorded_def)
  have "unat (ct_bytes v) \<le> 2 ^ 40" "unat (ct_packets v) \<le> 2 ^ 36"
    using recorded_le [of k "pk_Direction p" ct_bytes "ag_flows a"]
      recorded_le [of k "pk_Direction p" ct_packets "ag_flows a"] p(2) rec I dir small by auto
  moreover have "ct_packets v \<noteq> 0" "ct_bytes v \<noteq> 0" using I kv by auto
  moreover have "parse_addr (addr_string (pk_RemoteIP p)) = Some (pk_RemoteIP p)"
    using pk by (intro parse_addr_string) (simp add: packet_ok_def)
  moreover have "length (addr_string (pk_RemoteIP p)) \<le> 45" "CHR ''%'' \<notin> set (addr_string (pk_RemoteIP p))"
    using pk unzoned_text by (auto simp: packet_ok_def)
  moreover have "known_protocol (pk_Protocol p)" using pk by (auto simp: packet_ok_def known_protocol_def)
  ultimately show ?thesis
    using dir p(2)
    by (auto simp: validate_flow_def flow_of_def packet_key_def MaxRemoteIPText_def word_less_nat_alt unat_limits)
qed

text \<open>C20: a flushed batch is accepted.\<close>

theorem flushed_batch_validates:
  assumes fits: "window_fits ps" and decoded: "\<forall>p\<in>set ps. packet_ok (pk_Direction p) p"
    and small: "packet_bytes DirectionInbound ps + packet_bytes DirectionOutbound ps \<le> 2 ^ 40"
      "length ps \<le> 2 ^ 36"
    and iface: "ValidInterfaceName iface" "0 \<le> maxFlows" "maxFlows \<le> 4096"
    and clock: "year_in_range now" "0 \<le> now - started" "now - started \<le> 65 * second"
  shows "\<exists>b. ValidateAt now (fst (flush now (fold Observe ps (NewAggregator iface maxFlows started)))) = Inr b"
proof -
  let ?a = "fold Observe ps (NewAggregator iface maxFlows started)"
  have frame: "ag_maxFlows ?a = maxFlows \<and> ag_iface ?a = iface \<and> ag_started ?a = started \<and> ag_parseErrors ?a = 0"
  proof -
    have "ag_maxFlows (fold Observe ps a) = ag_maxFlows a \<and> ag_iface (fold Observe ps a) = ag_iface a \<and>
        ag_started (fold Observe ps a) = ag_started a \<and> ag_parseErrors (fold Observe ps a) = ag_parseErrors a" for a
      by (induction ps arbitrary: a) (simp_all add: Observe_def)
    then show ?thesis by (simp add: NewAggregator_def)
  qed
  have inv: "window_inv ps ?a" using fits by (rule fold_Observe_inv)
  note I = inv [unfolded window_inv_def]
  have dirs: "\<forall>p\<in>set ps. packet_ok (pk_Direction p) p \<and> directed p"
    using decoded fits by (auto simp: window_fits_def list_all_iff)
  have counts: "packet_count DirectionInbound ps + packet_count DirectionOutbound ps \<le> 2 ^ 36"
  proof -
    have "packet_count DirectionInbound ps + packet_count DirectionOutbound ps \<le> length ps"
      unfolding packet_count_def by (induction ps) (auto simp: le_Suc_eq)
    then show ?thesis using small(2) by simp
  qed
  have ms: "100 \<le> milliseconds (max (time_sub now started) (100 * millisecond))"
    "milliseconds (max (time_sub now started) (100 * millisecond)) \<le> 65000"
    using clock(2,3)
    by (auto simp: milliseconds_def time_sub_def max_duration_def min_duration_def time_simps go_div_nonneg max_def)
  have nz: "\<not> is_zero now" using clock(1) by (simp add: year_in_range_def is_zero_def zero_time_def)
  show ?thesis
  proof (simp only: flush_def fst_conv, rule validate_at_complete)
    show "\<forall>f\<in>set (bt_Flows (flush_batch now ?a)). \<exists>f'. validate_flow f = Inr f'"
      using window_flow_validates [OF inv dirs] small(1) counts by (auto simp: flush_batch_fields)
    show "\<not> invalid_session (flush_batch now ?a)"
      by (simp add: invalid_session_def flush_batch_fields)
    show "list_all (\<lambda>c. unat c \<le> 2 ^ 40) (byte_counters (flush_batch now ?a))"
      "list_all (\<lambda>c. unat c \<le> 2 ^ 36) (packet_counters (flush_batch now ?a))"
      using I small(1) counts frame by (auto simp: byte_counters_def packet_counters_def flush_batch_fields)
    show "ValidInterfaceName (bt_Interface (flush_batch now ?a))"
      using frame iface by (simp add: flush_batch_fields)
    show "length (bt_Flows (flush_batch now ?a)) \<le> 4096"
      using I iface frame by (simp add: flush_batch_fields)
  qed (use I frame ms nz clock in \<open>simp_all add: flush_batch_fields flow_total_map_flow_of MaxBatchIntervalMillis_def not_less time_simps\<close>)
qed

theorem flushed_batch_validates_witness:
  "\<exists>b. ValidateAt (1001 * second) (fst (flush (1001 * second)
     (fold Observe sample_packets (NewAggregator ''eth0'' 2 (1000 * second))))) = Inr b"
proof (rule flushed_batch_validates [OF sample_packets_fit])
  show "\<forall>p\<in>set sample_packets. packet_ok (pk_Direction p) p"
    by (simp add: sample_packets_def packet_ok_def empty_packet_def unzoned_def Let_def)
  show "ValidInterfaceName ''eth0''" by code_simp
qed (simp_all add: sample_packets_def empty_packet_def packet_bytes_def Let_def year_in_range_def time_simps)

end
