(* ===== verification/Delivery.thy ===== *)
theory Delivery
  imports Protocol
begin

text \<open>
  \<open>internal/sensor/delivery.go\<close>: the sensor's batch sender. It numbers batches per interface and
  session, keeps cumulative health across failed deliveries, and learns from acknowledgements what
  the daemon has committed. Sending runs on one goroutine and acknowledgements arrive on another;
  both change the delivery table under one lock, so an operation and a received acknowledgement are
  atomic steps of a step relation. The socket's behaviour (connect, deadline, write, reader ended)
  and the random session nonce are inputs of a step.
\<close>

section \<open>State\<close>

record delivery_state =
  ds_Interface :: string
  ds_SessionID :: string
  ds_SentSequence :: uint64
  ds_CommittedSequence :: uint64
  ds_Complete :: bool
  ds_Reason :: string
  ds_health :: collector_health

record batch_sender =
  sn_connected :: bool
  sn_pending :: "(string \<times> batch) list"
  sn_delivery :: "(string \<times> delivery_state) list"

definition new_sender :: batch_sender where
  "new_sender = \<lparr>sn_connected = False, sn_pending = [], sn_delivery = []\<rparr>"

datatype send_error =
    InvalidDeliveryInterface | PendingCapacity | DeliveryCapacity | SessionUnavailable
  | SequenceExhausted | DeadlineExceeded | ConnectFailed | SetDeadlineFailed | WriteFailed

record send_env =
  se_nonce :: "string option"
  se_ackClosed :: bool
  se_remaining :: bool
  se_connect :: bool
  se_deadline :: bool
  se_write :: bool

definition DeliveryStatus :: "batch_sender \<Rightarrow> delivery_state list" where
  "DeliveryStatus s = sort_by (\<lambda>a b. string_less (ds_Interface a) (ds_Interface b)) (map snd (sn_delivery s))"

section \<open>Saturating health\<close>

definition addHealth :: "uint64 \<Rightarrow> uint64 \<Rightarrow> uint64 \<Rightarrow> bool \<Rightarrow> uint64 \<times> bool" where
  "addHealth destination v maximum saturated =
     (if maximum < destination \<or> maximum - destination < v then (maximum, True)
      else (destination + v, saturated))"

definition mergeHealth :: "batch \<Rightarrow> batch \<Rightarrow> batch" where
  "mergeHealth d s =
     (let sat0 = (bt_HealthCountersSaturated d \<or> bt_HealthCountersSaturated s);
          (kp, sat1) = addHealth (bt_KernelPackets d) (bt_KernelPackets s) MaxBatchPackets sat0;
          (kd, sat2) = addHealth (bt_KernelDrops d) (bt_KernelDrops s) MaxBatchPackets sat1;
          (ke, sat3) = addHealth (bt_KernelStatsErrors d) (bt_KernelStatsErrors s) MaxBatchPackets sat2;
          (pe, sat4) = addHealth (bt_ParseErrors d) (bt_ParseErrors s) MaxBatchPackets sat3;
          (op, sat5) = addHealth (bt_OverflowPackets d) (bt_OverflowPackets s) MaxBatchPackets sat4;
          (ob, sat6) = addHealth (bt_OverflowBytes d) (bt_OverflowBytes s) MaxBatchBytes sat5;
          (ib, sat7) = addHealth (bt_IPCDroppedBatches d) (bt_IPCDroppedBatches s) MaxBatchPackets sat6;
          (ip, sat8) = addHealth (bt_IPCDroppedPackets d) (bt_IPCDroppedPackets s) MaxBatchPackets sat7;
          (iy, sat9) = addHealth (bt_IPCDroppedBytes d) (bt_IPCDroppedBytes s) MaxBatchBytes sat8
      in d\<lparr>bt_HealthCountersSaturated := sat9, bt_KernelPackets := kp, bt_KernelDrops := kd,
           bt_KernelStatsErrors := ke, bt_ParseErrors := pe, bt_OverflowPackets := op,
           bt_OverflowBytes := ob, bt_IPCDroppedBatches := ib, bt_IPCDroppedPackets := ip,
           bt_IPCDroppedBytes := iy\<rparr>)"

text \<open>The five additions that count one lost batch.\<close>

definition count_loss :: "batch \<Rightarrow> batch \<Rightarrow> batch" where
  "count_loss lost x =
     (let (ib, sat1) = addHealth (bt_IPCDroppedBatches x) 1 MaxBatchPackets (bt_HealthCountersSaturated x);
          (ip1, sat2) = addHealth (bt_IPCDroppedPackets x) (bt_RXPackets lost) MaxBatchPackets sat1;
          (ip2, sat3) = addHealth ip1 (bt_TXPackets lost) MaxBatchPackets sat2;
          (iy1, sat4) = addHealth (bt_IPCDroppedBytes x) (bt_RXBytes lost) MaxBatchBytes sat3;
          (iy2, sat5) = addHealth iy1 (bt_TXBytes lost) MaxBatchBytes sat4
      in x\<lparr>bt_IPCDroppedBatches := ib, bt_IPCDroppedPackets := ip2, bt_IPCDroppedBytes := iy2,
           bt_HealthCountersSaturated := sat5\<rparr>)"

definition pending_of :: "batch_sender \<Rightarrow> string \<Rightarrow> batch" where
  "pending_of s i = (case map_of (sn_pending s) i of None \<Rightarrow> empty_batch | Some b \<Rightarrow> b)"

section \<open>Operations\<close>

definition set_delivery :: "string \<Rightarrow> delivery_state \<Rightarrow> batch_sender \<Rightarrow> batch_sender" where
  "set_delivery i d s = s\<lparr>sn_delivery := AList.update i d (sn_delivery s)\<rparr>"

text \<open>Numbering one batch, once the interface has a delivery state.\<close>

definition identify_with :: "batch \<Rightarrow> delivery_state \<Rightarrow> batch_sender \<Rightarrow>
    send_error option \<times> batch \<times> batch_sender" where
  "identify_with b d s =
     (if max_sequence \<le> ds_SentSequence d then
        (Some SequenceExhausted, b,
         set_delivery (bt_Interface b) (d\<lparr>ds_Complete := False, ds_Reason := ''sequence_exhausted''\<rparr>) s)
      else
        let seq = ds_SentSequence d + 1;
            health = CollectorHealth (mergeHealth (Apply (ds_health d) empty_batch) b);
            d' = d\<lparr>ds_SentSequence := seq, ds_Complete := False, ds_Reason := ''unconfirmed'',
                   ds_health := health\<rparr>
        in (None, Apply health (b\<lparr>bt_SessionID := ds_SessionID d, bt_Sequence := seq\<rparr>),
            set_delivery (bt_Interface b) d' s))"

definition identify :: "string option \<Rightarrow> batch \<Rightarrow> batch_sender \<Rightarrow>
    send_error option \<times> batch \<times> batch_sender" where
  "identify nonce b s =
     (if bt_ProtocolVersion b < 5 then (None, b, s)
      else case map_of (sn_delivery s) (bt_Interface b) of
        Some d \<Rightarrow> identify_with b d s
      | None \<Rightarrow>
          if MaxInterfaces \<le> int (length (sn_delivery s)) then (Some DeliveryCapacity, b, s)
          else (case nonce of
            None \<Rightarrow> (Some SessionUnavailable, b, s)
          | Some n \<Rightarrow>
              let d = \<lparr>ds_Interface = bt_Interface b, ds_SessionID = n, ds_SentSequence = 0,
                    ds_CommittedSequence = 0, ds_Complete = False, ds_Reason = ''unconfirmed'',
                    ds_health = CollectorHealth (pending_of s (bt_Interface b))\<rparr>
              in identify_with b d (set_delivery (bt_Interface b) d s)))"

definition retainLoss :: "batch \<Rightarrow> batch_sender \<Rightarrow> batch_sender" where
  "retainLoss b s =
     (if 5 \<le> bt_ProtocolVersion b \<and> bt_SessionID b \<noteq> [] then
        (case map_of (sn_delivery s) (bt_Interface b) of
           None \<Rightarrow> s
         | Some d \<Rightarrow>
             let total = count_loss b (Apply (ds_health d) empty_batch);
                 d' = d\<lparr>ds_health := CollectorHealth total, ds_Complete := False,
                        ds_Reason := ''transport_failed''\<rparr>
             in (set_delivery (bt_Interface b) d' s)\<lparr>sn_pending :=
                  AList.update (bt_Interface b) (count_loss b (pending_of s (bt_Interface b)))
                    (sn_pending s)\<rparr>)
      else s\<lparr>sn_pending := AList.update (bt_Interface b)
              (count_loss b (mergeHealth empty_batch b)) (sn_pending s)\<rparr>)"

definition Close :: "batch_sender \<Rightarrow> batch_sender" where
  "Close s = s\<lparr>sn_connected := False\<rparr>"

text \<open>
  The outcome names the error and, when the frame reached the socket, the batch that was written.
\<close>

definition transmit :: "send_env \<Rightarrow> batch_sender \<Rightarrow> send_error option \<times> batch_sender" where
  "transmit env s =
     (let s = (if sn_connected s \<and> se_ackClosed env then Close s else s) in
      if \<not> se_remaining env then (Some DeadlineExceeded, s)
      else if \<not> sn_connected s \<and> \<not> se_connect env then (Some ConnectFailed, s)
      else
        let s = s\<lparr>sn_connected := True\<rparr> in
        if \<not> se_deadline env then (Some SetDeadlineFailed, s)
        else if \<not> se_write env then (Some WriteFailed, s)
        else (None, s))"

definition sendBefore :: "send_env \<Rightarrow> batch \<Rightarrow> batch_sender \<Rightarrow>
    send_error option \<times> batch option \<times> batch_sender" where
  "sendBefore env b s =
     (if \<not> ValidInterfaceName (bt_Interface b) then (Some InvalidDeliveryInterface, None, s)
      else if map_of (sn_pending s) (bt_Interface b) = None \<and>
        MaxInterfaces \<le> int (length (sn_pending s))
      then (Some PendingCapacity, None, s)
      else
        let b = (if bt_ProtocolVersion b < 5 then mergeHealth b (pending_of s (bt_Interface b)) else b) in
        case identify (se_nonce env) b s of
          (Some e, b', s') \<Rightarrow> (Some e, None, retainLoss b' s')
        | (None, b', s') \<Rightarrow> (case transmit env s' of
            (Some e, s'') \<Rightarrow> (Some e, None, Close (retainLoss b' s''))
          | (None, s'') \<Rightarrow>
              (None, Some b', s''\<lparr>sn_pending := AList.delete (bt_Interface b') (sn_pending s'')\<rparr>)))"

definition discard :: "string option \<Rightarrow> batch \<Rightarrow> batch_sender \<Rightarrow> batch_sender" where
  "discard nonce b s =
     (case identify nonce b s of (_, b', s') \<Rightarrow>
        let b'' = (if bt_ProtocolVersion b' < 5
                   then mergeHealth b' (pending_of s' (bt_Interface b')) else b')
        in Close (retainLoss b'' s'))"

text \<open>One acknowledgement taken from the connection: the body of the loop of \<open>readACKs\<close>.\<close>

definition ack_well_formed :: "commit_ack \<Rightarrow> bool" where
  "ack_well_formed ack \<longleftrightarrow> ak_ProtocolVersion ack = Version \<and> ValidSessionID (ak_SessionID ack) \<and>
     ValidInterfaceName (ak_Interface ack) \<and> ak_Sequence ack \<noteq> 0 \<and>
     \<not> (ak_Sequence ack < ak_CommittedSequence ack \<and> \<not> ak_Duplicate ack) \<and>
     length (ak_Reason ack) \<le> 64"

definition apply_ack :: "commit_ack \<Rightarrow> delivery_state \<Rightarrow> delivery_state" where
  "apply_ack ack d =
     (if ds_SessionID d = ak_SessionID ack \<and> ak_Sequence ack \<le> ds_SentSequence d \<and>
        ak_CommittedSequence ack \<le> ds_SentSequence d
      then
        let d = (if ak_HealthCommitted ack \<and> ak_TrafficCommitted ack \<and>
                   ds_CommittedSequence d \<le> ak_CommittedSequence ack
                 then d\<lparr>ds_CommittedSequence := ak_CommittedSequence ack\<rparr> else d)
        in if ak_Sequence ack = ds_SentSequence d
           then d\<lparr>ds_Complete := ak_Complete ack \<and> ak_HealthCommitted ack \<and> ak_TrafficCommitted ack \<and>
                    ak_EventsCommitted ack \<and> ak_NotificationsCommitted ack,
                  ds_Reason := ak_Reason ack\<rparr>
           else d
      else d)"

definition receive_ack :: "commit_ack \<Rightarrow> batch_sender \<Rightarrow> batch_sender" where
  "receive_ack ack s =
     (if \<not> ack_well_formed ack then s
      else case map_of (sn_delivery s) (ak_Interface ack) of
        None \<Rightarrow> s
      | Some d \<Rightarrow> set_delivery (ak_Interface ack) (apply_ack ack d) s)"

definition PendingLoss :: "batch_sender \<Rightarrow> uint64 \<times> uint64 \<times> uint64" where
  "PendingLoss s = (sum_list (map (bt_IPCDroppedBatches \<circ> snd) (sn_pending s)),
     sum_list (map (bt_IPCDroppedPackets \<circ> snd) (sn_pending s)),
     sum_list (map (bt_IPCDroppedBytes \<circ> snd) (sn_pending s)))"

definition RetireInterface :: "string \<Rightarrow> batch_sender \<Rightarrow> (uint64 \<times> uint64 \<times> uint64) \<times> batch_sender" where
  "RetireInterface name s =
     (let p = pending_of s name in
      ((bt_IPCDroppedBatches p, bt_IPCDroppedPackets p, bt_IPCDroppedBytes p),
       s\<lparr>sn_pending := AList.delete name (sn_pending s), sn_delivery := AList.delete name (sn_delivery s)\<rparr>))"

section \<open>The sender as a state machine\<close>

datatype sender_label =
    LSend send_env batch "batch option"
  | LDiscard "string option" batch
  | LAck commit_ack
  | LRetire string
  | LClose

inductive sender_step :: "batch_sender \<Rightarrow> sender_label \<Rightarrow> batch_sender \<Rightarrow> bool" where
  send: "sendBefore env b s = (e, wire, s') \<Longrightarrow> sender_step s (LSend env b wire) s'"
| discard: "sender_step s (LDiscard nonce b) (discard nonce b s)"
| ack: "sender_step s (LAck a) (receive_ack a s)"
| retire: "sender_step s (LRetire i) (snd (RetireInterface i s))"
| close: "sender_step s LClose (Close s)"

inductive sender_reachable :: "batch_sender \<Rightarrow> bool" where
  start: "sender_reachable new_sender"
| step: "sender_reachable s \<Longrightarrow> sender_step s l s' \<Longrightarrow> sender_reachable s'"

inductive_cases sender_step_cases: "sender_step s l s'"

inductive_simps sender_step_simps:
  "sender_step s (LSend env b wire) s'"
  "sender_step s (LDiscard nonce b) s'"
  "sender_step s (LAck a) s'"
  "sender_step s (LRetire i) s'"
  "sender_step s LClose s'"

section \<open>Bounded, monotone health\<close>

definition health_ok :: "collector_health \<Rightarrow> bool" where
  "health_ok h \<longleftrightarrow> list_all (\<lambda>(c, limit). c h \<le> limit) (zip health_counters health_limits)"

definition health_le :: "collector_health \<Rightarrow> collector_health \<Rightarrow> bool" where
  "health_le h h' \<longleftrightarrow> list_all (\<lambda>c. c h \<le> c h') health_counters \<and> (h_Saturated h \<longrightarrow> h_Saturated h')"

lemma addHealth_le: "fst (addHealth d v m s) \<le> m"
proof (cases "m < d \<or> m - d < v")
  case False
  then have "unat v \<le> unat m - unat d" "unat d \<le> unat m"
    by (auto simp: not_less word_le_nat_alt unat_sub)
  then have "unat (d + v) \<le> unat m"
    using unat_uint64_bound [of m] by (simp add: unat_add_small)
  then show ?thesis using False by (simp add: addHealth_def word_le_nat_alt)
qed (simp add: addHealth_def)

lemma addHealth_ge: "d \<le> m \<Longrightarrow> d \<le> fst (addHealth d v m s)"
proof (cases "m < d \<or> m - d < v")
  case False
  assume "d \<le> m"
  with False have "unat v \<le> unat m - unat d" "unat d \<le> unat m"
    by (auto simp: not_less word_le_nat_alt unat_sub)
  then have "unat d + unat v < 2 ^ 64" using unat_uint64_bound [of m] by linarith
  then show ?thesis using False by (simp add: addHealth_def word_le_nat_alt unat_add_small)
qed (simp add: addHealth_def)

lemma addHealth_saturated: "s \<Longrightarrow> snd (addHealth d v m s)"
  by (simp add: addHealth_def)

lemmas addHealth_facts = addHealth_le addHealth_ge addHealth_saturated

lemma mergeHealth_health:
  "health_ok (CollectorHealth (mergeHealth d s))"
  "health_ok (CollectorHealth d) \<Longrightarrow> health_le (CollectorHealth d) (CollectorHealth (mergeHealth d s))"
  by (simp_all add: mergeHealth_def Let_def case_prod_beta CollectorHealth_def health_ok_def
      health_le_def health_counters_def health_limits_def addHealth_facts)

lemma count_loss_health:
  assumes "health_ok (CollectorHealth x)"
  shows "health_ok (CollectorHealth (count_loss b x))"
    "health_le (CollectorHealth x) (CollectorHealth (count_loss b x))"
  using assms
  by (auto simp: count_loss_def Let_def case_prod_beta CollectorHealth_def health_ok_def
      health_le_def health_counters_def health_limits_def addHealth_facts
      intro: order_trans [OF addHealth_ge addHealth_ge])

lemma health_ok_no_health [simp]: "health_ok (CollectorHealth empty_batch)"
  by (simp add: health_ok_def health_counters_def health_limits_def CollectorHealth_def empty_batch_def limit_defs)

lemma health_le_refl [simp]: "health_le h h"
  by (simp add: health_le_def list_all_iff)

lemma health_le_trans: "health_le a b \<Longrightarrow> health_le b c \<Longrightarrow> health_le a c"
  by (auto simp: health_le_def list_all_iff intro: order_trans)

text \<open>Bounded, growing health is what the receiver's \<open>Delta\<close> accepts.\<close>

lemma Delta_accepts:
  assumes "health_le p h" "health_ok h"
  shows "Delta h p = Inr (health_sub h p)"
proof -
  have "\<not> list_ex (\<lambda>(c, limit). c h < c p \<or> limit < c h) (zip health_counters health_limits)"
    using assms unfolding health_le_def health_ok_def health_counters_def health_limits_def
    by (simp add: not_less)
  then show ?thesis using assms(1) by (simp add: Delta_def health_le_def)
qed

section \<open>The invariant of the sender\<close>

definition state_ok :: "string \<Rightarrow> delivery_state \<Rightarrow> bool" where
  "state_ok i d \<longleftrightarrow> ds_Interface d = i \<and> ds_CommittedSequence d \<le> ds_SentSequence d \<and>
     ds_SentSequence d \<le> max_sequence \<and> health_ok (ds_health d)"

definition sender_inv :: "batch_sender \<Rightarrow> bool" where
  "sender_inv s \<longleftrightarrow> keys_distinct (sn_delivery s) \<and> keys_distinct (sn_pending s) \<and>
     int (length (sn_delivery s)) \<le> MaxInterfaces \<and>
     (\<forall>(i, d)\<in>set (sn_delivery s). state_ok i d) \<and>
     (\<forall>(i, b)\<in>set (sn_pending s). health_ok (CollectorHealth b))"

text \<open>How the state of an interface may change while its session lasts.\<close>

definition advances :: "delivery_state \<Rightarrow> delivery_state \<Rightarrow> bool" where
  "advances d d' \<longleftrightarrow> ds_SessionID d' = ds_SessionID d \<and> ds_SentSequence d \<le> ds_SentSequence d' \<and>
     ds_CommittedSequence d \<le> ds_CommittedSequence d' \<and> health_le (ds_health d) (ds_health d')"

lemma advances_refl [simp]: "advances d d"
  by (simp add: advances_def)

lemma advances_trans: "advances a b \<Longrightarrow> advances b c \<Longrightarrow> advances a c"
  by (auto simp: advances_def intro: health_le_trans)

definition all_advance :: "batch_sender \<Rightarrow> batch_sender \<Rightarrow> bool" where
  "all_advance s s' \<longleftrightarrow> (\<forall>i d. map_of (sn_delivery s) i = Some d \<longrightarrow>
     (\<exists>d'. map_of (sn_delivery s') i = Some d' \<and> advances d d'))"

lemma all_advance_refl [simp]: "all_advance s s"
  by (simp add: all_advance_def)

lemma all_advance_trans: "all_advance a b \<Longrightarrow> all_advance b c \<Longrightarrow> all_advance a c"
  unfolding all_advance_def by (meson advances_trans)

lemma sender_inv_lookup: "sender_inv s \<Longrightarrow> map_of (sn_delivery s) i = Some d \<Longrightarrow> state_ok i d"
  by (auto simp: sender_inv_def dest: map_of_SomeD)

lemma pending_of_ok: "sender_inv s \<Longrightarrow> health_ok (CollectorHealth (pending_of s i))"
  by (auto simp: sender_inv_def pending_of_def dest!: map_of_SomeD split: option.split)

lemma set_delivery_inv:
  assumes "sender_inv s" "state_ok i d"
    and "map_of (sn_delivery s) i \<noteq> None \<or> int (length (sn_delivery s)) < MaxInterfaces"
  shows "sender_inv (set_delivery i d s)"
proof -
  have "int (length (AList.update i d (sn_delivery s))) \<le> MaxInterfaces"
    using assms(1,3)
    by (cases "map_of (sn_delivery s) i") (auto simp: sender_inv_def length_update_None length_update_Some)
  then show ?thesis
    using assms set_update_subset [of i d "sn_delivery s"] by (auto simp: sender_inv_def set_delivery_def)
qed

lemma set_delivery_advances:
  assumes "\<And>d0. map_of (sn_delivery s) i = Some d0 \<Longrightarrow> advances d0 d"
  shows "all_advance s (set_delivery i d s)"
  using assms by (auto simp: all_advance_def set_delivery_def map_of_update)

lemma set_pending_inv:
  assumes "sender_inv s" "health_ok (CollectorHealth b)"
  shows "sender_inv (s\<lparr>sn_pending := AList.update i b (sn_pending s)\<rparr>)"
  using assms set_update_subset [of i b "sn_pending s"] by (auto simp: sender_inv_def)

lemma same_delivery_advances: "sn_delivery s' = sn_delivery s \<Longrightarrow> all_advance s s'"
  by (simp add: all_advance_def)

lemma set_delivery_lookup [simp]:
  "map_of (sn_delivery (set_delivery i d s)) j = (if i = j then Some d else map_of (sn_delivery s) j)"
  by (simp add: set_delivery_def map_of_update)

lemma set_delivery_pending [simp]: "sn_pending (set_delivery i d s) = sn_pending s"
  by (simp add: set_delivery_def)

section \<open>Every operation keeps the invariant and lets states only advance\<close>

lemma next_sequence:
  assumes "\<not> max_sequence \<le> x"
  shows "unat (x + 1) = unat x + 1" "x + 1 \<le> max_sequence" "x \<le> x + 1"
proof -
  have "unat x < 9223372036854775807"
    using assms by (simp add: word_le_nat_alt counter_simps)
  then show "unat (x + 1) = unat x + 1" by (simp add: unat_add_small)
  with \<open>unat x < _\<close> show "x + 1 \<le> max_sequence" "x \<le> x + 1"
    by (simp_all add: word_le_nat_alt counter_simps)
qed

lemma identify_with_step:
  assumes inv: "sender_inv s" and d: "map_of (sn_delivery s) (bt_Interface b) = Some d"
    and r: "identify_with b d s = (e, b', s')"
  shows "sender_inv s' \<and> all_advance s s' \<and> bt_Interface b' = bt_Interface b \<and>
    sn_pending s' = sn_pending s \<and> sn_connected s' = sn_connected s \<and>
    (e = None \<longrightarrow> (\<exists>d'. map_of (sn_delivery s') (bt_Interface b) = Some d' \<and>
       unat (ds_SentSequence d') = unat (ds_SentSequence d) + 1 \<and>
       bt_SessionID b' = ds_SessionID d' \<and> bt_Sequence b' = ds_SentSequence d' \<and>
       CollectorHealth b' = ds_health d'))"
proof (cases "max_sequence \<le> ds_SentSequence d")
  case True
  have ok: "state_ok (bt_Interface b) d" using inv d by (rule sender_inv_lookup)
  then have "sender_inv s'"
    using r True inv d by (auto simp: identify_with_def state_ok_def intro!: set_delivery_inv)
  moreover have "all_advance s s'"
    using r True d by (auto simp: identify_with_def advances_def intro!: set_delivery_advances)
  ultimately show ?thesis using r True by (auto simp: identify_with_def set_delivery_def)
next
  case False
  note seq = next_sequence [OF False]
  have ok: "state_ok (bt_Interface b) d" using inv d by (rule sender_inv_lookup)
  define h where "h = CollectorHealth (mergeHealth (Apply (ds_health d) empty_batch) b)"
  define d' where "d' = d\<lparr>ds_SentSequence := ds_SentSequence d + 1, ds_Complete := False,
    ds_Reason := ''unconfirmed'', ds_health := h\<rparr>"
  have res: "e = None" "b' = Apply h (b\<lparr>bt_SessionID := ds_SessionID d, bt_Sequence := ds_SentSequence d + 1\<rparr>)"
    "s' = set_delivery (bt_Interface b) d' s"
    using r False by (simp_all add: identify_with_def Let_def h_def d'_def)
  have h: "health_ok h" "health_le (ds_health d) h"
    using mergeHealth_health [of "Apply (ds_health d) empty_batch" b] ok by (simp_all add: h_def state_ok_def)
  have "state_ok (bt_Interface b) d'"
    using ok seq(2,3) h(1) by (auto simp: state_ok_def d'_def)
  then have "sender_inv s'" using res(3) inv d by (simp add: set_delivery_inv)
  moreover have "all_advance s s'"
    using res(3) d seq(3) h(2) by (auto simp: d'_def advances_def intro!: set_delivery_advances)
  ultimately show ?thesis
    using res seq(1) by (auto simp: d'_def Apply_def set_delivery_def map_of_update CollectorHealth_def)
qed

lemma identify_step:
  assumes inv: "sender_inv s" and r: "identify nonce b s = (e, b', s')"
  shows "sender_inv s' \<and> all_advance s s' \<and> bt_Interface b' = bt_Interface b \<and>
    sn_pending s' = sn_pending s \<and>
    (e = None \<and> 5 \<le> bt_ProtocolVersion b \<longrightarrow> (\<exists>d'. map_of (sn_delivery s') (bt_Interface b) = Some d' \<and>
       (\<forall>d. map_of (sn_delivery s) (bt_Interface b) = Some d \<longrightarrow>
          unat (ds_SentSequence d') = unat (ds_SentSequence d) + 1) \<and>
       bt_SessionID b' = ds_SessionID d' \<and> bt_Sequence b' = ds_SentSequence d' \<and>
       CollectorHealth b' = ds_health d'))"
proof (cases "bt_ProtocolVersion b < 5")
  case True
  then show ?thesis using inv r by (auto simp: identify_def)
next
  case v5: False
  show ?thesis
  proof (cases "map_of (sn_delivery s) (bt_Interface b)")
    case (Some d)
    then have "identify_with b d s = (e, b', s')" using r v5 by (simp add: identify_def)
    from identify_with_step [OF inv Some this] show ?thesis
      using Some by auto
  next
    case None
    define d where "d n = \<lparr>ds_Interface = bt_Interface b, ds_SessionID = n, ds_SentSequence = 0,
      ds_CommittedSequence = 0, ds_Complete = False, ds_Reason = ''unconfirmed'',
      ds_health = CollectorHealth (pending_of s (bt_Interface b))\<rparr>" for n
    show ?thesis
    proof (cases "MaxInterfaces \<le> int (length (sn_delivery s)) \<or> nonce = None")
      case True
      then show ?thesis using r v5 None inv by (auto simp: identify_def split: if_splits)
    next
      case False
      then obtain n where n: "nonce = Some n" by auto
      let ?s = "set_delivery (bt_Interface b) (d n) s"
      have w: "identify_with b (d n) ?s = (e, b', s')"
        using r v5 None False n by (simp add: identify_def Let_def d_def)
      have "state_ok (bt_Interface b) (d n)"
        using pending_of_ok [OF inv] by (simp add: d_def state_ok_def)
      then have inv': "sender_inv ?s" using inv False None by (intro set_delivery_inv) auto
      have adv: "all_advance s ?s" using None by (intro set_delivery_advances) simp
      show ?thesis
        using identify_with_step [OF inv' _ w] all_advance_trans [OF adv] None by auto
    qed
  qed
qed

lemma retainLoss_step:
  assumes inv: "sender_inv s"
  shows "sender_inv (retainLoss b s) \<and> all_advance s (retainLoss b s)"
proof (cases "5 \<le> bt_ProtocolVersion b \<and> bt_SessionID b \<noteq> []")
  case False
  have "health_ok (CollectorHealth (count_loss b (mergeHealth empty_batch b)))"
    by (intro count_loss_health mergeHealth_health)
  then show ?thesis
    using False inv set_pending_inv unfolding retainLoss_def
    by (auto intro: same_delivery_advances)
next
  case True
  show ?thesis
  proof (cases "map_of (sn_delivery s) (bt_Interface b)")
    case None
    then show ?thesis using True inv by (simp add: retainLoss_def)
  next
    case (Some d)
    have ok: "state_ok (bt_Interface b) d" using inv Some by (rule sender_inv_lookup)
    define d' where "d' = d\<lparr>ds_health := CollectorHealth (count_loss b (Apply (ds_health d) empty_batch)),
      ds_Complete := False, ds_Reason := ''transport_failed''\<rparr>"
    let ?s = "set_delivery (bt_Interface b) d' s"
    have h: "health_ok (ds_health d')" "health_le (ds_health d) (ds_health d')"
      using count_loss_health [of "Apply (ds_health d) empty_batch" b] ok by (simp_all add: d'_def state_ok_def)
    have "sender_inv ?s"
      using ok h(1) inv Some by (intro set_delivery_inv) (auto simp: d'_def state_ok_def)
    moreover have "all_advance s ?s"
      using Some h(2) by (intro set_delivery_advances) (auto simp: d'_def advances_def)
    moreover have "retainLoss b s = ?s\<lparr>sn_pending :=
        AList.update (bt_Interface b) (count_loss b (pending_of s (bt_Interface b))) (sn_pending ?s)\<rparr>"
      using True Some by (simp add: retainLoss_def Let_def d'_def)
    ultimately show ?thesis
      using set_pending_inv [of ?s] count_loss_health(1) [OF pending_of_ok [OF inv]]
      by (auto simp: all_advance_def)
  qed
qed

lemma apply_ack_step:
  "state_ok i d \<Longrightarrow> state_ok i (apply_ack a d) \<and> advances d (apply_ack a d)"
  by (auto simp: apply_ack_def state_ok_def advances_def Let_def)

lemma receive_ack_step:
  "sender_inv s \<Longrightarrow> sender_inv (receive_ack a s) \<and> all_advance s (receive_ack a s)"
  using apply_ack_step [OF sender_inv_lookup]
  by (auto simp: receive_ack_def split: option.split intro!: set_delivery_inv set_delivery_advances)

lemma Close_step: "sender_inv s \<Longrightarrow> sender_inv (Close s) \<and> all_advance s (Close s)"
  by (simp add: Close_def sender_inv_def all_advance_def)

lemma transmit_step:
  "sender_inv s \<Longrightarrow> transmit env s = (e, s') \<Longrightarrow> sender_inv s' \<and> sn_delivery s' = sn_delivery s \<and> sn_pending s' = sn_pending s"
  by (auto simp: transmit_def Close_def sender_inv_def Let_def split: if_splits)

lemma mergeHealth_Interface: "bt_Interface (mergeHealth d s) = bt_Interface d"
  unfolding mergeHealth_def Let_def by (simp split: prod.split)

lemma sendBefore_step:
  assumes inv: "sender_inv s" and r: "sendBefore env b s = (e, wire, s')"
  shows "sender_inv s' \<and> all_advance s s' \<and>
    (\<forall>w. wire = Some w \<and> 5 \<le> bt_ProtocolVersion b \<longrightarrow> (\<exists>d'. map_of (sn_delivery s') (bt_Interface b) = Some d' \<and>
       (\<forall>d. map_of (sn_delivery s) (bt_Interface b) = Some d \<longrightarrow>
          unat (ds_SentSequence d') = unat (ds_SentSequence d) + 1) \<and>
       bt_SessionID w = ds_SessionID d' \<and> bt_Sequence w = ds_SentSequence d' \<and>
       CollectorHealth w = ds_health d'))"
proof (cases "\<not> ValidInterfaceName (bt_Interface b) \<or>
    map_of (sn_pending s) (bt_Interface b) = None \<and> MaxInterfaces \<le> int (length (sn_pending s))")
  case True
  then have "fst (snd (sendBefore env b s)) = None \<and> snd (snd (sendBefore env b s)) = s"
    by (simp add: sendBefore_def)
  then have "wire = None" "s' = s" using r by simp_all
  then show ?thesis using inv by simp
next
  case False
  define c where "c = (if bt_ProtocolVersion b < 5 then mergeHealth b (pending_of s (bt_Interface b)) else b)"
  obtain e1 b1 s1 where i: "identify (se_nonce env) c s = (e1, b1, s1)"
    by (cases "identify (se_nonce env) c s") auto
  obtain e2 s2 where t: "transmit env s1 = (e2, s2)" by (cases "transmit env s1")
  note I = identify_step [OF inv i]
  have T: "sender_inv s2" "sn_delivery s2 = sn_delivery s1" "sn_pending s2 = sn_pending s1"
    using transmit_step [OF _ t] I by auto
  have guards: "ValidInterfaceName (bt_Interface b)"
    "\<not> (map_of (sn_pending s) (bt_Interface b) = None \<and> MaxInterfaces \<le> int (length (sn_pending s)))"
    using False by auto
  have red: "(e, wire, s') = (case e1 of Some x \<Rightarrow> (Some x, None, retainLoss b1 s1)
      | None \<Rightarrow> (case e2 of Some x \<Rightarrow> (Some x, None, Close (retainLoss b1 s2))
          | None \<Rightarrow> (None, Some b1, s2\<lparr>sn_pending := AList.delete (bt_Interface b1) (sn_pending s2)\<rparr>)))"
    unfolding r [symmetric] sendBefore_def if_not_P [OF guards(2)] Let_def
    unfolding c_def [symmetric] i using guards(1) t by (simp split: option.split)
  show ?thesis
  proof (cases e1)
    case (Some x)
    then have "wire = None" "s' = retainLoss b1 s1" using red by simp_all
    then show ?thesis
      using retainLoss_step [of s1 b1] I all_advance_trans [of s s1] by simp
  next
    case n1: None
    show ?thesis
    proof (cases e2)
      case (Some x)
      then have "wire = None" "s' = Close (retainLoss b1 s2)" using red n1 by simp_all
      moreover have "all_advance s s2" using I T(2) by (simp add: all_advance_def)
      moreover note retainLoss_step [OF T(1), of b1] Close_step [of "retainLoss b1 s2"]
      ultimately show ?thesis by (metis all_advance_trans option.distinct(1))
    next
      case None
      then have w: "wire = Some b1" "s' = s2\<lparr>sn_pending := AList.delete (bt_Interface b1) (sn_pending s2)\<rparr>"
        using red n1 by simp_all
      then have "sender_inv s'" using T(1) by (auto simp: sender_inv_def in_delete_iff)
      moreover have "all_advance s s'" using I T(2) w(2) by (simp add: all_advance_def)
      moreover have "bt_Interface c = bt_Interface b"
        by (simp add: c_def mergeHealth_Interface)
      moreover have "5 \<le> bt_ProtocolVersion b \<Longrightarrow> c = b" by (simp add: c_def)
      ultimately show ?thesis using w I n1 T(2) by (auto simp del: split_paired_All)
    qed
  qed
qed

lemma discard_step: "sender_inv s \<Longrightarrow> sender_inv (discard nonce b s) \<and> all_advance s (discard nonce b s)"
proof -
  assume inv: "sender_inv s"
  obtain e b1 s1 where i: "identify nonce b s = (e, b1, s1)" by (cases "identify nonce b s") auto
  define b2 where "b2 = (if bt_ProtocolVersion b1 < 5 then mergeHealth b1 (pending_of s1 (bt_Interface b1)) else b1)"
  have "discard nonce b s = Close (retainLoss b2 s1)" by (simp add: discard_def i b2_def Let_def)
  moreover have "sender_inv s1" "all_advance s s1" using identify_step [OF inv i] by auto
  ultimately show ?thesis
    using retainLoss_step [of s1 b2] Close_step [of "retainLoss b2 s1"] by (metis all_advance_trans)
qed

lemma retire_inv: "sender_inv s \<Longrightarrow> sender_inv (snd (RetireInterface i s))"
  using order_trans [OF of_nat_mono [OF length_delete_le [of i "sn_delivery s"]], of MaxInterfaces]
  by (auto simp: RetireInterface_def sender_inv_def in_delete_iff Let_def)

lemma retire_others:
  "i \<noteq> j \<Longrightarrow> map_of (sn_delivery (snd (RetireInterface j s))) i = map_of (sn_delivery s) i"
  by (simp add: RetireInterface_def Let_def map_of_delete)

lemma sender_step_inv: "sender_step s l s' \<Longrightarrow> sender_inv s \<Longrightarrow> sender_inv s'"
  by (induction rule: sender_step.induct)
    (simp_all add: sendBefore_step discard_step receive_ack_step retire_inv Close_step)

lemma sender_reachable_inv: "sender_reachable s \<Longrightarrow> sender_inv s"
proof (induction rule: sender_reachable.induct)
  case start
  then show ?case by (simp add: sender_inv_def new_sender_def MaxInterfaces_def)
qed (rule sender_step_inv)

lemma sender_step_all_advance:
  "sender_step s l s' \<Longrightarrow> sender_inv s \<Longrightarrow> \<forall>j. l \<noteq> LRetire j \<Longrightarrow> all_advance s s'"
  by (induction rule: sender_step.induct)
    (simp_all add: sendBefore_step discard_step receive_ack_step Close_step)

lemma sender_step_advances:
  assumes "sender_step s l s'" "sender_inv s" "l \<noteq> LRetire i" "map_of (sn_delivery s) i = Some d"
  shows "\<exists>d'. map_of (sn_delivery s') i = Some d' \<and> advances d d'"
proof (cases "\<exists>j. l = LRetire j")
  case True
  then obtain j where "l = LRetire j" by blast
  then show ?thesis using assms retire_others [of i j s] by (auto simp: sender_step_simps)
next
  case False
  then show ?thesis using sender_step_all_advance [OF assms(1,2)] assms(4) by (auto simp: all_advance_def)
qed

section \<open>Runs of the sender\<close>

inductive sender_path :: "batch_sender \<Rightarrow> sender_label list \<Rightarrow> batch_sender \<Rightarrow> bool" where
  nil: "sender_path s [] s"
| cons: "sender_step s l s1 \<Longrightarrow> sender_path s1 ls s' \<Longrightarrow> sender_path s (l # ls) s'"

lemma sender_path_advances:
  assumes "sender_path s ls s'" "sender_inv s" "LRetire i \<notin> set ls" "map_of (sn_delivery s) i = Some d"
  shows "sender_inv s' \<and> (\<exists>d'. map_of (sn_delivery s') i = Some d' \<and> advances d d')"
  using assms
proof (induction arbitrary: d rule: sender_path.induct)
  case (cons s l s1 ls s')
  obtain d1 where d1: "map_of (sn_delivery s1) i = Some d1" "advances d d1"
    using sender_step_advances [OF cons(1,4) _ cons(6)] cons(5) by auto
  then obtain d' where "sender_inv s'" "map_of (sn_delivery s') i = Some d'" "advances d1 d'"
    using cons.IH [OF sender_step_inv [OF cons(1,4)] _ d1(1)] cons(5) by auto
  then show ?case using advances_trans [OF d1(2)] by blast
qed auto

text \<open>C19: what the receiver sees of one session.\<close>

theorem sender_session_accepted:
  assumes "sender_reachable s" and "sender_step s (LSend env1 b1 (Some w1)) s1"
    and "sender_path s1 ls s2" and "LRetire (bt_Interface b1) \<notin> set ls"
    and "sender_step s2 (LSend env2 b2 (Some w2)) s3"
    and "bt_Interface b2 = bt_Interface b1" "5 \<le> bt_ProtocolVersion b1" "5 \<le> bt_ProtocolVersion b2"
  shows "bt_SessionID w2 = bt_SessionID w1 \<and> bt_Sequence w1 < bt_Sequence w2 \<and>
    Delta (CollectorHealth w2) (CollectorHealth w1) =
      Inr (health_sub (CollectorHealth w2) (CollectorHealth w1))"
proof -
  have inv: "sender_inv s" using assms(1) by (rule sender_reachable_inv)
  obtain e1 where r1: "sendBefore env1 b1 s = (e1, Some w1, s1)"
    using assms(2) by (auto simp: sender_step_simps)
  obtain e2 where r2: "sendBefore env2 b2 s2 = (e2, Some w2, s3)"
    using assms(5) by (auto simp: sender_step_simps)
  obtain d1 where d1: "map_of (sn_delivery s1) (bt_Interface b1) = Some d1"
    "bt_SessionID w1 = ds_SessionID d1" "bt_Sequence w1 = ds_SentSequence d1" "CollectorHealth w1 = ds_health d1"
    using sendBefore_step [OF inv r1] assms(7) by auto
  have inv1: "sender_inv s1" using sendBefore_step [OF inv r1] by auto
  obtain d2 where d2: "map_of (sn_delivery s2) (bt_Interface b1) = Some d2" "advances d1 d2" and inv2: "sender_inv s2"
    using sender_path_advances [OF assms(3) inv1 assms(4) d1(1)] by auto
  obtain d3 where d3: "map_of (sn_delivery s3) (bt_Interface b1) = Some d3"
    "unat (ds_SentSequence d3) = unat (ds_SentSequence d2) + 1"
    "bt_SessionID w2 = ds_SessionID d3" "bt_Sequence w2 = ds_SentSequence d3" "CollectorHealth w2 = ds_health d3"
    using sendBefore_step [OF inv2 r2] assms(6,8) d2(1) by auto
  have inv3: "sender_inv s3" and "all_advance s2 s3" using sendBefore_step [OF inv2 r2] by auto
  then have "advances d2 d3" using d2(1) d3(1) unfolding all_advance_def by fastforce
  then have adv: "advances d1 d3" by (rule advances_trans [OF d2(2)])
  have "health_ok (ds_health d3)" using sender_inv_lookup [OF inv3 d3(1)] by (simp add: state_ok_def)
  then have "Delta (ds_health d3) (ds_health d1) = Inr (health_sub (ds_health d3) (ds_health d1))"
    using adv by (intro Delta_accepts) (simp_all add: advances_def)
  moreover have "unat (ds_SentSequence d1) < unat (ds_SentSequence d3)"
    using d2(2) d3(2) by (simp add: advances_def word_le_nat_alt)
  ultimately show ?thesis using d1 d3 adv by (simp add: advances_def word_less_nat_alt)
qed

definition sample_env :: send_env where
  "sample_env = \<lparr>se_nonce = Some (replicate 32 CHR ''a''), se_ackClosed = False, se_remaining = True,
     se_connect = True, se_deadline = True, se_write = True\<rparr>"

definition sample_health_batch :: batch where
  "sample_health_batch = empty_batch\<lparr>bt_ProtocolVersion := 5, bt_Interface := ''eth0'', bt_KernelDrops := 3,
     bt_RXPackets := 4, bt_RXBytes := 400\<rparr>"

definition sample_wire :: "uint64 \<Rightarrow> batch" where
  "sample_wire n = sample_health_batch\<lparr>bt_SessionID := replicate 32 CHR ''a'', bt_Sequence := n,
     bt_KernelDrops := 3 * n\<rparr>"

definition sample_sender1 :: batch_sender where
  "sample_sender1 = snd (snd (sendBefore sample_env sample_health_batch new_sender))"

definition sample_sender2 :: batch_sender where
  "sample_sender2 = snd (snd (sendBefore sample_env sample_health_batch sample_sender1))"

theorem sender_session_accepted_witness:
  "bt_Sequence (sample_wire 1) < bt_Sequence (sample_wire 2) \<and>
   Delta (CollectorHealth (sample_wire 2)) (CollectorHealth (sample_wire 1)) =
     Inr (health_sub (CollectorHealth (sample_wire 2)) (CollectorHealth (sample_wire 1)))"
proof -
  have "sendBefore sample_env sample_health_batch new_sender = (None, Some (sample_wire 1), sample_sender1)"
    by code_simp
  then have s1: "sender_step new_sender (LSend sample_env sample_health_batch (Some (sample_wire 1))) sample_sender1"
    by (rule sender_step.send)
  have "sendBefore sample_env sample_health_batch sample_sender1 = (None, Some (sample_wire 2), sample_sender2)"
    by code_simp
  then have s2: "sender_step sample_sender1 (LSend sample_env sample_health_batch (Some (sample_wire 2))) sample_sender2"
    by (rule sender_step.send)
  have "(5 :: int) \<le> bt_ProtocolVersion sample_health_batch" by code_simp
  then show ?thesis
    using sender_session_accepted [OF sender_reachable.start s1 sender_path.nil _ s2] by simp
qed

section \<open>Completion\<close>

text \<open>An acknowledgement that confirms every dataset of the latest batch of a session.\<close>

definition confirms :: "commit_ack \<Rightarrow> string \<Rightarrow> delivery_state \<Rightarrow> bool" where
  "confirms a i d \<longleftrightarrow> ack_well_formed a \<and> ak_SessionID a = ds_SessionID d \<and> ak_Interface a = i \<and>
     ak_Sequence a = ds_SentSequence d \<and> ak_Complete a \<and> ak_HealthCommitted a \<and> ak_TrafficCommitted a \<and>
     ak_EventsCommitted a \<and> ak_NotificationsCommitted a"

definition complete_at :: "batch_sender \<Rightarrow> string \<Rightarrow> uint64 \<Rightarrow> bool" where
  "complete_at s i n \<longleftrightarrow> (\<exists>d. map_of (sn_delivery s) i = Some d \<and> ds_Complete d \<and> ds_SentSequence d = n)"

lemma identify_complete: "complete_at (snd (snd (identify nonce b s))) i n \<Longrightarrow> complete_at s i n"
  by (auto simp: identify_def identify_with_def complete_at_def Let_def split: if_splits option.splits)

lemma retainLoss_complete: "complete_at (retainLoss b s) i n \<Longrightarrow> complete_at s i n"
  by (auto simp: retainLoss_def complete_at_def Let_def split: if_splits option.splits)

lemma complete_at_cong: "sn_delivery s' = sn_delivery s \<Longrightarrow> complete_at s' i n = complete_at s i n"
  by (simp add: complete_at_def)

lemma transmit_delivery: "transmit env s = (e, s') \<Longrightarrow> sn_delivery s' = sn_delivery s"
  by (auto simp: transmit_def Close_def Let_def split: if_splits)

lemma sendBefore_complete:
  assumes "sendBefore env b s = (e, w, s')" "complete_at s' i n"
  shows "complete_at s i n"
proof -
  define c where "c = (if bt_ProtocolVersion b < 5 then mergeHealth b (pending_of s (bt_Interface b)) else b)"
  obtain e1 b1 s1 where i: "identify (se_nonce env) c s = (e1, b1, s1)"
    by (cases "identify (se_nonce env) c s") auto
  obtain e2 s2 where t: "transmit env s1 = (e2, s2)" by (cases "transmit env s1")
  have "snd (snd (sendBefore env b s)) \<in> {s, retainLoss b1 s1, Close (retainLoss b1 s2),
      s2\<lparr>sn_pending := AList.delete (bt_Interface b1) (sn_pending s2)\<rparr>}"
    unfolding sendBefore_def Let_def c_def [symmetric] i using t by (simp split: option.split)
  then consider "s' = s" | "s' = retainLoss b1 s1" | "s' = Close (retainLoss b1 s2)"
    | "s' = s2\<lparr>sn_pending := AList.delete (bt_Interface b1) (sn_pending s2)\<rparr>" using assms(1) by auto
  then have "complete_at s i n \<or> complete_at s1 i n"
  proof cases
    case 3
    then have "complete_at (retainLoss b1 s2) i n" using assms(2) by (simp add: complete_at_def Close_def)
    then show ?thesis
      using retainLoss_complete complete_at_cong [OF transmit_delivery [OF t]] by blast
  next
    case 4
    then have "complete_at s2 i n" using assms(2) by (simp add: complete_at_def)
    then show ?thesis using complete_at_cong [OF transmit_delivery [OF t]] by blast
  qed (use assms(2) retainLoss_complete in blast)+
  then show ?thesis using identify_complete [of "se_nonce env" c s i n] i by auto
qed

lemma discard_complete: "complete_at (discard nonce b s) i n \<Longrightarrow> complete_at s i n"
proof -
  assume c: "complete_at (discard nonce b s) i n"
  obtain e b1 s1 where r: "identify nonce b s = (e, b1, s1)" by (cases "identify nonce b s") auto
  then have "complete_at s1 i n"
    using c retainLoss_complete complete_at_cong [of "Close x" x for x]
    by (force simp: discard_def Close_def Let_def)
  then show ?thesis using identify_complete [of nonce b s i n] r by simp
qed

lemma retire_complete: "complete_at (snd (RetireInterface j s)) i n \<Longrightarrow> complete_at s i n"
  by (auto simp: complete_at_def RetireInterface_def Let_def map_of_delete split: if_splits)

lemma receive_ack_complete:
  assumes "complete_at (receive_ack a s) i n"
  shows "complete_at s i n \<or> (\<exists>d. map_of (sn_delivery s) i = Some d \<and> ds_SentSequence d = n \<and> confirms a i d)"
  using assms
  by (auto simp: receive_ack_def complete_at_def confirms_def apply_ack_def Let_def
      split: if_splits option.splits)

text \<open>C21: no acknowledgement, no completion.\<close>

theorem complete_only_by_ack:
  assumes "sender_step s l s'" and "complete_at s' i n" and "\<not> complete_at s i n"
  shows "\<exists>a d. l = LAck a \<and> map_of (sn_delivery s) i = Some d \<and> ds_SentSequence d = n \<and> confirms a i d"
  using assms
proof (cases rule: sender_step.cases)
  case (send env b e wire)
  then show ?thesis using assms sendBefore_complete by blast
next
  case (ack a)
  then show ?thesis using assms receive_ack_complete by blast
next
  case close
  then show ?thesis using assms by (simp add: complete_at_def Close_def)
qed (use assms discard_complete retire_complete in blast)+

definition sample_ack :: commit_ack where
  "sample_ack = \<lparr>ak_ProtocolVersion = 5, ak_SessionID = replicate 32 CHR ''a'', ak_Interface = ''eth0'',
     ak_Sequence = 1, ak_CommittedSequence = 1, ak_HealthCommitted = True, ak_TrafficCommitted = True,
     ak_EventsCommitted = True, ak_NotificationsCommitted = True, ak_Complete = True,
     ak_Duplicate = False, ak_Reason = []\<rparr>"

theorem complete_only_by_ack_witness:
  "\<exists>d. map_of (sn_delivery sample_sender1) ''eth0'' = Some d \<and> ds_SentSequence d = 1 \<and> confirms sample_ack ''eth0'' d"
proof -
  have "map_option (\<lambda>d. (ds_Complete d, ds_SentSequence d)) (map_of (sn_delivery (receive_ack sample_ack sample_sender1)) ''eth0'') = Some (True, 1)"
    by code_simp
  then have "complete_at (receive_ack sample_ack sample_sender1) ''eth0'' 1" by (auto simp: complete_at_def)
  moreover have "map_option ds_Complete (map_of (sn_delivery sample_sender1) ''eth0'') = Some False"
    by code_simp
  then have "\<not> complete_at sample_sender1 ''eth0'' 1" by (auto simp: complete_at_def)
  ultimately show ?thesis
    using complete_only_by_ack [OF sender_step.ack, of sample_ack sample_sender1 "''eth0''" 1] by auto
qed

section \<open>Losses\<close>

text \<open>C35: the sender's bounds.\<close>

theorem sender_bounds:
  assumes "sender_reachable s"
  shows "int (length (sn_delivery s)) \<le> 8 \<and> distinct (map fst (sn_delivery s)) \<and>
    (\<forall>i d. map_of (sn_delivery s) i = Some d \<longrightarrow>
       unat (ds_CommittedSequence d) \<le> unat (ds_SentSequence d) \<and> unat (ds_SentSequence d) < 2 ^ 63 \<and>
       health_ok (ds_health d))"
  using sender_reachable_inv [OF assms]
  by (auto simp: sender_inv_def state_ok_def MaxInterfaces_def keys_distinct_def word_le_nat_alt
      counter_simps dest!: map_of_SomeD)

theorem sender_bounds_witness: "int (length (sn_delivery sample_sender1)) \<le> 8"
proof -
  have "sendBefore sample_env sample_health_batch new_sender = (None, Some (sample_wire 1), sample_sender1)"
    by code_simp
  then have "sender_reachable sample_sender1"
    using sender_reachable.step [OF sender_reachable.start] sender_step.send by blast
  from sender_bounds [OF this] show ?thesis by blast
qed

definition lost_env :: send_env where
  "lost_env = sample_env\<lparr>se_nonce := None\<rparr>"

text \<open>A batch that cannot be numbered replaces, and does not add to, the pending loss of its interface.\<close>

lemma pending_loss_replaced:
  "let s1 = snd (snd (sendBefore lost_env sample_health_batch new_sender));
       s2 = snd (snd (sendBefore lost_env sample_health_batch s1))
   in PendingLoss s1 = (1, 4, 400) \<and> PendingLoss s2 = (1, 4, 400)"
  by code_simp

end
