(* ===== verification/Config.thy ===== *)
theory Config
  imports Protocol
begin

text \<open>
  \<open>internal/config\<close>: the configuration records of the components that are modelled.
\<close>

record detection_config =
  dc_SYNPacketsPerSecond :: uint64
  dc_UDPPacketsPerSecond :: uint64
  dc_ICMPPacketsPerSecond :: uint64
  dc_BytesPerSecond :: uint64
  dc_RecoveryRatio :: f64
  dc_RecoveryWindows :: int
  dc_UpdateInterval :: duration
  dc_ScanUniquePorts :: int
  dc_ScanWindow :: duration

record auth_config =
  ac_Enabled :: bool
  ac_Journalctl :: string
  ac_Threshold :: int
  ac_Window :: duration
  ac_Cooldown :: duration
  ac_HistoryHintsEnabled :: bool

end
