(* ===== verification/Network.thy ===== *)
theory Network
  imports Config
begin

text \<open>
  \<open>internal/detect/network.go\<close>: rate incidents and port scans of one interface. \<open>Observe\<close> holds the
  detector's lock throughout, so it is one atomic step. The admission budget for remembered ports is
  an object that several detectors may share; the field \<open>nw_budget\<close> is that object as the call
  finds and leaves it, and \<open>Fleet\<close> hands it from one detector to the next.
\<close>

section \<open>State\<close>

record flood_state =
  fd_incidentID :: string
  fd_started :: time
  fd_lastUpdate :: time
  fd_quiet :: int

record scan_state =
  sc_started :: time
  sc_last :: time
  sc_ports :: "uint16 list"
  sc_packets :: uint64
  sc_emitted :: bool

definition maxScanSources :: int where "maxScanSources = 8192"
definition maxUDPRequestTuples :: int where "maxUDPRequestTuples = 16384"
definition maxScanPortEntries :: int where "maxScanPortEntries = 262144"
definition udpReplyWindow :: duration where "udpReplyWindow = 30 * second"

text \<open>The fields of the statistics that \<open>Observe\<close> accumulates, and those \<open>Stats\<close> fills in.\<close>

record network_stats =
  ns_ScanSources :: int
  ns_ScanSourceLimit :: int
  ns_ScanIgnoredPackets :: uint64
  ns_ScanStateSaturated :: bool
  ns_ScanPortEntries :: int
  ns_ScanPortLimit :: int
  ns_ScanPortStateSaturated :: bool
  ns_ScanCoverageComplete :: bool
  ns_ScanCoverageIncompleteUntil :: time
  ns_UDPRequestTuples :: int
  ns_UDPRequestLimit :: int
  ns_UDPRequestIgnoredPackets :: uint64
  ns_UDPUnclassifiedPackets :: uint64
  ns_UDPRepliesExcludedPackets :: uint64
  ns_UDPStateSaturated :: bool
  ns_UDPScanCoverageComplete :: bool
  ns_RecoverySuppressedBatches :: uint64
  ns_CountersSaturated :: bool

definition no_stats :: network_stats where
  "no_stats = \<lparr>ns_ScanSources = 0, ns_ScanSourceLimit = 0, ns_ScanIgnoredPackets = 0,
     ns_ScanStateSaturated = False, ns_ScanPortEntries = 0, ns_ScanPortLimit = 0,
     ns_ScanPortStateSaturated = False, ns_ScanCoverageComplete = False,
     ns_ScanCoverageIncompleteUntil = zero_time, ns_UDPRequestTuples = 0, ns_UDPRequestLimit = 0,
     ns_UDPRequestIgnoredPackets = 0, ns_UDPUnclassifiedPackets = 0,
     ns_UDPRepliesExcludedPackets = 0, ns_UDPStateSaturated = False,
     ns_UDPScanCoverageComplete = False, ns_RecoverySuppressedBatches = 0,
     ns_CountersSaturated = False\<rparr>"

record udp_tuple =
  ut_iface :: string
  ut_remoteIP :: string
  ut_localPort :: uint16
  ut_remotePort :: uint16

record port_budget =
  bg_used :: int
  bg_limit :: int

record network =
  nw_config :: detection_config
  nw_floods :: "(string \<times> flood_state) list"
  nw_scans :: "(string \<times> scan_state) list"
  nw_udpRequests :: "(udp_tuple \<times> time) list"
  nw_udpUncertainUntil :: time
  nw_lastBatch :: time
  nw_lastInterface :: string
  nw_stats :: network_stats
  nw_scanLimit :: int
  nw_udpLimit :: int
  nw_continuityReset :: bool
  nw_budget :: port_budget
  nw_scanPorts :: int
  nw_scanUncertainUntil :: time
  nw_draws :: nat

section \<open>The port budget\<close>

definition reserve :: "port_budget \<Rightarrow> bool \<times> port_budget" where
  "reserve b = (if bg_limit b \<le> bg_used b then (False, b) else (True, b\<lparr>bg_used := bg_used b + 1\<rparr>))"

definition release :: "int \<Rightarrow> port_budget \<Rightarrow> port_budget" where
  "release k b = b\<lparr>bg_used := bg_used b - k\<rparr>"

definition saturated :: "port_budget \<Rightarrow> bool" where
  "saturated b \<longleftrightarrow> bg_limit b \<le> bg_used b"

section \<open>Construction, reset and statistics\<close>

definition newNetworkLimits :: "detection_config \<Rightarrow> int \<Rightarrow> int \<Rightarrow> network" where
  "newNetworkLimits cfg scans udp = \<lparr>nw_config = cfg, nw_floods = [], nw_scans = [], nw_udpRequests = [],
     nw_udpUncertainUntil = zero_time, nw_lastBatch = zero_time, nw_lastInterface = [],
     nw_stats = no_stats, nw_scanLimit = scans, nw_udpLimit = udp, nw_continuityReset = False,
     nw_budget = \<lparr>bg_used = 0, bg_limit = maxScanPortEntries\<rparr>, nw_scanPorts = 0,
     nw_scanUncertainUntil = zero_time, nw_draws = 0\<rparr>"

definition NewNetwork :: "detection_config \<Rightarrow> network" where
  "NewNetwork cfg = newNetworkLimits cfg maxScanSources maxUDPRequestTuples"

definition ResetContinuity :: "network \<Rightarrow> network" where
  "ResetContinuity n = n\<lparr>nw_lastBatch := zero_time, nw_lastInterface := [], nw_udpRequests := [],
     nw_continuityReset := True\<rparr>"

definition Network_Stats :: "network \<Rightarrow> network_stats" where
  "Network_Stats n = (nw_stats n)\<lparr>ns_ScanSources := int (length (nw_scans n)),
     ns_ScanSourceLimit := nw_scanLimit n,
     ns_ScanStateSaturated := nw_scanLimit n \<le> int (length (nw_scans n)),
     ns_ScanPortEntries := nw_scanPorts n, ns_ScanPortLimit := bg_limit (nw_budget n),
     ns_ScanPortStateSaturated := saturated (nw_budget n),
     ns_ScanCoverageIncompleteUntil := nw_scanUncertainUntil n,
     ns_ScanCoverageComplete := \<not> nw_lastBatch n < nw_scanUncertainUntil n,
     ns_UDPRequestTuples := int (length (nw_udpRequests n)), ns_UDPRequestLimit := nw_udpLimit n,
     ns_UDPStateSaturated := nw_udpLimit n \<le> int (length (nw_udpRequests n))\<rparr>"

text \<open>\<open>addCounter\<close> takes the counter's address: here its selector and its update.\<close>

definition addCounter :: "(network_stats \<Rightarrow> uint64) \<Rightarrow> ((uint64 \<Rightarrow> uint64) \<Rightarrow> network_stats \<Rightarrow> network_stats) \<Rightarrow>
    uint64 \<Rightarrow> network \<Rightarrow> network" where
  "addCounter get put v n =
     (if max_uint64 - get (nw_stats n) < v
      then n\<lparr>nw_stats := (put (\<lambda>_. max_uint64) (nw_stats n))\<lparr>ns_CountersSaturated := True\<rparr>\<rparr>
      else n\<lparr>nw_stats := put (\<lambda>c. c + v) (nw_stats n)\<rparr>)"

section \<open>Bounded UDP request memory\<close>

definition rememberUDP :: "flow \<Rightarrow> string \<Rightarrow> time \<Rightarrow> network \<Rightarrow> network" where
  "rememberUDP f iface now n =
     (let key = \<lparr>ut_iface = iface, ut_remoteIP = fl_RemoteIP f, ut_localPort = fl_LocalPort f,
                 ut_remotePort = fl_RemotePort f\<rparr>;
          found = map_of (nw_udpRequests n) key
      in if found = None \<and> nw_udpLimit n \<le> int (length (nw_udpRequests n))
         then addCounter ns_UDPRequestIgnoredPackets ns_UDPRequestIgnoredPackets_update (fl_Packets f) n
         else if (case found of None \<Rightarrow> zero_time | Some t \<Rightarrow> t) < now
         then n\<lparr>nw_udpRequests := AList.update key now (nw_udpRequests n)\<rparr>
         else n)"

definition markUDPUncertain :: "time \<Rightarrow> network \<Rightarrow> network" where
  "markUDPUncertain now n =
     (let until = max now (nw_lastBatch n) + udpReplyWindow
      in if nw_udpUncertainUntil n < until then n\<lparr>nw_udpUncertainUntil := until\<rparr> else n)"

section \<open>Scan state\<close>

definition markScanIncomplete :: "time \<Rightarrow> network \<Rightarrow> network" where
  "markScanIncomplete now n =
     (let until = now + dc_ScanWindow (nw_config n) + nanosecond
      in if nw_scanUncertainUntil n < until then n\<lparr>nw_scanUncertainUntil := until\<rparr> else n)"

definition deleteScan :: "string \<Rightarrow> network \<Rightarrow> network" where
  "deleteScan source n = (case map_of (nw_scans n) source of
     None \<Rightarrow> n
   | Some st \<Rightarrow> n\<lparr>nw_budget := release (int (length (sc_ports st))) (nw_budget n),
       nw_scanPorts := nw_scanPorts n - int (length (sc_ports st)),
       nw_scans := AList.delete source (nw_scans n)\<rparr>)"

definition releaseScanState :: "network \<Rightarrow> network" where
  "releaseScanState n = fold deleteScan (map fst (nw_scans n)) n"

definition Network_prune :: "time \<Rightarrow> network \<Rightarrow> network" where
  "Network_prune now n =
     (let n = fold (\<lambda>(source, st) n.
                if dc_ScanWindow (nw_config n) < time_sub now (sc_started st) then deleteScan source n else n)
              (nw_scans n) n
      in n\<lparr>nw_udpRequests := filter (\<lambda>(k, last). \<not> udpReplyWindow \<le> time_sub now last) (nw_udpRequests n)\<rparr>)"

definition ignore_scan :: "flow \<Rightarrow> time \<Rightarrow> network \<Rightarrow> network" where
  "ignore_scan f now n = markScanIncomplete now
     (addCounter ns_ScanIgnoredPackets ns_ScanIgnoredPackets_update (fl_Packets f) n)"

text \<open>The last part of \<open>observePort\<close>, once the source has a current scan state.\<close>

definition record_port :: "flow \<Rightarrow> time \<Rightarrow> scan_state \<Rightarrow> network \<Rightarrow> network" where
  "record_port f now st n =
     (let st = st\<lparr>sc_last := now\<rparr>;
          (st, n) =
            (if \<not> sc_emitted st \<and> int (length (sc_ports st)) < dc_ScanUniquePorts (nw_config n) \<and>
               fl_LocalPort f \<notin> set (sc_ports st)
             then (case reserve (nw_budget n) of
                 (True, b) \<Rightarrow> (st\<lparr>sc_ports := sc_ports st @ [fl_LocalPort f]\<rparr>,
                    n\<lparr>nw_budget := b, nw_scanPorts := nw_scanPorts n + 1\<rparr>)
               | (False, b) \<Rightarrow> (st, ignore_scan f now n))
             else (st, n));
          st = st\<lparr>sc_packets := saturating_add (sc_packets st) (fl_Packets f)\<rparr>
      in n\<lparr>nw_scans := AList.update (fl_RemoteIP f) st (nw_scans n)\<rparr>)"

definition observePort :: "flow \<Rightarrow> time \<Rightarrow> network \<Rightarrow> network" where
  "observePort f now n =
     (let fresh = \<lparr>sc_started = now, sc_last = zero_time, sc_ports = [], sc_packets = 0, sc_emitted = False\<rparr>
      in case map_of (nw_scans n) (fl_RemoteIP f) of
        None \<Rightarrow> if nw_scanLimit n \<le> int (length (nw_scans n)) then ignore_scan f now n
                else record_port f now fresh n
      | Some st \<Rightarrow>
          if dc_ScanWindow (nw_config n) < time_sub now (sc_started st)
          then record_port f now fresh (deleteScan (fl_RemoteIP f) n)
          else record_port f now st n)"

section \<open>Sources of a batch\<close>

definition merge_source :: "flow \<Rightarrow> flow \<Rightarrow> flow" where
  "merge_source a f = a\<lparr>fl_Packets := fl_Packets a + fl_Packets f, fl_Bytes := fl_Bytes a + fl_Bytes f,
     fl_Protocol := (if fl_Protocol a \<noteq> fl_Protocol f then [] else fl_Protocol a),
     fl_LocalPort := (if fl_LocalPort a \<noteq> fl_LocalPort f then 0 else fl_LocalPort a)\<rparr>"

type_synonym sources = "(string \<times> flow) list"

definition sources_of :: "string \<Rightarrow> (string \<times> sources) list \<Rightarrow> sources" where
  "sources_of kind m = (case map_of m kind of None \<Rightarrow> [] | Some s \<Rightarrow> s)"

definition addSource :: "string \<Rightarrow> flow \<Rightarrow> (string \<times> sources) list \<Rightarrow> (string \<times> sources) list" where
  "addSource kind f m =
     (let s = sources_of kind m;
          a = (case map_of s (fl_RemoteIP f) of None \<Rightarrow> f | Some a \<Rightarrow> merge_source a f)
      in AList.update kind (AList.update (fl_RemoteIP f) a s) m)"

definition source_value :: "bool \<Rightarrow> flow \<Rightarrow> uint64" where
  "source_value byBytes f = (if byBytes then fl_Bytes f else fl_Packets f)"

definition better_source :: "bool \<Rightarrow> flow \<Rightarrow> flow \<Rightarrow> bool" where
  "better_source byBytes source best \<longleftrightarrow> source_value byBytes best < source_value byBytes source \<or>
     source_value byBytes source = source_value byBytes best \<and>
       (fl_RemoteIP best = [] \<or> string_less (fl_RemoteIP source) (fl_RemoteIP best))"

definition topSource :: "sources \<Rightarrow> bool \<Rightarrow> flow" where
  "topSource s byBytes =
     fold (\<lambda>(ip, source) best. if better_source byBytes source best then source else best) s empty_flow"

section \<open>Floods\<close>

definition floodEvent :: "(nat \<Rightarrow> string) \<Rightarrow> nat \<Rightarrow> string \<Rightarrow> string \<Rightarrow> flood_state \<Rightarrow> f64 \<Rightarrow> f64 \<Rightarrow> severity \<Rightarrow>
    string \<Rightarrow> flow \<Rightarrow> time \<Rightarrow> event" where
  "floodEvent ids k kind phase st v threshold sev unit f now =
     (let e = \<lparr>ev_ID = new_id ids k ''evt'', ev_IncidentID = fd_incidentID st, ev_ObservedAt = now,
            ev_Kind = kind, ev_Phase = phase, ev_Severity = sev,
            ev_Summary = Fmt ''observed %.0f %s; configured threshold %.0f %s''
              [Float v, Text unit, Float threshold, Text unit],
            ev_SourceIP = [], ev_SourceRange = [], ev_Target = Text [], ev_Count = f64_to_uint64 v,
            ev_Geo = no_geo,
            ev_Evidence = [(''threshold'', Fmt ''%.0f %s'' [Float threshold, Text unit]),
              (''observed_rate'', Float v), (''threshold_rate'', Float threshold)]\<rparr>;
          e = (if phase = ''recovery''
               then set_evidence ''incident_duration_millis'' (Number (milliseconds (time_sub now (fd_started st)))) e
               else e)
      in if fl_RemoteIP f = [] then e
         else set_evidence ''source_scope'' (Text ''retained_flows'')
           (set_evidence ''top_source_bytes'' (Number (uint (fl_Bytes f)))
           (set_evidence ''top_source_packets'' (Number (uint (fl_Packets f)))
           (e\<lparr>ev_SourceIP := fl_RemoteIP f, ev_SourceRange := PrefixString (fl_RemoteIP f),
              ev_Target := (if fl_Protocol f = [] then Text []
                else if fl_LocalPort f = 0 then Text (fl_Protocol f)
                else Fmt ''%s/%d'' [Text (fl_Protocol f), Number (uint (fl_LocalPort f))])\<rparr>))))"

definition set_flood :: "string \<Rightarrow> flood_state \<Rightarrow> network \<Rightarrow> network" where
  "set_flood kind st n = n\<lparr>nw_floods := AList.update kind st (nw_floods n)\<rparr>"

definition observeFlood :: "(nat \<Rightarrow> string) \<Rightarrow> string \<Rightarrow> f64 \<Rightarrow> f64 \<Rightarrow> severity \<Rightarrow> string \<Rightarrow> flow \<Rightarrow> time \<Rightarrow>
    bool \<Rightarrow> network \<Rightarrow> event option \<times> network" where
  "observeFlood ids kind v threshold sev unit f now reliable n =
     (let k = nw_draws n in
      case map_of (nw_floods n) kind of
        None \<Rightarrow>
          if fle threshold v then
            let st = \<lparr>fd_incidentID = new_id ids k ''inc'', fd_started = now, fd_lastUpdate = now, fd_quiet = 0\<rparr>
            in (Some (floodEvent ids (k + 1) kind ''start'' st v threshold sev unit f now),
                (set_flood kind st n)\<lparr>nw_draws := k + 2\<rparr>)
          else (None, n)
      | Some st \<Rightarrow>
          if fle threshold v then
            let st = st\<lparr>fd_quiet := 0\<rparr> in
            if dc_UpdateInterval (nw_config n) \<le> time_sub now (fd_lastUpdate st) then
              let st = st\<lparr>fd_lastUpdate := now\<rparr>
              in (Some (floodEvent ids k kind ''update'' st v threshold sev unit f now),
                  (set_flood kind st n)\<lparr>nw_draws := k + 1\<rparr>)
            else (None, set_flood kind st n)
          else if \<not> reliable then (None, set_flood kind (st\<lparr>fd_quiet := 0\<rparr>) n)
          else if fless v (fmul threshold (dc_RecoveryRatio (nw_config n))) then
            let st = st\<lparr>fd_quiet := fd_quiet st + 1\<rparr> in
            if dc_RecoveryWindows (nw_config n) \<le> fd_quiet st then
              (Some ((floodEvent ids k kind ''recovery'' st v threshold SeverityInfo unit f now)
                 \<lparr>ev_Summary := Fmt ''rate recovered to %.0f %s after %s''
                    [Float v, Text unit, Dur (time_sub now (fd_started st))]\<rparr>),
               n\<lparr>nw_floods := AList.delete kind (nw_floods n), nw_draws := k + 1\<rparr>)
            else (None, set_flood kind st n)
          else (None, set_flood kind (st\<lparr>fd_quiet := 0\<rparr>) n))"

section \<open>Scan events\<close>

definition scan_event :: "(nat \<Rightarrow> string) \<Rightarrow> string \<Rightarrow> scan_state \<Rightarrow> time \<Rightarrow> network \<Rightarrow> event" where
  "scan_event ids source st now n = \<lparr>ev_ID = new_id ids (nw_draws n) ''evt'',
     ev_IncidentID = new_id ids (nw_draws n + 1) ''inc'', ev_ObservedAt = now, ev_Kind = ''port_scan'',
     ev_Phase = ''start'', ev_Severity = SeverityMedium,
     ev_Summary = Fmt ''at least %d unique local ports probed in %s''
       [Number (int (length (sc_ports st))), Dur (time_sub now (sc_started st))],
     ev_SourceIP = source, ev_SourceRange = PrefixString source, ev_Target = Text [],
     ev_Count = of_nat (length (sc_ports st)), ev_Geo = no_geo,
     ev_Evidence = [(''packets'', Number (uint (sc_packets st))),
       (''rule'', Text ''inbound_syn_or_unsolicited_udp''),
       (''threshold'', Number (dc_ScanUniquePorts (nw_config n))),
       (''window_seconds'', Dur (dc_ScanWindow (nw_config n))),
       (''elapsed_millis'', Number (milliseconds (time_sub now (sc_started st))))]\<rparr>"

fun scan_loop :: "(nat \<Rightarrow> string) \<Rightarrow> time \<Rightarrow> (string \<times> scan_state) list \<Rightarrow> network \<Rightarrow> event list \<times> network" where
  "scan_loop ids now [] n = ([], n)"
| "scan_loop ids now ((source, st) # rest) n =
     (if dc_ScanWindow (nw_config n) < time_sub now (sc_last st)
      then scan_loop ids now rest (deleteScan source n)
      else if \<not> sc_emitted st \<and> dc_ScanUniquePorts (nw_config n) \<le> int (length (sc_ports st)) then
        (let n' = n\<lparr>nw_scans := AList.update source (st\<lparr>sc_emitted := True\<rparr>) (nw_scans n), nw_draws := nw_draws n + 2\<rparr>;
             (evs, n'') = scan_loop ids now rest n'
         in (scan_event ids source st now n # evs, n''))
      else scan_loop ids now rest n)"

definition scanEvents :: "(nat \<Rightarrow> string) \<Rightarrow> time \<Rightarrow> network \<Rightarrow> event list \<times> network" where
  "scanEvents ids now n = scan_loop ids now (nw_scans n) n"

section \<open>Observation of a batch\<close>

definition continuous :: "batch \<Rightarrow> network \<Rightarrow> bool" where
  "continuous b n \<longleftrightarrow> is_zero (nw_lastBatch n) \<or>
     nw_lastBatch n < bt_SentAt b \<and> bt_Interface b = nw_lastInterface n \<and>
     abs_duration (time_sub (bt_SentAt b) (nw_lastBatch n) - bt_IntervalMillis b * millisecond) \<le> millisecond"

definition complete_batch :: "batch \<Rightarrow> bool" where
  "complete_batch b \<longleftrightarrow> bt_KernelDrops b = 0 \<and> bt_KernelStatsErrors b = 0 \<and> bt_ParseErrors b = 0 \<and>
     bt_OverflowPackets b = 0 \<and> bt_OverflowBytes b = 0 \<and> bt_IPCDroppedBatches b = 0 \<and>
     bt_IPCDroppedPackets b = 0 \<and> bt_IPCDroppedBytes b = 0 \<and> \<not> bt_HealthCountersSaturated b"

definition observe_request :: "batch \<Rightarrow> flow \<Rightarrow> network \<Rightarrow> network" where
  "observe_request b f n =
     (if fl_Direction f = DirectionOutbound \<and> fl_Protocol f = ''udp'' then
        if fl_LocalPort f = 0 \<or> fl_RemotePort f = 0
        then addCounter ns_UDPRequestIgnoredPackets ns_UDPRequestIgnoredPackets_update (fl_Packets f) n
        else rememberUDP f (bt_Interface b) (bt_SentAt b) n
      else n)"

definition observe_udp :: "batch \<Rightarrow> flow \<Rightarrow> network \<Rightarrow> network" where
  "observe_udp b f n =
     (if fl_LocalPort f = 0 \<or> fl_RemotePort f = 0
      then addCounter ns_UDPUnclassifiedPackets ns_UDPUnclassifiedPackets_update (fl_Packets f) n
      else if map_of (nw_udpRequests n) \<lparr>ut_iface = bt_Interface b, ut_remoteIP = fl_RemoteIP f,
          ut_localPort = fl_LocalPort f, ut_remotePort = fl_RemotePort f\<rparr> \<noteq> None
      then addCounter ns_UDPRepliesExcludedPackets ns_UDPRepliesExcludedPackets_update (fl_Packets f) n
      else if \<not> ns_UDPScanCoverageComplete (nw_stats n)
      then addCounter ns_UDPUnclassifiedPackets ns_UDPUnclassifiedPackets_update (fl_Packets f) n
      else observePort f (bt_SentAt b) n)"

definition observe_inbound :: "batch \<Rightarrow> flow \<Rightarrow> (string \<times> sources) list \<times> network \<Rightarrow>
    (string \<times> sources) list \<times> network" where
  "observe_inbound b f tn = (case tn of (tops, n) \<Rightarrow>
     if fl_Direction f \<noteq> DirectionInbound then (tops, n)
     else
       let tops = addSource ''bandwidth_spike'' f tops in
       if fl_Protocol f = ''tcp'' then
         (if and (fl_TCPFlags f) 0x02 \<noteq> 0 \<and> and (fl_TCPFlags f) 0x10 = 0
          then addSource ''syn_flood'' f tops else tops,
          if fl_LocalPort f \<noteq> 0 \<and> and (fl_TCPFlags f) 0x17 = 0x02
          then observePort f (bt_SentAt b) n else n)
       else if fl_Protocol f = ''udp'' then (addSource ''udp_flood'' f tops, observe_udp b f n)
       else if fl_Protocol f = ''icmp'' \<or> fl_Protocol f = ''icmpv6''
       then (addSource ''icmp_flood'' f tops, n)
       else (tops, n))"

text \<open>Before the flows are classified: continuity, coverage, expiry and the outbound requests.\<close>

definition begin_batch :: "batch \<Rightarrow> bool \<Rightarrow> network \<Rightarrow> network" where
  "begin_batch b cont n =
     (let n = (if is_zero (nw_lastBatch n) \<or> \<not> cont \<or> \<not> complete_batch b
               then markUDPUncertain (bt_SentAt b) n else n);
          n = (if nw_lastBatch n < bt_SentAt b
               then n\<lparr>nw_lastBatch := bt_SentAt b, nw_lastInterface := bt_Interface b\<rparr> else n);
          n = Network_prune (bt_SentAt b) n;
          before = ns_UDPRequestIgnoredPackets (nw_stats n);
          n = fold (observe_request b) (bt_Flows b) n;
          n = (if ns_UDPRequestIgnoredPackets (nw_stats n) \<noteq> before \<or>
                 nw_udpLimit n \<le> int (length (nw_udpRequests n))
               then markUDPUncertain (bt_SentAt b) n else n)
      in n\<lparr>nw_stats := (nw_stats n)\<lparr>ns_UDPScanCoverageComplete :=
           3 \<le> bt_ProtocolVersion b \<and> \<not> bt_SentAt b < nw_udpUncertainUntil n \<and> cont \<and> complete_batch b\<rparr>\<rparr>)"

record rate =
  rt_kind :: string
  rt_value :: f64
  rt_threshold :: uint64
  rt_severity :: severity
  rt_unit :: string

definition batch_rates :: "batch \<Rightarrow> detection_config \<Rightarrow> rate list" where
  "batch_rates b c =
     (let seconds = fdiv (f64_of_int (bt_IntervalMillis b)) (f64_of_int 1000) in
      [\<lparr>rt_kind = ''syn_flood'', rt_value = fdiv (f64_of_uint64 (bt_InboundSYN b)) seconds,
         rt_threshold = dc_SYNPacketsPerSecond c, rt_severity = SeverityHigh, rt_unit = ''pps''\<rparr>,
       \<lparr>rt_kind = ''udp_flood'', rt_value = fdiv (f64_of_uint64 (bt_InboundUDP b)) seconds,
         rt_threshold = dc_UDPPacketsPerSecond c, rt_severity = SeverityHigh, rt_unit = ''pps''\<rparr>,
       \<lparr>rt_kind = ''icmp_flood'', rt_value = fdiv (f64_of_uint64 (bt_InboundICMP b)) seconds,
         rt_threshold = dc_ICMPPacketsPerSecond c, rt_severity = SeverityMedium, rt_unit = ''pps''\<rparr>,
       \<lparr>rt_kind = ''bandwidth_spike'', rt_value = fdiv (f64_of_uint64 (bt_RXBytes b)) seconds,
         rt_threshold = dc_BytesPerSecond c, rt_severity = SeverityHigh, rt_unit = ''bytes/s''\<rparr>])"

definition observe_rate :: "(nat \<Rightarrow> string) \<Rightarrow> batch \<Rightarrow> (string \<times> sources) list \<Rightarrow> bool \<Rightarrow> rate \<Rightarrow>
    event list \<times> bool \<times> network \<Rightarrow> event list \<times> bool \<times> network" where
  "observe_rate ids b tops reliable r acc = (case acc of (events, suppressed, n) \<Rightarrow>
     if rt_threshold r = 0 then (events, suppressed, n)
     else
       let f = topSource (sources_of (rt_kind r) tops) (rt_kind r = ''bandwidth_spike'');
           threshold = f64_of_uint64 (rt_threshold r);
           suppressed = (suppressed \<or> \<not> reliable \<and> map_of (nw_floods n) (rt_kind r) \<noteq> None \<and>
             fless (rt_value r) (fmul threshold (dc_RecoveryRatio (nw_config n))))
       in case observeFlood ids (rt_kind r) (rt_value r) threshold (rt_severity r) (rt_unit r) f
                 (bt_SentAt b) reliable n of
            (None, n') \<Rightarrow> (events, suppressed, n')
          | (Some e, n') \<Rightarrow>
              (events @ [set_evidence ''window_millis'' (Number (bt_IntervalMillis b))
                 (set_evidence ''coverage_complete'' (Bool reliable) e)], suppressed, n'))"

definition Network_Observe :: "(nat \<Rightarrow> string) \<Rightarrow> batch \<Rightarrow> network \<Rightarrow> event list \<times> network" where
  "Network_Observe ids b n =
     (if fle (fdiv (f64_of_int (bt_IntervalMillis b)) (f64_of_int 1000)) (Fin 0) then ([], n)
      else
        let cont = continuous b n;
            ignoredBefore = ns_UDPRequestIgnoredPackets (nw_stats n);
            n = begin_batch b cont n;
            scanIgnoredBefore = ns_ScanIgnoredPackets (nw_stats n);
            (tops, n) = fold (observe_inbound b) (bt_Flows b) ([], n);
            reliable = (\<not> nw_continuityReset n \<and> cont \<and> complete_batch b \<and>
              ns_ScanIgnoredPackets (nw_stats n) = scanIgnoredBefore \<and>
              ns_UDPRequestIgnoredPackets (nw_stats n) = ignoredBefore \<and>
              \<not> ns_CountersSaturated (nw_stats n));
            n = n\<lparr>nw_continuityReset := False\<rparr>;
            (events, suppressed, n) =
              fold (observe_rate ids b tops reliable) (batch_rates b (nw_config n)) ([], False, n);
            n = (if suppressed
                 then addCounter ns_RecoverySuppressedBatches ns_RecoverySuppressedBatches_update 1 n else n);
            (scans, n) = scanEvents ids (bt_SentAt b) n
        in (events @ map (set_evidence ''coverage_complete''
              (Bool (\<not> bt_SentAt b < nw_scanUncertainUntil n))) scans, n))"

section \<open>Bounds and accounting of the scan state\<close>

definition ports_total :: "(string \<times> scan_state) list \<Rightarrow> nat" where
  "ports_total m = al_sum (\<lambda>st. length (sc_ports st)) m"

definition net_inv :: "network \<Rightarrow> bool" where
  "net_inv n \<longleftrightarrow> keys_distinct (nw_scans n) \<and> keys_distinct (nw_udpRequests n) \<and> keys_distinct (nw_floods n) \<and>
     nw_scanPorts n = int (ports_total (nw_scans n)) \<and>
     (\<forall>(s, st)\<in>set (nw_scans n). distinct (sc_ports st)) \<and>
     int (length (nw_scans n)) \<le> max 0 (nw_scanLimit n) \<and>
     int (length (nw_udpRequests n)) \<le> max 0 (nw_udpLimit n) \<and>
     bg_used (nw_budget n) \<le> bg_limit (nw_budget n)"

text \<open>What the other users of the budget hold: no operation of this detector changes it.\<close>

definition held_elsewhere :: "network \<Rightarrow> int" where
  "held_elsewhere n = bg_used (nw_budget n) - nw_scanPorts n"

definition keeps :: "network \<Rightarrow> network \<Rightarrow> bool" where
  "keeps n n' \<longleftrightarrow> net_inv n' \<and> held_elsewhere n' = held_elsewhere n \<and>
     bg_limit (nw_budget n') = bg_limit (nw_budget n) \<and> nw_config n' = nw_config n \<and>
     nw_scanLimit n' = nw_scanLimit n \<and> nw_udpLimit n' = nw_udpLimit n"

lemma keeps_refl: "net_inv n \<Longrightarrow> keeps n n"
  by (simp add: keeps_def)

lemma keeps_inv: "keeps n n' \<Longrightarrow> net_inv n'"
  by (simp add: keeps_def)

lemma keeps_trans: "keeps n m \<Longrightarrow> keeps m k \<Longrightarrow> keeps n k"
  by (auto simp: keeps_def)

lemma keeps_fold:
  "(\<And>x n. x \<in> set xs \<Longrightarrow> net_inv n \<Longrightarrow> keeps n (f x n)) \<Longrightarrow> net_inv n \<Longrightarrow> keeps n (fold f xs n)"
proof (induction xs arbitrary: n)
  case (Cons x xs)
  have "keeps n (f x n)" using Cons.prems by simp
  moreover have "keeps (f x n) (fold f xs (f x n))"
    using Cons.IH [of "f x n"] Cons.prems keeps_inv [OF \<open>keeps n (f x n)\<close>] by simp
  ultimately show ?case by (auto intro: keeps_trans)
qed (simp add: keeps_refl)

lemma keeps_frame:
  assumes "net_inv n" "nw_scans n' = nw_scans n" "nw_udpRequests n' = nw_udpRequests n"
    "nw_floods n' = nw_floods n" "nw_scanPorts n' = nw_scanPorts n" "nw_budget n' = nw_budget n"
    "nw_config n' = nw_config n" "nw_scanLimit n' = nw_scanLimit n" "nw_udpLimit n' = nw_udpLimit n"
  shows "keeps n n'"
  using assms by (simp add: keeps_def net_inv_def held_elsewhere_def)

named_theorems keeps_intros \<open>operations that keep the detector's invariant\<close>

lemma addCounter_keeps [keeps_intros]: "net_inv n \<Longrightarrow> keeps n (addCounter g p v n)"
  by (rule keeps_frame) (simp_all add: addCounter_def)

lemma markUDPUncertain_keeps [keeps_intros]: "net_inv n \<Longrightarrow> keeps n (markUDPUncertain t n)"
  by (rule keeps_frame) (simp_all add: markUDPUncertain_def Let_def)

lemma markScanIncomplete_keeps [keeps_intros]: "net_inv n \<Longrightarrow> keeps n (markScanIncomplete t n)"
  by (rule keeps_frame) (simp_all add: markScanIncomplete_def Let_def)

lemma ignore_scan_keeps [keeps_intros]: "net_inv n \<Longrightarrow> keeps n (ignore_scan f t n)"
  unfolding ignore_scan_def by (meson addCounter_keeps keeps_inv keeps_trans markScanIncomplete_keeps)

lemma ignore_scan_frame [simp]:
  "nw_scans (ignore_scan f t n) = nw_scans n" "nw_scanPorts (ignore_scan f t n) = nw_scanPorts n"
  "nw_config (ignore_scan f t n) = nw_config n" "nw_budget (ignore_scan f t n) = nw_budget n"
  "nw_scanLimit (ignore_scan f t n) = nw_scanLimit n" "nw_udpRequests (ignore_scan f t n) = nw_udpRequests n"
  "nw_udpLimit (ignore_scan f t n) = nw_udpLimit n" "nw_floods (ignore_scan f t n) = nw_floods n"
  by (simp_all add: ignore_scan_def markScanIncomplete_def addCounter_def Let_def)

lemma rememberUDP_keeps [keeps_intros]:
  assumes "net_inv n"
  shows "keeps n (rememberUDP f i t n)"
proof -
  define key where "key = \<lparr>ut_iface = i, ut_remoteIP = fl_RemoteIP f, ut_localPort = fl_LocalPort f,
    ut_remotePort = fl_RemotePort f\<rparr>"
  have upd: "keeps n (n\<lparr>nw_udpRequests := AList.update key t (nw_udpRequests n)\<rparr>)"
    if "\<not> (map_of (nw_udpRequests n) key = None \<and> nw_udpLimit n \<le> int (length (nw_udpRequests n)))"
    using assms that
    by (cases "map_of (nw_udpRequests n) key")
      (auto simp: keeps_def net_inv_def held_elsewhere_def length_update_None length_update_Some)
  show ?thesis
    unfolding rememberUDP_def key_def [symmetric] Let_def
    using upd addCounter_keeps [OF assms] keeps_refl [OF assms] by auto
qed

lemma ports_total_update:
  "ports_total (AList.update k st m) + (case map_of m k of None \<Rightarrow> 0 | Some w \<Rightarrow> length (sc_ports w)) =
     ports_total m + length (sc_ports st)"
proof (cases "map_of m k")
  case (Some w)
  then show ?thesis
    using al_sum_update_Some [OF Some, of "\<lambda>st. length (sc_ports st)" st] by (simp add: ports_total_def)
qed (simp add: ports_total_def al_sum_update_None)

lemma deleteScan_keeps [keeps_intros]:
  assumes "net_inv n"
  shows "keeps n (deleteScan s n)"
proof (cases "map_of (nw_scans n) s")
  case (Some st)
  have "ports_total (AList.delete s (nw_scans n)) + length (sc_ports st) = ports_total (nw_scans n)"
    using assms al_sum_delete_Some [OF _ Some] by (simp add: ports_total_def net_inv_def)
  moreover have "int (length (AList.delete s (nw_scans n))) \<le> max 0 (nw_scanLimit n)"
    using assms order_trans [OF of_nat_mono [OF length_delete_le [of s "nw_scans n"]]] by (auto simp: net_inv_def)
  ultimately show ?thesis
    using assms Some
    by (auto simp: deleteScan_def keeps_def net_inv_def held_elsewhere_def release_def in_delete_iff)
qed (simp add: deleteScan_def keeps_refl assms)

lemma deleteScan_frame [simp]:
  "nw_config (deleteScan s n) = nw_config n" "nw_scanLimit (deleteScan s n) = nw_scanLimit n"
  by (simp_all add: deleteScan_def split: option.split)

lemma deleteScan_lookup: "map_of (nw_scans (deleteScan s n)) = (map_of (nw_scans n))(s := None)"
  by (auto simp: deleteScan_def map_of_delete fun_eq_iff split: option.split)

lemma deleteScan_length:
  "net_inv n \<Longrightarrow> map_of (nw_scans n) s \<noteq> None \<Longrightarrow> length (nw_scans (deleteScan s n)) < length (nw_scans n)"
  using length_delete_Some [of "nw_scans n" s] by (auto simp: deleteScan_def net_inv_def)

text \<open>One observed port: at most one entry more, reserved from the budget.\<close>

lemma record_port_cases:
  obtains st' b where "record_port f t st n = n\<lparr>nw_budget := b, nw_scanPorts := nw_scanPorts n + 1,
      nw_scans := AList.update (fl_RemoteIP f) st' (nw_scans n)\<rparr>"
    "sc_ports st' = sc_ports st @ [fl_LocalPort f]" "fl_LocalPort f \<notin> set (sc_ports st)"
    "reserve (nw_budget n) = (True, b)" "sc_emitted st' = sc_emitted st"
  | st' m where "record_port f t st n = m\<lparr>nw_scans := AList.update (fl_RemoteIP f) st' (nw_scans n)\<rparr>"
    "m = n \<or> m = ignore_scan f t n" "sc_ports st' = sc_ports st" "sc_emitted st' = sc_emitted st"
proof (cases "\<not> sc_emitted st \<and> int (length (sc_ports st)) < dc_ScanUniquePorts (nw_config n) \<and>
    fl_LocalPort f \<notin> set (sc_ports st)")
  case False
  then have r: "record_port f t st n =
      n\<lparr>nw_scans := AList.update (fl_RemoteIP f) (st\<lparr>sc_last := t, sc_packets := saturating_add (sc_packets st) (fl_Packets f)\<rparr>) (nw_scans n)\<rparr>"
    by (auto simp: record_port_def Let_def)
  show thesis by (rule that(2) [OF r]) simp_all
next
  case True
  obtain ok b where r: "reserve (nw_budget n) = (ok, b)" by (cases "reserve (nw_budget n)")
  show thesis
  proof (cases ok)
    case t: True
    have e: "record_port f t st n = n\<lparr>nw_budget := b, nw_scanPorts := nw_scanPorts n + 1,
        nw_scans := AList.update (fl_RemoteIP f) (st\<lparr>sc_last := t, sc_ports := sc_ports st @ [fl_LocalPort f],
          sc_packets := saturating_add (sc_packets st) (fl_Packets f)\<rparr>) (nw_scans n)\<rparr>"
      using True r t by (simp add: record_port_def Let_def)
    show thesis by (rule that(1) [OF e]) (use True r t in simp_all)
  next
    case False
    have e: "record_port f t st n = (ignore_scan f t n)\<lparr>nw_scans := AList.update (fl_RemoteIP f)
        (st\<lparr>sc_last := t, sc_packets := saturating_add (sc_packets st) (fl_Packets f)\<rparr>) (nw_scans n)\<rparr>"
      using True r False by (simp add: record_port_def Let_def)
    show thesis by (rule that(2) [OF e]) simp_all
  qed
qed

lemma set_scan_inv:
  assumes "net_inv n" "map_of (nw_scans n) s \<noteq> None \<or> int (length (nw_scans n)) < nw_scanLimit n"
  shows "int (length (AList.update s st (nw_scans n))) \<le> max 0 (nw_scanLimit n)"
  using assms
  by (cases "map_of (nw_scans n) s") (auto simp: net_inv_def length_update_None length_update_Some)

lemma record_port_keeps:
  assumes inv: "net_inv n"
    and st: "map_of (nw_scans n) (fl_RemoteIP f) = Some st \<or>
      map_of (nw_scans n) (fl_RemoteIP f) = None \<and> int (length (nw_scans n)) < nw_scanLimit n \<and> sc_ports st = []"
  shows "keeps n (record_port f t st n)"
proof -
  have dist: "distinct (sc_ports st)"
    using inv st by (auto simp: net_inv_def dest: map_of_SomeD)
  have len: "int (length (AList.update (fl_RemoteIP f) x (nw_scans n))) \<le> max 0 (nw_scanLimit n)" for x
    using inv st by (intro set_scan_inv) auto
  have total: "ports_total (AList.update (fl_RemoteIP f) x (nw_scans n)) + length (sc_ports st) =
      ports_total (nw_scans n) + length (sc_ports x)" for x
    using ports_total_update [of "fl_RemoteIP f" x "nw_scans n"] st by auto
  have mem: "\<forall>(s, y)\<in>set (AList.update (fl_RemoteIP f) x (nw_scans n)). distinct (sc_ports y)"
    if "distinct (sc_ports x)" for x
    using inv that set_update_subset [of "fl_RemoteIP f" x "nw_scans n"] by (auto simp: net_inv_def)
  show ?thesis
  proof (rule record_port_cases [of f t st n])
    fix st' b
    assume r: "record_port f t st n = n\<lparr>nw_budget := b, nw_scanPorts := nw_scanPorts n + 1,
        nw_scans := AList.update (fl_RemoteIP f) st' (nw_scans n)\<rparr>"
      and p: "sc_ports st' = sc_ports st @ [fl_LocalPort f]" "fl_LocalPort f \<notin> set (sc_ports st)"
      and b: "reserve (nw_budget n) = (True, b)"
    have "b = (nw_budget n)\<lparr>bg_used := bg_used (nw_budget n) + 1\<rparr>" "bg_used (nw_budget n) < bg_limit (nw_budget n)"
      using b by (auto simp: reserve_def split: if_splits)
    then show ?thesis
      using inv len [of st'] total [of st'] mem [of st'] p dist
      by (auto simp: r keeps_def net_inv_def held_elsewhere_def)
  next
    fix st' m
    assume r: "record_port f t st n = m\<lparr>nw_scans := AList.update (fl_RemoteIP f) st' (nw_scans n)\<rparr>"
      and m: "m = n \<or> m = ignore_scan f t n" and p: "sc_ports st' = sc_ports st"
    have "net_inv m" "keeps n m" using m inv ignore_scan_keeps keeps_refl keeps_inv by blast+
    moreover have "nw_scans m = nw_scans n" "nw_scanPorts m = nw_scanPorts n" using m by auto
    ultimately show ?thesis
      using len [of st'] total [of st'] mem [of st'] p dist
      by (auto simp: r keeps_def net_inv_def held_elsewhere_def)
  qed
qed

lemma observePort_keeps [keeps_intros]:
  assumes inv: "net_inv n"
  shows "keeps n (observePort f t n)"
proof (cases "map_of (nw_scans n) (fl_RemoteIP f)")
  case None
  then show ?thesis
    using inv by (auto simp: observePort_def Let_def intro!: ignore_scan_keeps record_port_keeps)
next
  case (Some st)
  let ?m = "deleteScan (fl_RemoteIP f) n"
  have del: "keeps n ?m" using inv by (rule deleteScan_keeps)
  have "int (length (nw_scans ?m)) < nw_scanLimit ?m"
    using deleteScan_length [OF inv, of "fl_RemoteIP f"] Some inv by (auto simp: net_inv_def)
  then have "keeps ?m (record_port f t x ?m)" if "sc_ports x = []" for x
    using that keeps_inv [OF del] by (intro record_port_keeps) (auto simp: deleteScan_lookup)
  then show ?thesis
    using Some inv del record_port_keeps [of n f st t]
    by (auto simp: observePort_def Let_def intro: keeps_trans)
qed

section \<open>Every step keeps the invariant\<close>

lemma filter_requests_keeps: "net_inv n \<Longrightarrow> keeps n (n\<lparr>nw_udpRequests := filter P (nw_udpRequests n)\<rparr>)"
  using order_trans [OF of_nat_mono [OF length_filter_le [of P "nw_udpRequests n"]]]
  by (auto simp: keeps_def net_inv_def held_elsewhere_def)

lemma prune_keeps [keeps_intros]:
  assumes "net_inv n"
  shows "keeps n (Network_prune t n)"
proof -
  let ?m = "fold (\<lambda>(source, st) n. if dc_ScanWindow (nw_config n) < time_sub t (sc_started st)
    then deleteScan source n else n) (nw_scans n) n"
  have "keeps n ?m"
    using assms by (intro keeps_fold) (auto simp: deleteScan_keeps keeps_refl)
  then show ?thesis
    unfolding Network_prune_def Let_def
    using filter_requests_keeps keeps_inv keeps_trans by blast
qed

lemma observe_request_keeps [keeps_intros]: "net_inv n \<Longrightarrow> keeps n (observe_request b f n)"
  by (simp add: observe_request_def addCounter_keeps rememberUDP_keeps keeps_refl)

lemma observe_udp_keeps [keeps_intros]: "net_inv n \<Longrightarrow> keeps n (observe_udp b f n)"
  by (simp add: observe_udp_def addCounter_keeps observePort_keeps keeps_refl)

lemma observe_inbound_keeps: "net_inv n \<Longrightarrow> keeps n (snd (observe_inbound b f (tops, n)))"
  by (simp add: observe_inbound_def Let_def observe_udp_keeps observePort_keeps keeps_refl)

lemma inbound_fold_keeps: "net_inv n \<Longrightarrow> keeps n (snd (fold (observe_inbound b) fs (tops, n)))"
proof (induction fs arbitrary: tops n)
  case (Cons f fs)
  obtain tops' n' where s: "observe_inbound b f (tops, n) = (tops', n')" by fastforce
  then have "keeps n n'" using observe_inbound_keeps [OF Cons.prems, of b f tops] by simp
  then show ?case using Cons.IH [of n' tops'] keeps_inv keeps_trans s by auto
qed (simp add: keeps_refl)

lemma stats_keeps: "net_inv n \<Longrightarrow> keeps n (n\<lparr>nw_stats := x\<rparr>)"
  by (rule keeps_frame) simp_all

lemma begin_batch_keeps [keeps_intros]:
  assumes "net_inv n"
  shows "keeps n (begin_batch b c n)"
proof -
  define n1 where "n1 = (if is_zero (nw_lastBatch n) \<or> \<not> c \<or> \<not> complete_batch b
    then markUDPUncertain (bt_SentAt b) n else n)"
  define n2 where "n2 = (if nw_lastBatch n1 < bt_SentAt b
    then n1\<lparr>nw_lastBatch := bt_SentAt b, nw_lastInterface := bt_Interface b\<rparr> else n1)"
  define n3 where "n3 = Network_prune (bt_SentAt b) n2"
  define n4 where "n4 = fold (observe_request b) (bt_Flows b) n3"
  define n5 where "n5 = (if ns_UDPRequestIgnoredPackets (nw_stats n4) \<noteq> ns_UDPRequestIgnoredPackets (nw_stats n3) \<or>
    nw_udpLimit n4 \<le> int (length (nw_udpRequests n4)) then markUDPUncertain (bt_SentAt b) n4 else n4)"
  have 1: "keeps n n1" using assms by (simp add: n1_def markUDPUncertain_keeps keeps_refl)
  have 2: "keeps n1 n2"
    using keeps_inv [OF 1] unfolding n2_def by (simp add: keeps_refl) (intro impI keeps_frame, simp_all)
  have 3: "keeps n2 n3" using keeps_inv [OF 2] by (simp add: n3_def prune_keeps)
  have 4: "keeps n3 n4" unfolding n4_def using keeps_inv [OF 3] by (intro keeps_fold observe_request_keeps)
  have 5: "keeps n4 n5" using keeps_inv [OF 4] by (simp add: n5_def markUDPUncertain_keeps keeps_refl)
  have "begin_batch b c n = n5\<lparr>nw_stats := (nw_stats n5)\<lparr>ns_UDPScanCoverageComplete :=
      3 \<le> bt_ProtocolVersion b \<and> \<not> bt_SentAt b < nw_udpUncertainUntil n5 \<and> c \<and> complete_batch b\<rparr>\<rparr>"
    unfolding begin_batch_def Let_def n5_def n4_def n3_def n2_def n1_def by (rule refl)
  then show ?thesis
    using keeps_trans [OF 1 keeps_trans [OF 2 keeps_trans [OF 3 keeps_trans [OF 4 keeps_trans [OF 5 stats_keeps [OF keeps_inv [OF 5]]]]]]]
    by simp
qed

lemma floods_keeps:
  "net_inv n \<Longrightarrow> keys_distinct m \<Longrightarrow> keeps n (n\<lparr>nw_floods := m, nw_draws := k\<rparr>)"
  by (simp add: keeps_def net_inv_def held_elsewhere_def)

lemma set_flood_keeps: "net_inv n \<Longrightarrow> keeps n (set_flood kind st n)" "net_inv n \<Longrightarrow> keeps n ((set_flood kind st n)\<lparr>nw_draws := k\<rparr>)"
  by (simp_all add: set_flood_def keeps_def net_inv_def held_elsewhere_def)

lemma observeFlood_keeps:
  "net_inv n \<Longrightarrow> keeps n (snd (observeFlood ids kind v th sev unit f t rel n))"
  by (simp add: observeFlood_def Let_def set_flood_keeps keeps_refl floods_keeps net_inv_def split: option.split)

lemma observe_rate_keeps:
  "net_inv n \<Longrightarrow> keeps n (snd (snd (observe_rate ids b tops rel r (es, s, n))))"
  using observeFlood_keeps [of n ids "rt_kind r" "rt_value r" "f64_of_uint64 (rt_threshold r)"
      "rt_severity r" "rt_unit r" "topSource (sources_of (rt_kind r) tops) (rt_kind r = ''bandwidth_spike'')" "bt_SentAt b" rel]
  by (auto simp: observe_rate_def Let_def keeps_refl split: prod.split option.split)

lemma rate_fold_keeps:
  "net_inv n \<Longrightarrow> keeps n (snd (snd (fold (observe_rate ids b tops rel) rs (es, s, n))))"
proof (induction rs arbitrary: es s n)
  case (Cons r rs)
  obtain es' s' n' where step: "observe_rate ids b tops rel r (es, s, n) = (es', s', n')" by (metis prod_cases3)
  then have "keeps n n'" using observe_rate_keeps [OF Cons.prems, of ids b tops rel r es s] by simp
  then show ?case using Cons.IH [of n' es' s'] keeps_inv keeps_trans step by auto
qed (simp add: keeps_refl)

lemma set_emitted_keeps:
  assumes "net_inv n" "map_of (nw_scans n) s = Some st"
  shows "keeps n (n\<lparr>nw_scans := AList.update s (st\<lparr>sc_emitted := True\<rparr>) (nw_scans n), nw_draws := k\<rparr>)"
proof -
  have "ports_total (AList.update s (st\<lparr>sc_emitted := True\<rparr>) (nw_scans n)) = ports_total (nw_scans n)"
    using ports_total_update [of s "st\<lparr>sc_emitted := True\<rparr>" "nw_scans n"] assms(2) by simp
  moreover have "distinct (sc_ports st)" using assms by (auto simp: net_inv_def dest: map_of_SomeD)
  moreover have "int (length (AList.update s (st\<lparr>sc_emitted := True\<rparr>) (nw_scans n))) \<le> max 0 (nw_scanLimit n)"
    using set_scan_inv [OF assms(1)] assms(2) by blast
  ultimately show ?thesis
    using assms set_update_subset [of s "st\<lparr>sc_emitted := True\<rparr>" "nw_scans n"]
    by (auto simp: keeps_def net_inv_def held_elsewhere_def)
qed

text \<open>The loop of \<open>scanEvents\<close> sees every entry as it is in the map.\<close>

definition current :: "(string \<times> scan_state) list \<Rightarrow> network \<Rightarrow> bool" where
  "current rest n \<longleftrightarrow> keys_distinct rest \<and> (\<forall>(s, st)\<in>set rest. map_of (nw_scans n) s = Some st)"

lemma current_step:
  assumes "current ((s, st) # rest) n" "\<And>s'. s' \<noteq> s \<Longrightarrow> map_of (nw_scans n') s' = map_of (nw_scans n) s'"
  shows "current rest n'"
  using assms by (fastforce simp: current_def image_iff)

lemma scan_loop_keeps:
  "net_inv n \<Longrightarrow> current rest n \<Longrightarrow> keeps n (snd (scan_loop ids t rest n))"
proof (induction rest arbitrary: n)
  case (Cons p rest)
  obtain s st where p: "p = (s, st)" by (cases p)
  have look: "map_of (nw_scans n) s = Some st" using Cons.prems(2) p by (simp add: current_def)
  let ?m = "n\<lparr>nw_scans := AList.update s (st\<lparr>sc_emitted := True\<rparr>) (nw_scans n), nw_draws := nw_draws n + 2\<rparr>"
  have "keeps (deleteScan s n) (snd (scan_loop ids t rest (deleteScan s n)))" "keeps n (deleteScan s n)"
    using Cons.IH [of "deleteScan s n"] deleteScan_keeps [OF Cons.prems(1), of s] keeps_inv
      current_step [OF Cons.prems(2) [unfolded p], of "deleteScan s n"] by (auto simp: deleteScan_lookup)
  moreover have "keeps ?m (snd (scan_loop ids t rest ?m))" "keeps n ?m"
    using Cons.IH [of ?m] set_emitted_keeps [OF Cons.prems(1) look] keeps_inv
      current_step [OF Cons.prems(2) [unfolded p], of ?m] by (auto simp: map_of_update)
  moreover have "keeps n (snd (scan_loop ids t rest n))"
    using Cons.IH [OF Cons.prems(1)] current_step [OF Cons.prems(2) [unfolded p], of n] by simp
  ultimately show ?case
    unfolding p by (auto simp: Let_def case_prod_beta intro: keeps_trans)
qed (simp add: keeps_refl)

lemma current_all: "net_inv n \<Longrightarrow> current (nw_scans n) n"
  by (auto simp: current_def net_inv_def map_of_iff_in)

lemma scanEvents_keeps: "net_inv n \<Longrightarrow> keeps n (snd (scanEvents ids t n))"
  unfolding scanEvents_def by (rule scan_loop_keeps [OF _ current_all])

text \<open>The stages of \<open>Observe\<close>, named.\<close>

definition after_flows :: "batch \<Rightarrow> network \<Rightarrow> (string \<times> sources) list \<times> network" where
  "after_flows b n = fold (observe_inbound b) (bt_Flows b) ([], begin_batch b (continuous b n) n)"

definition reliable_window :: "batch \<Rightarrow> network \<Rightarrow> bool" where
  "reliable_window b n \<longleftrightarrow> (let m = snd (after_flows b n) in
     \<not> nw_continuityReset m \<and> continuous b n \<and> complete_batch b \<and>
     ns_ScanIgnoredPackets (nw_stats m) = ns_ScanIgnoredPackets (nw_stats (begin_batch b (continuous b n) n)) \<and>
     ns_UDPRequestIgnoredPackets (nw_stats m) = ns_UDPRequestIgnoredPackets (nw_stats n) \<and>
     \<not> ns_CountersSaturated (nw_stats m))"

definition after_rates :: "(nat \<Rightarrow> string) \<Rightarrow> batch \<Rightarrow> network \<Rightarrow> event list \<times> bool \<times> network" where
  "after_rates ids b n = (let (tops, m) = after_flows b n in
     fold (observe_rate ids b tops (reliable_window b n)) (batch_rates b (nw_config m))
       ([], False, m\<lparr>nw_continuityReset := False\<rparr>))"

definition after_suppression :: "(nat \<Rightarrow> string) \<Rightarrow> batch \<Rightarrow> network \<Rightarrow> network" where
  "after_suppression ids b n = (let (es, suppressed, m) = after_rates ids b n in
     if suppressed then addCounter ns_RecoverySuppressedBatches ns_RecoverySuppressedBatches_update 1 m else m)"

lemma Network_Observe_stages:
  "Network_Observe ids b n =
     (if fle (fdiv (f64_of_int (bt_IntervalMillis b)) (f64_of_int 1000)) (Fin 0) then ([], n)
      else (fst (after_rates ids b n) @ map (set_evidence ''coverage_complete''
          (Bool (\<not> bt_SentAt b < nw_scanUncertainUntil (snd (scanEvents ids (bt_SentAt b) (after_suppression ids b n))))))
          (fst (scanEvents ids (bt_SentAt b) (after_suppression ids b n))),
        snd (scanEvents ids (bt_SentAt b) (after_suppression ids b n))))"
  by (simp add: Network_Observe_def after_suppression_def after_rates_def reliable_window_def after_flows_def
      Let_def case_prod_beta)

lemma Network_Observe_keeps:
  assumes inv: "net_inv n"
  shows "keeps n (snd (Network_Observe ids b n))"
proof -
  let ?m = "snd (after_flows b n)" and ?r = "snd (snd (after_rates ids b n))" and ?s = "after_suppression ids b n"
  have 1: "keeps n ?m"
    unfolding after_flows_def
    using begin_batch_keeps [OF inv] inbound_fold_keeps keeps_inv keeps_trans by blast
  have 2: "keeps ?m (?m\<lparr>nw_continuityReset := False\<rparr>)" using keeps_inv [OF 1] by (rule keeps_frame) simp_all
  have 3: "keeps (?m\<lparr>nw_continuityReset := False\<rparr>) ?r"
    unfolding after_rates_def using rate_fold_keeps [OF keeps_inv [OF 2]] by (simp add: case_prod_beta Let_def)
  have 4: "keeps ?r ?s"
    unfolding after_suppression_def using keeps_inv [OF 3] by (simp add: case_prod_beta Let_def addCounter_keeps keeps_refl)
  have "keeps n (snd (scanEvents ids (bt_SentAt b) ?s))"
    using keeps_trans [OF 1 keeps_trans [OF 2 keeps_trans [OF 3 keeps_trans [OF 4 scanEvents_keeps [OF keeps_inv [OF 4]]]]]] .
  then show ?thesis unfolding Network_Observe_stages using inv by (simp add: keeps_refl)
qed

lemma ResetContinuity_keeps: "net_inv n \<Longrightarrow> keeps n (ResetContinuity n)"
  by (simp add: ResetContinuity_def keeps_def net_inv_def held_elsewhere_def)

lemma releaseScanState_keeps: "net_inv n \<Longrightarrow> keeps n (releaseScanState n)"
  unfolding releaseScanState_def by (intro keeps_fold deleteScan_keeps)

lemma newNetworkLimits_inv: "net_inv (newNetworkLimits c s u)"
  by (simp add: newNetworkLimits_def net_inv_def ports_total_def maxScanPortEntries_def)

section \<open>Runs of one detector\<close>

inductive network_reachable :: "detection_config \<Rightarrow> int \<Rightarrow> int \<Rightarrow> network \<Rightarrow> bool"
  for cfg scans udp where
  start: "network_reachable cfg scans udp (newNetworkLimits cfg scans udp)"
| observe: "network_reachable cfg scans udp n \<Longrightarrow> network_reachable cfg scans udp (snd (Network_Observe ids b n))"
| reset: "network_reachable cfg scans udp n \<Longrightarrow> network_reachable cfg scans udp (ResetContinuity n)"

lemma network_reachable_inv:
  "network_reachable cfg scans udp n \<Longrightarrow>
     net_inv n \<and> held_elsewhere n = 0 \<and> bg_limit (nw_budget n) = maxScanPortEntries \<and>
     nw_scanLimit n = scans \<and> nw_udpLimit n = udp"
proof (induction rule: network_reachable.induct)
  case start
  then show ?case
    using newNetworkLimits_inv [of cfg scans udp] by (simp add: newNetworkLimits_def held_elsewhere_def)
next
  case (observe n ids b)
  then show ?case using Network_Observe_keeps [of n ids b] by (auto simp: keeps_def)
next
  case (reset n)
  then show ?case using ResetContinuity_keeps [of n] by (auto simp: keeps_def)
qed

text \<open>C33: whatever batches arrive, a detector's tables stay within their limits, and the port budget
  in use is exactly the number of ports remembered over all sources.\<close>

theorem network_bounds:
  assumes "network_reachable cfg scans udp n" and "0 \<le> scans" and "0 \<le> udp"
  shows "int (length (nw_scans n)) \<le> scans \<and> int (length (nw_udpRequests n)) \<le> udp \<and>
    bg_used (nw_budget n) = int (\<Sum>(s, st)\<leftarrow>nw_scans n. card (set (sc_ports st))) \<and>
    bg_used (nw_budget n) \<le> maxScanPortEntries"
proof -
  note inv = network_reachable_inv [OF assms(1)]
  have "map (\<lambda>(s, st). card (set (sc_ports st))) (nw_scans n) = map ((\<lambda>st. length (sc_ports st)) \<circ> snd) (nw_scans n)"
    using inv by (auto simp: net_inv_def distinct_card)
  then have "(\<Sum>(s, st)\<leftarrow>nw_scans n. card (set (sc_ports st))) = ports_total (nw_scans n)"
    unfolding ports_total_def al_sum_def by (rule arg_cong)
  then show ?thesis using inv assms(2,3) by (auto simp: net_inv_def held_elsewhere_def)
qed

definition sample_detection :: detection_config where
  "sample_detection = \<lparr>dc_SYNPacketsPerSecond = 5000, dc_UDPPacketsPerSecond = 10000,
     dc_ICMPPacketsPerSecond = 2000, dc_BytesPerSecond = 0, dc_RecoveryRatio = Fin (1 / 2),
     dc_RecoveryWindows = 3, dc_UpdateInterval = 5 * minute, dc_ScanUniquePorts = 2,
     dc_ScanWindow = minute\<rparr>"

theorem network_bounds_witness:
  "int (length (nw_scans (NewNetwork sample_detection))) \<le> 8192"
  using network_bounds [OF network_reachable.start, of 8192 16384 sample_detection]
  by (simp add: NewNetwork_def maxScanSources_def maxUDPRequestTuples_def)

section \<open>The life of an incident\<close>

text \<open>A history of windows of one kind: the rate, whether the window was reliable, and its time.\<close>

type_synonym windows = "(f64 \<times> bool \<times> time) list"

definition flood_after :: "(nat \<Rightarrow> string) \<Rightarrow> string \<Rightarrow> f64 \<Rightarrow> severity \<Rightarrow> string \<Rightarrow> flow \<Rightarrow> windows \<Rightarrow> network \<Rightarrow> network" where
  "flood_after ids kind th sev unit f ws n =
     fold (\<lambda>(v, reliable, t) n. snd (observeFlood ids kind v th sev unit f t reliable n)) ws n"

definition quiet_window :: "f64 \<Rightarrow> f64 \<Rightarrow> f64 \<times> bool \<times> time \<Rightarrow> bool" where
  "quiet_window th ratio w = (case w of (v, reliable, t) \<Rightarrow> reliable \<and> \<not> fle th v \<and> fless v (fmul th ratio))"

lemma observeFlood_config [simp]:
  "nw_config (snd (observeFlood ids kind v th sev unit f t rel n)) = nw_config n"
  by (simp add: observeFlood_def set_flood_def Let_def split: option.split)

lemma observeFlood_quiet:
  assumes "map_of (nw_floods (snd (observeFlood ids kind v th sev unit f t rel n))) kind = Some st"
  shows "fd_quiet st \<le> 0 \<or> quiet_window th (dc_RecoveryRatio (nw_config n)) (v, rel, t) \<and>
    (\<exists>st0. map_of (nw_floods n) kind = Some st0 \<and> fd_quiet st = fd_quiet st0 + 1)"
  using assms
  by (auto simp: observeFlood_def set_flood_def quiet_window_def Let_def map_of_update map_of_delete
      split: option.splits if_splits)

lemma flood_after_config [simp]: "nw_config (flood_after ids kind th sev unit f ws n) = nw_config n"
  unfolding flood_after_def by (induction ws arbitrary: n) auto

lemma flood_after_quiet:
  assumes "map_of (nw_floods n) kind = None"
    and "map_of (nw_floods (flood_after ids kind th sev unit f ws n)) kind = Some st"
  shows "fd_quiet st \<le> int (length (takeWhile (quiet_window th (dc_RecoveryRatio (nw_config n))) (rev ws)))"
  using assms(2)
proof (induction ws arbitrary: st rule: rev_induct)
  case Nil
  then show ?case using assms(1) by (simp add: flood_after_def)
next
  case (snoc w ws)
  obtain v rel t where w: "w = (v, rel, t)" by (cases w)
  let ?m = "flood_after ids kind th sev unit f ws n"
  have "map_of (nw_floods (snd (observeFlood ids kind v th sev unit f t rel ?m))) kind = Some st"
    using snoc.prems by (simp add: flood_after_def w)
  from observeFlood_quiet [OF this] snoc.IH show ?case by (force simp: w)
qed

text \<open>C24: a recovery is reported only after as many consecutive reliable quiet windows as configured,
  for the incident that was open, and closes it.\<close>

theorem recovery_after_quiet_windows:
  assumes "map_of (nw_floods n) kind = None"
    and "observeFlood ids kind v th sev unit f t reliable (flood_after ids kind th sev unit f ws n) = (Some e, n')"
    and "ev_Phase e = ''recovery''"
  shows "dc_RecoveryWindows (nw_config n) \<le>
      int (length (takeWhile (quiet_window th (dc_RecoveryRatio (nw_config n))) (rev (ws @ [(v, reliable, t)])))) \<and>
    map_of (nw_floods n') kind = None \<and>
    (\<exists>st. map_of (nw_floods (flood_after ids kind th sev unit f ws n)) kind = Some st \<and>
       ev_IncidentID e = fd_incidentID st)"
proof -
  let ?m = "flood_after ids kind th sev unit f ws n"
  have phases: "ev_Phase (floodEvent ids k kind p st v th s unit f t) = p" for k p st s
    by (simp add: floodEvent_def Let_def)
  have inc: "ev_IncidentID (floodEvent ids k kind p st v th s unit f t) = fd_incidentID st" for k p st s
    by (simp add: floodEvent_def Let_def)
  obtain st where st: "map_of (nw_floods ?m) kind = Some st"
    and q: "reliable" "\<not> fle th v" "fless v (fmul th (dc_RecoveryRatio (nw_config n)))"
      "dc_RecoveryWindows (nw_config n) \<le> fd_quiet st + 1"
    and e: "ev_IncidentID e = fd_incidentID st" and n': "nw_floods n' = AList.delete kind (nw_floods ?m)"
    using assms(2,3) by (auto simp: observeFlood_def Let_def phases inc split: option.splits if_splits)
  have "fd_quiet st \<le> int (length (takeWhile (quiet_window th (dc_RecoveryRatio (nw_config n))) (rev ws)))"
    using flood_after_quiet [OF assms(1) st] .
  then show ?thesis using q st e n' by (simp add: quiet_window_def map_of_delete)
qed

definition sample_windows :: windows where
  "sample_windows = [(Fin 6000, True, 10 * second), (Fin 100, True, 11 * second), (Fin 100, True, 12 * second)]"

definition sample_ids :: "nat \<Rightarrow> string" where
  "sample_ids k = replicate k CHR ''x''"

definition sample_recovery :: "event option \<times> network" where
  "sample_recovery = observeFlood sample_ids ''syn_flood'' (Fin 100) (Fin 5000) SeverityHigh ''pps'' empty_flow (13 * second) True
     (flood_after sample_ids ''syn_flood'' (Fin 5000) SeverityHigh ''pps'' empty_flow sample_windows (NewNetwork sample_detection))"

theorem recovery_after_quiet_windows_witness:
  "map_of (nw_floods (snd sample_recovery)) ''syn_flood'' = None \<and> map_option ev_Phase (fst sample_recovery) = Some ''recovery''"
proof -
  have r: "map_option ev_Phase (fst sample_recovery) = Some ''recovery''" by code_simp
  then obtain e where e: "fst sample_recovery = Some e" "ev_Phase e = ''recovery''" by auto
  have "map_of (nw_floods (NewNetwork sample_detection)) ''syn_flood'' = None" by code_simp
  from recovery_after_quiet_windows [OF this, of sample_ids "Fin 100" "Fin 5000" SeverityHigh "''pps''" empty_flow
      "13 * second" True sample_windows e "snd sample_recovery"] e r
  show ?thesis by (simp add: sample_recovery_def prod_eq_iff)
qed

section \<open>Scan events\<close>

text \<open>A scan that may be reported now.\<close>

definition reportable :: "time \<Rightarrow> network \<Rightarrow> scan_state \<Rightarrow> bool" where
  "reportable t n st \<longleftrightarrow> \<not> sc_emitted st \<and> dc_ScanUniquePorts (nw_config n) \<le> int (length (sc_ports st)) \<and>
     time_sub t (sc_last st) \<le> dc_ScanWindow (nw_config n)"

lemma scan_loop_events:
  "net_inv n \<Longrightarrow> current rest n \<Longrightarrow>
     map ev_SourceIP (fst (scan_loop ids t rest n)) = map fst (filter (\<lambda>(s, st). reportable t n st) rest) \<and>
     (\<forall>e\<in>set (fst (scan_loop ids t rest n)). ev_Kind e = ''port_scan'') \<and>
     (\<forall>s. s \<notin> fst ` set rest \<longrightarrow> map_of (nw_scans (snd (scan_loop ids t rest n))) s = map_of (nw_scans n) s) \<and>
     (\<forall>(s, st)\<in>set rest. map_of (nw_scans (snd (scan_loop ids t rest n))) s =
        (if time_sub t (sc_last st) \<le> dc_ScanWindow (nw_config n)
         then Some (if reportable t n st then st\<lparr>sc_emitted := True\<rparr> else st) else None))"
proof (induction rest arbitrary: n)
  case (Cons p rest)
  obtain s st where p: "p = (s, st)" by (cases p)
  have look: "map_of (nw_scans n) s = Some st" and new: "s \<notin> fst ` set rest" using Cons.prems(2) p by (auto simp: current_def)
  consider (old) "dc_ScanWindow (nw_config n) < time_sub t (sc_last st)"
    | (new) "time_sub t (sc_last st) \<le> dc_ScanWindow (nw_config n)" "reportable t n st"
    | (other) "time_sub t (sc_last st) \<le> dc_ScanWindow (nw_config n)" "\<not> reportable t n st" by linarith
  then show ?case
  proof cases
    case old
    have same: "reportable t (deleteScan s n) = reportable t n" by (simp add: reportable_def fun_eq_iff)
    have c: "current rest (deleteScan s n)"
      using current_step [OF Cons.prems(2) [unfolded p], of "deleteScan s n"] by (simp add: deleteScan_lookup)
    have "net_inv (deleteScan s n)" using deleteScan_keeps [OF Cons.prems(1)] keeps_inv by blast
    from Cons.IH [OF this c] old new show ?thesis
      unfolding p same by (auto simp: deleteScan_lookup reportable_def)
  next
    case 2: new
    let ?m = "n\<lparr>nw_scans := AList.update s (st\<lparr>sc_emitted := True\<rparr>) (nw_scans n), nw_draws := nw_draws n + 2\<rparr>"
    have same: "reportable t ?m = reportable t n" by (simp add: reportable_def fun_eq_iff)
    have c: "current rest ?m"
      using current_step [OF Cons.prems(2) [unfolded p], of ?m] by (simp add: map_of_update)
    have "net_inv ?m" using set_emitted_keeps [OF Cons.prems(1) look] keeps_inv by blast
    from Cons.IH [OF this c] 2 new show ?thesis
      unfolding p same by (auto simp: map_of_update reportable_def scan_event_def Let_def case_prod_beta)
  next
    case other
    have c: "current rest n" using current_step [OF Cons.prems(2) [unfolded p], of n] by simp
    from Cons.IH [OF Cons.prems(1) c] other new look show ?thesis
      unfolding p by (auto simp: reportable_def)
  qed
qed simp

text \<open>C25: a scan is reported exactly for the sources that probed at least the configured number of
  distinct ports within the window and were not reported before; it is reported once, because the
  source is then marked.\<close>

theorem scan_events_exact:
  assumes inv: "net_inv n"
  shows "set (map ev_SourceIP (fst (scanEvents ids t n))) =
      {s. \<exists>st. map_of (nw_scans n) s = Some st \<and> reportable t n st} \<and>
    (\<forall>s st. map_of (nw_scans (snd (scanEvents ids t n))) s = Some st \<longrightarrow>
       \<not> reportable t n st \<and> int (card (set (sc_ports st))) = int (length (sc_ports st)))"
proof -
  note loop = scan_loop_events [OF inv current_all [OF inv], of ids t]
  have kd: "keys_distinct (nw_scans n)" using inv by (simp add: net_inv_def)
  have "set (map ev_SourceIP (fst (scanEvents ids t n))) = {s. \<exists>st. map_of (nw_scans n) s = Some st \<and> reportable t n st}"
    using loop map_of_iff_in [OF kd] unfolding scanEvents_def by (auto simp: image_iff)
  moreover have "\<not> reportable t n st \<and> distinct (sc_ports st)"
    if l: "map_of (nw_scans (snd (scanEvents ids t n))) s = Some st" for s st
  proof
    have "s \<in> fst ` set (nw_scans n)"
      using l loop unfolding scanEvents_def by (metis map_of_eq_None_iff option.distinct(1))
    then obtain st0 where m: "(s, st0) \<in> set (nw_scans n)" by auto
    then show "\<not> reportable t n st"
      using l loop unfolding scanEvents_def by (fastforce simp: reportable_def split: if_splits)
    have "net_inv (snd (scanEvents ids t n))" using scanEvents_keeps [OF inv] keeps_inv by blast
    then show "distinct (sc_ports st)" using l by (auto simp: net_inv_def dest: map_of_SomeD)
  qed
  ultimately show ?thesis by (auto simp: distinct_card)
qed

definition sample_scan_batch :: batch where
  "sample_scan_batch = empty_batch\<lparr>bt_ProtocolVersion := 5, bt_SentAt := 100 * second, bt_IntervalMillis := 1000,
     bt_Interface := ''eth0'',
     bt_Flows := map (\<lambda>p. empty_flow\<lparr>fl_Direction := DirectionInbound, fl_RemoteIP := ''10.0.0.9'',
       fl_Protocol := ''tcp'', fl_LocalPort := p, fl_TCPFlags := 2, fl_Packets := 1, fl_Bytes := 60\<rparr>) [22, 80]\<rparr>"

definition sample_scanned :: network where
  "sample_scanned = snd (after_flows sample_scan_batch (NewNetwork sample_detection))"

theorem scan_events_exact_witness:
  "set (map ev_SourceIP (fst (scanEvents sample_ids (100 * second) sample_scanned))) = {''10.0.0.9''}"
proof -
  have "net_inv (NewNetwork sample_detection)" by (simp add: NewNetwork_def newNetworkLimits_inv)
  then have inv: "net_inv sample_scanned"
    unfolding sample_scanned_def after_flows_def
    using begin_batch_keeps inbound_fold_keeps keeps_inv by blast
  have "nw_scans sample_scanned = [(''10.0.0.9'', \<lparr>sc_started = 100 * second, sc_last = 100 * second,
      sc_ports = [22, 80], sc_packets = 2, sc_emitted = False\<rparr>)]"
    by code_simp
  moreover have "reportable (100 * second) sample_scanned \<lparr>sc_started = 100 * second, sc_last = 100 * second,
      sc_ports = [22, 80], sc_packets = 2, sc_emitted = False\<rparr>"
    by code_simp
  ultimately show ?thesis
    using scan_events_exact [OF inv, of sample_ids "100 * second"] by auto
qed

section \<open>The leading source\<close>

text \<open>Sources of a batch are keyed by their own, nonempty address.\<close>

definition sources_ok :: "sources \<Rightarrow> bool" where
  "sources_ok s \<longleftrightarrow> keys_distinct s \<and> (\<forall>(ip, f)\<in>set s. fl_RemoteIP f = ip \<and> ip \<noteq> [])"

definition leads :: "bool \<Rightarrow> flow \<Rightarrow> flow \<Rightarrow> bool" where
  "leads byBytes f g \<longleftrightarrow> source_value byBytes g < source_value byBytes f \<or>
     source_value byBytes f = source_value byBytes g \<and> string_less (fl_RemoteIP f) (fl_RemoteIP g)"

lemma leads_trans: "leads b f g \<Longrightarrow> leads b g h \<Longrightarrow> leads b f h"
  by (auto simp: leads_def intro: string_less_trans)

lemma leads_asym: "leads b f g \<Longrightarrow> \<not> leads b g f"
  unfolding leads_def using string_less_trans string_less_irrefl less_asym by (metis less_irrefl)

lemma leads_total: "fl_RemoteIP f \<noteq> fl_RemoteIP g \<Longrightarrow> leads b f g \<or> leads b g f"
  unfolding leads_def using string_less_linear by (metis linorder_neqE)

lemma better_source_leads:
  "fl_RemoteIP g \<noteq> [] \<Longrightarrow> better_source b f g = leads b f g"
  by (simp add: better_source_def leads_def)

lemma leads_strict_total:
  assumes "distinct (map fl_RemoteIP fs)"
  shows "strict_total_on (set fs) (leads b)"
proof -
  have "x = y \<or> leads b x y \<or> leads b y x" if "x \<in> set fs" "y \<in> set fs" for x y
    using assms that leads_total [of x y b] by (auto simp: distinct_map inj_on_def)
  then show ?thesis using leads_trans leads_asym unfolding strict_total_on_def by meson
qed

lemma topSource_leads:
  assumes "sources_ok s" "s \<noteq> []"
  shows "topSource s b \<in> snd ` set s \<and> (\<forall>(ip, f)\<in>set s. f = topSource s b \<or> leads b (topSource s b) f)"
proof -
  obtain ip g s' where s: "s = (ip, g) # s'" using assms(2) by (cases s) auto
  have eq: "topSource s b = fold (\<lambda>f best. if better_source b f best then f else best) (map snd s') g"
  proof -
    have "better_source b g empty_flow"
      using word_gt_0 [of "source_value b g"]
      by (cases "source_value b g = 0") (auto simp: better_source_def source_value_def empty_flow_def)
    then have "topSource s b = fold (\<lambda>(ip, source) best. if better_source b source best then source else best) s' g"
      by (simp add: topSource_def s)
    also have "\<dots> = fold (\<lambda>f best. if better_source b f best then f else best) (map snd s') g"
      by (induction s' arbitrary: g) (auto simp: case_prod_beta)
    finally show ?thesis .
  qed
  have ips: "map fl_RemoteIP (map snd s) = map fst s"
    using assms(1) by (auto simp: sources_ok_def)
  have "distinct (map fl_RemoteIP (map snd s))"
    unfolding ips using assms(1) by (simp add: sources_ok_def keys_distinct_def)
  then have "distinct (map fl_RemoteIP (g # map snd s'))" by (simp add: s)
  moreover have "\<forall>f\<in>set (g # map snd s'). fl_RemoteIP f \<noteq> []"
    using assms(1) by (auto simp: sources_ok_def s)
  ultimately have led: "topSource s b \<in> set (g # map snd s')"
    "\<forall>f\<in>set (g # map snd s'). f = topSource s b \<or> leads b (topSource s b) f"
    using fold_best [OF leads_strict_total, of g "map snd s'" "better_source b" b] better_source_leads
    unfolding eq by blast+
  have flows: "set (g # map snd s') = snd ` set s" by (simp add: s)
  show ?thesis using led unfolding flows by fastforce
qed

text \<open>The source named in a rate event is the one with the largest count (the smallest address
  among equals), whatever the iteration order of the map.\<close>

theorem topSource_order_independent:
  assumes "sources_ok s" and "mset s' = mset s" and "s \<noteq> []"
  shows "topSource s' byBytes = topSource s byBytes \<and> topSource s byBytes \<in> snd ` set s \<and>
    (\<forall>(ip, f)\<in>set s. source_value byBytes f \<le> source_value byBytes (topSource s byBytes))"
proof -
  have sets: "set s' = set s" using assms(2) by (metis set_mset_mset)
  have "mset (map fst s') = mset (map fst s)" using assms(2) by simp
  then have "sources_ok s'" using assms(1) sets mset_eq_imp_distinct_iff [of "map fst s'" "map fst s"]
    by (simp add: sources_ok_def keys_distinct_def)
  moreover have "s' \<noteq> []" using assms(2,3) by auto
  ultimately have t': "topSource s' byBytes \<in> snd ` set s" "\<forall>(ip, f)\<in>set s. f = topSource s' byBytes \<or> leads byBytes (topSource s' byBytes) f"
    using topSource_leads [of s' byBytes] sets by auto
  have t: "topSource s byBytes \<in> snd ` set s" "\<forall>(ip, f)\<in>set s. f = topSource s byBytes \<or> leads byBytes (topSource s byBytes) f"
    using topSource_leads [OF assms(1,3)] by auto
  have "topSource s' byBytes = topSource s byBytes"
    using t t' leads_asym by fastforce
  moreover have "source_value byBytes f \<le> source_value byBytes (topSource s byBytes)" if "(ip, f) \<in> set s" for ip f
    using t(2) that by (fastforce simp: leads_def)
  ultimately show ?thesis using t(1) by auto
qed

definition sample_source :: "string \<Rightarrow> uint64 \<Rightarrow> string \<times> flow" where
  "sample_source ip n = (ip, empty_flow\<lparr>fl_RemoteIP := ip, fl_Packets := n, fl_Bytes := n\<rparr>)"

theorem topSource_order_independent_witness:
  "topSource [sample_source ''10.0.0.2'' 7, sample_source ''10.0.0.1'' 7] False =
   topSource [sample_source ''10.0.0.1'' 7, sample_source ''10.0.0.2'' 7] False"
  using topSource_order_independent [of "[sample_source ''10.0.0.1'' 7, sample_source ''10.0.0.2'' 7]"
      "[sample_source ''10.0.0.2'' 7, sample_source ''10.0.0.1'' 7]" False]
  by (simp add: sources_ok_def sample_source_def)

section \<open>Replies to requests of the host\<close>

lemma addCounter_requests [simp]: "nw_udpRequests (addCounter g p v n) = nw_udpRequests n"
  by (simp add: addCounter_def)

lemma deleteScan_requests [simp]: "nw_udpRequests (deleteScan s n) = nw_udpRequests n"
  by (simp add: deleteScan_def split: option.split)

lemma observePort_requests [simp]: "nw_udpRequests (observePort f t n) = nw_udpRequests n"
proof -
  have "nw_udpRequests (record_port f t st m) = nw_udpRequests m" for st m
    by (rule record_port_cases [of f t st m]) auto
  then show ?thesis by (simp add: observePort_def Let_def split: option.split)
qed

lemma inbound_requests [simp]:
  "nw_udpRequests (snd (fold (observe_inbound b) fs tn)) = nw_udpRequests (snd tn)"
proof (induction fs arbitrary: tn)
  case (Cons f fs)
  have "nw_udpRequests (snd (observe_inbound b f tn)) = nw_udpRequests (snd tn)"
    by (cases tn) (simp add: observe_inbound_def observe_udp_def Let_def)
  then show ?case using Cons.IH by simp
qed simp

definition tuple_of :: "string \<Rightarrow> flow \<Rightarrow> udp_tuple" where
  "tuple_of iface f = \<lparr>ut_iface = iface, ut_remoteIP = fl_RemoteIP f, ut_localPort = fl_LocalPort f,
     ut_remotePort = fl_RemotePort f\<rparr>"

lemma addCounter_changes:
  "v \<noteq> 0 \<Longrightarrow> \<not> ns_CountersSaturated (nw_stats (addCounter ns_UDPRequestIgnoredPackets ns_UDPRequestIgnoredPackets_update v n)) \<Longrightarrow>
     ns_UDPRequestIgnoredPackets (nw_stats n) < ns_UDPRequestIgnoredPackets (nw_stats (addCounter ns_UDPRequestIgnoredPackets ns_UDPRequestIgnoredPackets_update v n))"
proof -
  let ?c = "ns_UDPRequestIgnoredPackets (nw_stats n)"
  assume v: "v \<noteq> 0" and ns: "\<not> ns_CountersSaturated (nw_stats (addCounter ns_UDPRequestIgnoredPackets ns_UDPRequestIgnoredPackets_update v n))"
  then have le: "\<not> max_uint64 - ?c < v" by (auto simp: addCounter_def split: if_splits)
  then have "unat ?c + unat v < 2 ^ 64"
    using unat_uint64_bound [of ?c] by (simp add: word_less_nat_alt counter_simps)
  then have "unat (?c + v) = unat ?c + unat v" by (simp add: unat_add_small)
  moreover have "0 < unat v" using v by (simp add: unat_gt_0)
  ultimately show ?thesis using le by (simp add: addCounter_def word_less_nat_alt)
qed

lemma rememberUDP_remembers:
  assumes "zero_time < t" "fl_Packets f \<noteq> 0"
    and "\<not> ns_CountersSaturated (nw_stats (rememberUDP f i t n))"
    and "ns_UDPRequestIgnoredPackets (nw_stats (rememberUDP f i t n)) = ns_UDPRequestIgnoredPackets (nw_stats n)"
  shows "map_of (nw_udpRequests (rememberUDP f i t n)) (tuple_of i f) \<noteq> None"
  using assms addCounter_changes [OF assms(2), of n]
  by (auto simp: rememberUDP_def tuple_of_def Let_def map_of_update split: option.splits if_splits)

lemma observe_request_mono:
  "map_of (nw_udpRequests n) k \<noteq> None \<Longrightarrow> map_of (nw_udpRequests (observe_request b f n)) k \<noteq> None"
  by (auto simp: observe_request_def rememberUDP_def Let_def map_of_update)

lemma addCounter_le:
  "ns_UDPRequestIgnoredPackets (nw_stats n) \<le> ns_UDPRequestIgnoredPackets (nw_stats
     (addCounter ns_UDPRequestIgnoredPackets ns_UDPRequestIgnoredPackets_update v n))"
  "ns_CountersSaturated (nw_stats n) \<Longrightarrow> ns_CountersSaturated (nw_stats (addCounter ns_UDPRequestIgnoredPackets ns_UDPRequestIgnoredPackets_update v n))"
proof -
  let ?c = "ns_UDPRequestIgnoredPackets (nw_stats n)"
  have "?c \<le> saturating_add ?c v" by (rule saturating_add_mono)
  then show "?c \<le> ns_UDPRequestIgnoredPackets (nw_stats (addCounter ns_UDPRequestIgnoredPackets ns_UDPRequestIgnoredPackets_update v n))"
    by (auto simp: addCounter_def saturating_add_def split: if_splits)
  show "ns_CountersSaturated (nw_stats n) \<Longrightarrow> ns_CountersSaturated (nw_stats (addCounter ns_UDPRequestIgnoredPackets ns_UDPRequestIgnoredPackets_update v n))"
    by (simp add: addCounter_def)
qed

lemma observe_request_le:
  "ns_UDPRequestIgnoredPackets (nw_stats n) \<le> ns_UDPRequestIgnoredPackets (nw_stats (observe_request b f n)) \<and>
   (ns_CountersSaturated (nw_stats n) \<longrightarrow> ns_CountersSaturated (nw_stats (observe_request b f n)))"
  using addCounter_le [of n] by (auto simp: observe_request_def rememberUDP_def Let_def)

lemma request_fold_le:
  "ns_UDPRequestIgnoredPackets (nw_stats n) \<le> ns_UDPRequestIgnoredPackets (nw_stats (fold (observe_request b) fs n)) \<and>
   (ns_CountersSaturated (nw_stats n) \<longrightarrow> ns_CountersSaturated (nw_stats (fold (observe_request b) fs n)))"
proof (induction fs arbitrary: n)
  case (Cons f fs)
  show ?case using Cons.IH [of "observe_request b f n"] observe_request_le [of n b f] by (auto intro: order_trans)
qed simp

lemma request_fold_mono:
  "map_of (nw_udpRequests n) k \<noteq> None \<Longrightarrow> map_of (nw_udpRequests (fold (observe_request b) fs n)) k \<noteq> None"
  by (induction fs arbitrary: n) (use observe_request_mono in auto)

lemma request_fold_remembers:
  assumes "f \<in> set fs" "fl_Direction f = DirectionOutbound" "fl_Protocol f = ''udp''"
    and "fl_LocalPort f \<noteq> 0" "fl_RemotePort f \<noteq> 0" "fl_Packets f \<noteq> 0" "zero_time < bt_SentAt b"
    and "\<not> ns_CountersSaturated (nw_stats (fold (observe_request b) fs n))"
    and "ns_UDPRequestIgnoredPackets (nw_stats (fold (observe_request b) fs n)) = ns_UDPRequestIgnoredPackets (nw_stats n)"
  shows "map_of (nw_udpRequests (fold (observe_request b) fs n)) (tuple_of (bt_Interface b) f) \<noteq> None"
  using assms(1,8,9)
proof (induction fs arbitrary: n)
  case (Cons g fs)
  let ?m = "observe_request b g n"
  have le: "ns_UDPRequestIgnoredPackets (nw_stats n) \<le> ns_UDPRequestIgnoredPackets (nw_stats ?m)"
    "ns_UDPRequestIgnoredPackets (nw_stats ?m) \<le> ns_UDPRequestIgnoredPackets (nw_stats (fold (observe_request b) fs ?m))"
    using observe_request_le request_fold_le by blast+
  then have same: "ns_UDPRequestIgnoredPackets (nw_stats ?m) = ns_UDPRequestIgnoredPackets (nw_stats n)"
    "ns_UDPRequestIgnoredPackets (nw_stats (fold (observe_request b) fs ?m)) = ns_UDPRequestIgnoredPackets (nw_stats ?m)"
    using Cons.prems(3) by simp_all
  show ?case
  proof (cases "f = g")
    case True
    have "\<not> ns_CountersSaturated (nw_stats ?m)" using request_fold_le [of ?m b fs] Cons.prems(2) by auto
    then have "map_of (nw_udpRequests ?m) (tuple_of (bt_Interface b) f) \<noteq> None"
      using rememberUDP_remembers [OF assms(7,6), of "bt_Interface b" n] same(1) assms(2-5) True
      by (simp add: observe_request_def)
    then show ?thesis using request_fold_mono [of ?m _ b fs] by simp
  next
    case False
    then show ?thesis using Cons.IH [of ?m] Cons.prems same(2) by simp
  qed
qed simp

lemma Network_prune_stats: "nw_stats (Network_prune t n) = nw_stats n"
proof -
  let ?step = "\<lambda>(source, st) n. if dc_ScanWindow (nw_config n) < time_sub t (sc_started st)
        then deleteScan source n else n"
  have "nw_stats (fold ?step (nw_scans n) n) = nw_stats n"
    by (rule fold_unchanged) (auto simp: deleteScan_def split: option.split)
  then show ?thesis unfolding Network_prune_def Let_def by simp
qed

text \<open>An inbound UDP packet that answers a request the host sent in the same batch is never
  counted as a probe, whatever the order of the flows, as long as no request had to be ignored.\<close>

theorem udp_reply_not_a_probe:
  assumes "request \<in> set (bt_Flows b)" "fl_Direction request = DirectionOutbound" "fl_Protocol request = ''udp''"
    and "fl_LocalPort request \<noteq> 0" "fl_RemotePort request \<noteq> 0" "fl_Packets request \<noteq> 0"
    and "zero_time < bt_SentAt b"
    and "\<not> ns_CountersSaturated (nw_stats (begin_batch b c n))"
    and "ns_UDPRequestIgnoredPackets (nw_stats (begin_batch b c n)) = ns_UDPRequestIgnoredPackets (nw_stats n)"
    and "fl_Direction reply = DirectionInbound" "fl_Protocol reply = ''udp''"
    and "fl_RemoteIP reply = fl_RemoteIP request" "fl_LocalPort reply = fl_LocalPort request"
      "fl_RemotePort reply = fl_RemotePort request"
  shows "let tn = fold (observe_inbound b) before ([], begin_batch b c n)
    in nw_scans (snd (observe_inbound b reply tn)) = nw_scans (snd tn) \<and>
       nw_scanPorts (snd (observe_inbound b reply tn)) = nw_scanPorts (snd tn)"
proof -
  define n3 where "n3 = Network_prune (bt_SentAt b) (let n = (if is_zero (nw_lastBatch n) \<or> \<not> c \<or> \<not> complete_batch b
    then markUDPUncertain (bt_SentAt b) n else n) in if nw_lastBatch n < bt_SentAt b
    then n\<lparr>nw_lastBatch := bt_SentAt b, nw_lastInterface := bt_Interface b\<rparr> else n)"
  let ?n4 = "fold (observe_request b) (bt_Flows b) n3"
  have mark: "nw_udpRequests (markUDPUncertain t m) = nw_udpRequests m" "nw_stats (markUDPUncertain t m) = nw_stats m" for t m
    by (simp_all add: markUDPUncertain_def Let_def)
  have req: "nw_udpRequests (begin_batch b c n) = nw_udpRequests ?n4"
    "ns_UDPRequestIgnoredPackets (nw_stats (begin_batch b c n)) = ns_UDPRequestIgnoredPackets (nw_stats ?n4)"
    "ns_CountersSaturated (nw_stats (begin_batch b c n)) = ns_CountersSaturated (nw_stats ?n4)"
    by (simp_all add: begin_batch_def Let_def n3_def mark)
  have stats: "nw_stats n3 = nw_stats n"
    by (simp add: n3_def Let_def Network_prune_stats mark)
  have "map_of (nw_udpRequests ?n4) (tuple_of (bt_Interface b) request) \<noteq> None"
    using request_fold_remembers [OF assms(1-7), of n3] assms(8,9) req stats by simp
  then have "map_of (nw_udpRequests (begin_batch b c n)) (tuple_of (bt_Interface b) reply) \<noteq> None"
    using req(1) assms(12-14) by (simp add: tuple_of_def)
  then have known: "map_of (nw_udpRequests (snd (fold (observe_inbound b) before ([], begin_batch b c n))))
      \<lparr>ut_iface = bt_Interface b, ut_remoteIP = fl_RemoteIP reply, ut_localPort = fl_LocalPort reply,
       ut_remotePort = fl_RemotePort reply\<rparr> \<noteq> None"
    by (simp add: tuple_of_def)
  have ports: "fl_LocalPort reply \<noteq> 0" "fl_RemotePort reply \<noteq> 0" using assms(4,5,13,14) by auto
  obtain tops m where m: "fold (observe_inbound b) before ([], begin_batch b c n) = (tops, m)" by fastforce
  have "nw_scans (addCounter g p v m) = nw_scans m" "nw_scanPorts (addCounter g p v m) = nw_scanPorts m" for g p v
    by (simp_all add: addCounter_def)
  then show ?thesis
    using known ports assms(10,11) by (simp add: m Let_def observe_inbound_def observe_udp_def)
qed

definition sample_request :: flow where
  "sample_request = empty_flow\<lparr>fl_Direction := DirectionOutbound, fl_RemoteIP := ''9.9.9.9'', fl_Protocol := ''udp'',
     fl_LocalPort := 40000, fl_RemotePort := 53, fl_Packets := 1, fl_Bytes := 60\<rparr>"

definition sample_udp_batch :: batch where
  "sample_udp_batch = sample_scan_batch\<lparr>bt_Flows :=
     [sample_request\<lparr>fl_Direction := DirectionInbound, fl_Bytes := 500\<rparr>, sample_request]\<rparr>"

theorem udp_reply_not_a_probe_witness:
  "nw_scans (snd (observe_inbound sample_udp_batch (sample_request\<lparr>fl_Direction := DirectionInbound, fl_Bytes := 500\<rparr>)
     ([], begin_batch sample_udp_batch True (NewNetwork sample_detection)))) =
   nw_scans (begin_batch sample_udp_batch True (NewNetwork sample_detection))"
proof -
  have "sample_request \<in> set (bt_Flows sample_udp_batch)" by (simp add: sample_udp_batch_def)
  moreover have "\<not> ns_CountersSaturated (nw_stats (begin_batch sample_udp_batch True (NewNetwork sample_detection)))"
    by code_simp
  moreover have "ns_UDPRequestIgnoredPackets (nw_stats (begin_batch sample_udp_batch True (NewNetwork sample_detection))) =
      ns_UDPRequestIgnoredPackets (nw_stats (NewNetwork sample_detection))"
    by code_simp
  moreover have "zero_time < bt_SentAt sample_udp_batch" by code_simp
  ultimately show ?thesis
    using udp_reply_not_a_probe [of sample_request sample_udp_batch True "NewNetwork sample_detection"
        "sample_request\<lparr>fl_Direction := DirectionInbound, fl_Bytes := 500\<rparr>" "[]"]
    by (simp add: sample_request_def Let_def)
qed

end
