(* ===== verification/Fleet.thy ===== *)
theory Fleet
  imports Network
begin

text \<open>
  \<open>internal/detect/fleet.go\<close>: one detector per interface, all drawing on one port budget. The fleet's
  lock is held throughout \<open>Observe\<close>, so the shared budget and the draws of identifiers are handed
  to the detector that runs and taken back from it.
\<close>

section \<open>State\<close>

record interface_detector =
  id_detector :: network
  id_lastSeen :: time
  id_connection :: uint64

record fleet =
  ft_config :: detection_config
  ft_limit :: int
  ft_interfaces :: "(string \<times> interface_detector) list"
  ft_evicted :: uint64
  ft_budget :: port_budget
  ft_draws :: nat

definition NewFleet :: "detection_config \<Rightarrow> int \<Rightarrow> fleet" where
  "NewFleet cfg limit = \<lparr>ft_config = cfg, ft_limit = max 1 (min limit MaxInterfaces), ft_interfaces = [],
     ft_evicted = 0, ft_budget = \<lparr>bg_used = 0, bg_limit = maxScanPortEntries\<rparr>, ft_draws = 0\<rparr>"

section \<open>Observation\<close>

definition lend :: "fleet \<Rightarrow> network \<Rightarrow> network" where
  "lend f n = n\<lparr>nw_budget := ft_budget f, nw_draws := ft_draws f\<rparr>"

definition take_back :: "network \<Rightarrow> fleet \<Rightarrow> fleet" where
  "take_back n f = f\<lparr>ft_budget := nw_budget n, ft_draws := nw_draws n\<rparr>"

definition last_seen :: "fleet \<Rightarrow> string \<Rightarrow> time" where
  "last_seen f name = (case map_of (ft_interfaces f) name of None \<Rightarrow> zero_time | Some e \<Rightarrow> id_lastSeen e)"

definition older :: "fleet \<Rightarrow> string \<Rightarrow> string \<Rightarrow> bool" where
  "older f name oldest \<longleftrightarrow> oldest = [] \<or> last_seen f name < last_seen f oldest \<or>
     last_seen f name = last_seen f oldest \<and> string_less name oldest"

definition oldest_interface :: "fleet \<Rightarrow> string" where
  "oldest_interface f = fold (\<lambda>name oldest. if older f name oldest then name else oldest)
     (map fst (ft_interfaces f)) []"

definition evict :: "fleet \<Rightarrow> fleet" where
  "evict f =
     (let oldest = oldest_interface f in
      case map_of (ft_interfaces f) oldest of
        None \<Rightarrow> f
      | Some e \<Rightarrow> (take_back (releaseScanState (lend f (id_detector e))) f)
          \<lparr>ft_interfaces := AList.delete oldest (ft_interfaces f), ft_evicted := saturating_inc (ft_evicted f)\<rparr>)"

definition admit :: "batch \<Rightarrow> fleet \<Rightarrow> interface_detector \<times> fleet" where
  "admit b f = (case map_of (ft_interfaces f) (bt_Interface b) of
     None \<Rightarrow>
       (let f = (if ft_limit f \<le> int (length (ft_interfaces f)) then evict f else f);
            e = \<lparr>id_detector = newNetworkLimits (ft_config f) (maxScanSources div ft_limit f)
                   (maxUDPRequestTuples div ft_limit f),
                 id_lastSeen = zero_time, id_connection = bt_ConnectionID b\<rparr>
        in (e, f))
   | Some e \<Rightarrow>
       (if id_connection e \<noteq> bt_ConnectionID b
        then e\<lparr>id_detector := ResetContinuity (id_detector e), id_connection := bt_ConnectionID b\<rparr>
        else e, f))"

definition put_interface :: "string \<Rightarrow> interface_detector \<Rightarrow> fleet \<Rightarrow> fleet" where
  "put_interface name e f = f\<lparr>ft_interfaces := AList.update name e (ft_interfaces f)\<rparr>"

definition Fleet_Observe :: "(nat \<Rightarrow> string) \<Rightarrow> batch \<Rightarrow> fleet \<Rightarrow> event list \<times> fleet" where
  "Fleet_Observe ids b f =
     (if \<not> ValidInterfaceName (bt_Interface b) then ([], f)
      else
        let (e, f) = admit b f in
        if \<not> is_zero (id_lastSeen e) \<and> \<not> id_lastSeen e < bt_SentAt b
        then ([], put_interface (bt_Interface b) e f)
        else
          let (events, n) = Network_Observe ids b (lend f (id_detector e));
              e = e\<lparr>id_lastSeen := bt_SentAt b, id_detector := n\<rparr>
          in (map (set_evidence ''interface'' (Text (bt_Interface b))) events,
              put_interface (bt_Interface b) e (take_back n f)))"

section \<open>Statistics\<close>

record interface_network_stats =
  is_Name :: string
  is_LastSeen :: time
  is_Stats :: network_stats

record fleet_stats =
  fz_Scope :: string
  fz_Interfaces :: "interface_network_stats list"
  fz_InterfaceLimit :: int
  fz_EvictedInterfaces :: uint64
  fz_Stats :: network_stats

definition add_stat :: "(network_stats \<Rightarrow> uint64) \<Rightarrow> ((uint64 \<Rightarrow> uint64) \<Rightarrow> network_stats \<Rightarrow> network_stats) \<Rightarrow>
    uint64 \<Rightarrow> network_stats \<Rightarrow> network_stats" where
  "add_stat get put v r =
     (if max_uint64 - get r < v then (put (\<lambda>_. max_uint64) r)\<lparr>ns_CountersSaturated := True\<rparr>
      else put (\<lambda>c. c + v) r)"

definition combine_stats :: "network_stats \<Rightarrow> network_stats \<Rightarrow> network_stats" where
  "combine_stats s r =
     (let r = r\<lparr>ns_ScanSources := ns_ScanSources r + ns_ScanSources s,
            ns_ScanPortEntries := ns_ScanPortEntries r + ns_ScanPortEntries s,
            ns_ScanPortStateSaturated := ns_ScanPortStateSaturated r \<or> ns_ScanPortStateSaturated s,
            ns_ScanCoverageComplete := ns_ScanCoverageComplete r \<and> ns_ScanCoverageComplete s,
            ns_ScanCoverageIncompleteUntil := max (ns_ScanCoverageIncompleteUntil r) (ns_ScanCoverageIncompleteUntil s),
            ns_UDPRequestTuples := ns_UDPRequestTuples r + ns_UDPRequestTuples s,
            ns_ScanStateSaturated := ns_ScanStateSaturated r \<or> ns_ScanStateSaturated s,
            ns_UDPStateSaturated := ns_UDPStateSaturated r \<or> ns_UDPStateSaturated s,
            ns_UDPScanCoverageComplete := ns_UDPScanCoverageComplete r \<and> ns_UDPScanCoverageComplete s,
            ns_CountersSaturated := ns_CountersSaturated r \<or> ns_CountersSaturated s\<rparr>
      in add_stat ns_RecoverySuppressedBatches ns_RecoverySuppressedBatches_update (ns_RecoverySuppressedBatches s)
         (add_stat ns_UDPRepliesExcludedPackets ns_UDPRepliesExcludedPackets_update (ns_UDPRepliesExcludedPackets s)
         (add_stat ns_UDPUnclassifiedPackets ns_UDPUnclassifiedPackets_update (ns_UDPUnclassifiedPackets s)
         (add_stat ns_UDPRequestIgnoredPackets ns_UDPRequestIgnoredPackets_update (ns_UDPRequestIgnoredPackets s)
         (add_stat ns_ScanIgnoredPackets ns_ScanIgnoredPackets_update (ns_ScanIgnoredPackets s) r)))))"

definition Fleet_Stats :: "fleet \<Rightarrow> fleet_stats" where
  "Fleet_Stats f =
     (let names = sort_by string_less (map fst (ft_interfaces f));
          each = concat (map (\<lambda>name. case map_of (ft_interfaces f) name of
              None \<Rightarrow> []
            | Some e \<Rightarrow> [\<lparr>is_Name = name, is_LastSeen = id_lastSeen e,
                is_Stats = Network_Stats (lend f (id_detector e))\<rparr>]) names);
          initial = no_stats\<lparr>ns_ScanSourceLimit := maxScanSources div ft_limit f * ft_limit f,
            ns_ScanPortLimit := bg_limit (ft_budget f),
            ns_UDPRequestLimit := maxUDPRequestTuples div ft_limit f * ft_limit f,
            ns_ScanCoverageComplete := ft_interfaces f \<noteq> [],
            ns_UDPScanCoverageComplete := ft_interfaces f \<noteq> []\<rparr>
      in \<lparr>fz_Scope = ''per_interface'', fz_Interfaces = each, fz_InterfaceLimit = ft_limit f,
          fz_EvictedInterfaces = ft_evicted f,
          fz_Stats = fold (\<lambda>i r. combine_stats (is_Stats i) r) each initial\<rparr>)"

section \<open>Each detector as a client of the shared budget\<close>

datatype detector_action =
    RunBatch "nat \<Rightarrow> string" batch nat
  | NewConnection uint64
  | ReleaseScans nat

definition detector_act :: "detector_action \<Rightarrow> port_budget \<times> interface_detector \<Rightarrow> port_budget \<times> interface_detector" where
  "detector_act x pe = (case pe of (p, e) \<Rightarrow> (case x of
     RunBatch ids b k \<Rightarrow>
       (let n = snd (Network_Observe ids b ((id_detector e)\<lparr>nw_budget := p, nw_draws := k\<rparr>))
        in (nw_budget n, e\<lparr>id_lastSeen := bt_SentAt b, id_detector := n\<rparr>))
   | NewConnection c \<Rightarrow> (p, e\<lparr>id_detector := ResetContinuity (id_detector e), id_connection := c\<rparr>)
   | ReleaseScans k \<Rightarrow>
       (let n = releaseScanState ((id_detector e)\<lparr>nw_budget := p, nw_draws := k\<rparr>)
        in (nw_budget n, e\<lparr>id_detector := n\<rparr>))))"

definition detector_held :: "interface_detector \<Rightarrow> nat" where
  "detector_held e = ports_total (nw_scans (id_detector e))"

definition detector_ok :: "int \<Rightarrow> int \<Rightarrow> port_budget \<Rightarrow> interface_detector \<Rightarrow> bool" where
  "detector_ok scans udp p e \<longleftrightarrow> net_inv ((id_detector e)\<lparr>nw_budget := p\<rparr>) \<and>
     nw_scanLimit (id_detector e) = scans \<and> nw_udpLimit (id_detector e) = udp"

lemma detector_ok_cong:
  assumes "detector_ok s u p e"
  shows "net_inv ((id_detector e)\<lparr>nw_budget := p, nw_draws := k\<rparr>)"
  using assms by (auto simp: detector_ok_def net_inv_def)

lemma keeps_detector:
  assumes "detector_ok s u p e" and "keeps ((id_detector e)\<lparr>nw_budget := p, nw_draws := k\<rparr>) n"
    and "id_detector e' = n"
  shows "detector_ok s u (nw_budget n) e' \<and> bg_limit (nw_budget n) = bg_limit p \<and>
    bg_used (nw_budget n) - int (detector_held e') = bg_used p - int (detector_held e)"
  using assms detector_ok_cong [OF assms(1), of k]
  by (auto simp: keeps_def detector_ok_def held_elsewhere_def net_inv_def detector_held_def)

lemma detector_act_account:
  assumes ok: "detector_ok s u p e" and act: "detector_act x (p, e) = (p', e')"
  shows "detector_ok s u p' e' \<and> bg_limit p' = bg_limit p \<and>
    bg_used p' - int (detector_held e') = bg_used p - int (detector_held e)"
proof (cases x)
  case (RunBatch ids b k)
  show ?thesis
    using keeps_detector [OF ok Network_Observe_keeps [OF detector_ok_cong [OF ok, of k]], of e' ids b] act
    by (auto simp: RunBatch detector_act_def Let_def)
next
  case (NewConnection c)
  then have "p' = p" "id_detector e' = ResetContinuity (id_detector e)"
    using act by (auto simp: detector_act_def)
  then show ?thesis using ok
    by (auto simp: detector_ok_def detector_held_def ResetContinuity_def net_inv_def)
next
  case (ReleaseScans k)
  show ?thesis
    using keeps_detector [OF ok releaseScanState_keeps [OF detector_ok_cong [OF ok, of k]], of e'] act
    by (auto simp: ReleaseScans detector_act_def Let_def)
qed

interpretation detectors: budget_clients bg_used bg_limit detector_held "detector_ok scans udp" detector_act
  for scans udp
proof
  fix p q :: port_budget and e :: interface_detector
  show "detector_ok scans udp p e \<Longrightarrow> bg_used p \<le> bg_limit p"
    by (simp add: detector_ok_def net_inv_def)
  show "detector_ok scans udp p e \<Longrightarrow> bg_used q \<le> bg_limit q \<Longrightarrow> detector_ok scans udp q e"
    by (auto simp: detector_ok_def net_inv_def)
qed (use detector_act_account in blast)+

lemma release_all: "nw_scans (fold deleteScan ks n) = filter (\<lambda>p. fst p \<notin> set ks) (nw_scans n)"
proof (induction ks arbitrary: n)
  case (Cons k ks)
  have "nw_scans (deleteScan k n) = filter (\<lambda>p. fst p \<noteq> k) (nw_scans n)"
  proof (cases "map_of (nw_scans n) k")
    case None
    then have "k \<notin> fst ` set (nw_scans n)" by (simp add: map_of_eq_None_iff)
    then show ?thesis using None by (force simp: deleteScan_def intro: filter_True [symmetric])
  qed (auto simp: deleteScan_def AList.delete_eq intro!: filter_cong)
  then show ?case using Cons.IH by (auto intro!: filter_cong)
qed simp

lemma released: "nw_scans (releaseScanState n) = []"
  by (auto simp: releaseScanState_def release_all filter_empty_conv)

section \<open>The least recently seen interface\<close>

definition seen_before :: "fleet \<Rightarrow> string \<Rightarrow> string \<Rightarrow> bool" where
  "seen_before f x y \<longleftrightarrow> last_seen f x < last_seen f y \<or> last_seen f x = last_seen f y \<and> string_less x y"

lemma seen_before_total: "strict_total_on A (seen_before f)"
proof -
  have "x = y \<or> seen_before f x y \<or> seen_before f y x" for x y
    using string_less_linear [of x y] by (auto simp: seen_before_def)
  moreover have "seen_before f x z" if "seen_before f x y" "seen_before f y z" for x y z
    using that string_less_trans [of x y z] by (auto simp: seen_before_def)
  moreover have "\<not> seen_before f x x" for x by (simp add: seen_before_def string_less_irrefl)
  ultimately show ?thesis unfolding strict_total_on_def by blast
qed

definition named :: "fleet \<Rightarrow> bool" where
  "named f \<longleftrightarrow> [] \<notin> fst ` set (ft_interfaces f)"

lemma oldest_interface_least:
  assumes "named f" and "ft_interfaces f \<noteq> []"
  shows "oldest_interface f \<in> fst ` set (ft_interfaces f)"
    and "x \<in> fst ` set (ft_interfaces f) \<Longrightarrow> x = oldest_interface f \<or> seen_before f (oldest_interface f) x"
proof -
  obtain k ks where ks: "map fst (ft_interfaces f) = k # ks" using assms(2) by (cases "ft_interfaces f") auto
  have set: "set (k # ks) = fst ` set (ft_interfaces f)" unfolding ks [symmetric] by simp
  have older: "older f x y = seen_before f x y" if "y \<in> set (k # ks)" for x y
  proof -
    have "y \<noteq> []" using that assms(1) unfolding set named_def by metis
    then show ?thesis by (simp add: older_def seen_before_def)
  qed
  have "oldest_interface f = fold (\<lambda>x best. if older f x best then x else best) ks k"
    unfolding oldest_interface_def ks by (simp add: older_def)
  then have best: "oldest_interface f \<in> set (k # ks)"
    "y \<in> set (k # ks) \<Longrightarrow> y = oldest_interface f \<or> seen_before f (oldest_interface f) y" for y
    using fold_best [where g = k and xs = ks and pick = "older f" and lt = "seen_before f"] seen_before_total older
    by simp_all
  show "oldest_interface f \<in> fst ` set (ft_interfaces f)" using best(1) unfolding set .
  show "x \<in> fst ` set (ft_interfaces f) \<Longrightarrow> x = oldest_interface f \<or> seen_before f (oldest_interface f) x"
    using best(2) unfolding set .
qed

section \<open>Invariant of the fleet\<close>

definition scan_share :: "fleet \<Rightarrow> int" where
  "scan_share f = maxScanSources div ft_limit f"

definition udp_share :: "fleet \<Rightarrow> int" where
  "udp_share f = maxUDPRequestTuples div ft_limit f"

definition fleet_inv :: "fleet \<Rightarrow> bool" where
  "fleet_inv f \<longleftrightarrow> detectors.accounted (scan_share f) (udp_share f) (ft_budget f) (ft_interfaces f) \<and>
     1 \<le> ft_limit f \<and> ft_limit f \<le> MaxInterfaces \<and> int (length (ft_interfaces f)) \<le> ft_limit f \<and>
     bg_limit (ft_budget f) = maxScanPortEntries \<and> named f"

lemma NewFleet_inv: "fleet_inv (NewFleet cfg limit)"
  by (simp add: fleet_inv_def NewFleet_def detectors.accounted_def named_def MaxInterfaces_def maxScanPortEntries_def)

lemma named_update: "named f \<Longrightarrow> name \<noteq> [] \<Longrightarrow> named (f\<lparr>ft_interfaces := AList.update name e (ft_interfaces f)\<rparr>)"
  by (simp add: named_def dom_update)

lemma fleet_act:
  assumes inv: "fleet_inv f" and e: "map_of (ft_interfaces f) name = Some e"
    and act: "detector_act x (ft_budget f, e) = (p', e')"
  shows "fleet_inv (f\<lparr>ft_budget := p', ft_draws := k, ft_interfaces := AList.update name e' (ft_interfaces f)\<rparr>)"
proof -
  let ?m = "AList.update name e' (ft_interfaces f)"
  have acc: "detectors.accounted (scan_share f) (udp_share f) (ft_budget f) (ft_interfaces f)"
    using inv by (simp add: fleet_inv_def)
  have "detectors.accounted (scan_share f) (udp_share f) p' ?m"
    by (rule detectors.accounted_act [OF acc e act])
  moreover have "bg_limit p' = bg_limit (ft_budget f)"
    using detectors.act_account [OF detectors.accounted_ok [OF acc e] act] by simp
  moreover have "fst ` set ?m = fst ` set (ft_interfaces f)"
    using map_of_SomeD [OF e] by (force simp: dom_update)
  ultimately show ?thesis
    using inv length_update_Some [OF e] by (auto simp: fleet_inv_def scan_share_def udp_share_def named_def)
qed

lemma evict_inv:
  assumes inv: "fleet_inv f" and ne: "ft_interfaces f \<noteq> []"
  shows "fleet_inv (evict f) \<and> int (length (ft_interfaces (evict f))) < ft_limit f \<and> ft_limit (evict f) = ft_limit f \<and>
    ft_config (evict f) = ft_config f \<and> ft_interfaces (evict f) = AList.delete (oldest_interface f) (ft_interfaces f)"
proof -
  define old where "old = oldest_interface f"
  have "old \<in> fst ` set (ft_interfaces f)"
    unfolding old_def using inv ne by (intro oldest_interface_least) (simp_all add: fleet_inv_def)
  then obtain e where e: "map_of (ft_interfaces f) old = Some e"
    by (metis not_None_eq map_of_eq_None_iff)
  obtain p' e' where act: "detector_act (ReleaseScans (ft_draws f)) (ft_budget f, e) = (p', e')" by fastforce
  define g where "g = f\<lparr>ft_budget := p', ft_draws := nw_draws (id_detector e'), ft_interfaces := AList.update old e' (ft_interfaces f)\<rparr>"
  have g: "fleet_inv g" unfolding g_def by (rule fleet_act [OF inv e act])
  have e': "map_of (ft_interfaces g) old = Some e'" "detector_held e' = 0"
    using act by (auto simp: g_def map_of_update detector_act_def Let_def detector_held_def released ports_total_def)
  have acc: "detectors.accounted (scan_share g) (udp_share g) (ft_budget g) (AList.delete old (ft_interfaces g))"
    by (rule detectors.accounted_delete [OF _ e']) (use g in \<open>simp add: fleet_inv_def\<close>)
  have ev: "evict f = g\<lparr>ft_interfaces := AList.delete old (ft_interfaces g), ft_evicted := saturating_inc (ft_evicted f)\<rparr>"
    using act by (auto simp: evict_def Let_def old_def [symmetric] e g_def take_back_def lend_def detector_act_def
        delete_update_same)
  have kd: "keys_distinct (ft_interfaces g)" using g by (simp add: fleet_inv_def detectors.accounted_def)
  have len: "Suc (length (AList.delete old (ft_interfaces g))) = length (ft_interfaces g)"
    by (rule length_delete_Some [OF kd e'(1)])
  have "fst ` set (AList.delete old (ft_interfaces g)) \<subseteq> fst ` set (ft_interfaces g)"
    by (auto simp: AList.delete_eq)
  then show ?thesis
    using g acc len e by (auto simp: ev fleet_inv_def scan_share_def udp_share_def named_def g_def delete_update_same old_def)
qed


lemma admit_inv:
  assumes inv: "fleet_inv f" and name: "bt_Interface b \<noteq> []" and adm: "admit b f = (e, f')"
  shows "fleet_inv (put_interface (bt_Interface b) e f')"
proof (cases "map_of (ft_interfaces f) (bt_Interface b)")
  case (Some d)
  show ?thesis
  proof (cases "id_connection d = bt_ConnectionID b")
    case True
    have "f' = f" "e = d" using adm Some True by (auto simp: admit_def)
    then show ?thesis using inv Some by (simp add: put_interface_def update_unchanged)
  next
    case False
    then have "f' = f" "detector_act (NewConnection (bt_ConnectionID b)) (ft_budget f, d) = (ft_budget f, e)"
      using adm Some by (auto simp: admit_def detector_act_def)
    then show ?thesis using fleet_act [OF inv Some, of _ "ft_budget f" e "ft_draws f"]
      by (simp add: put_interface_def)
  qed
next
  case None
  define g where "g = (if ft_limit f \<le> int (length (ft_interfaces f)) then evict f else f)"
  have ne: "ft_limit f \<le> int (length (ft_interfaces f)) \<Longrightarrow> ft_interfaces f \<noteq> []"
    using inv by (auto simp: fleet_inv_def)
  have g: "fleet_inv g" "int (length (ft_interfaces g)) < ft_limit g"
    using evict_inv [OF inv] ne inv by (auto simp: g_def)
  have absent: "map_of (ft_interfaces g) (bt_Interface b) = None"
    using None evict_inv [OF inv] ne by (simp add: g_def map_of_delete)
  have f': "f' = g" and e: "id_detector e = newNetworkLimits (ft_config g) (scan_share g) (udp_share g)"
    using adm None by (auto simp: admit_def Let_def g_def scan_share_def udp_share_def)
  have "detector_ok (scan_share g) (udp_share g) (ft_budget g) e" "detector_held e = 0"
    using newNetworkLimits_inv [of "ft_config g" "scan_share g" "udp_share g"] g(1)
    by (auto simp: e detector_ok_def detector_held_def net_inv_def newNetworkLimits_def ports_total_def
        fleet_inv_def detectors.accounted_def)
  then have "detectors.accounted (scan_share g) (udp_share g) (ft_budget g) (AList.update (bt_Interface b) e (ft_interfaces g))"
    using g(1) absent by (intro detectors.accounted_insert) (auto simp: fleet_inv_def)
  then show ?thesis
    using g name absent named_update [of g "bt_Interface b" e]
    by (auto simp: f' fleet_inv_def put_interface_def scan_share_def udp_share_def length_update_None)
qed

lemma ValidInterfaceName_nonempty: "ValidInterfaceName s \<Longrightarrow> s \<noteq> []"
  by (auto simp: ValidInterfaceName_def)

lemma Fleet_Observe_inv:
  assumes inv: "fleet_inv f"
  shows "fleet_inv (snd (Fleet_Observe ids b f))"
proof (cases "ValidInterfaceName (bt_Interface b)")
  case True
  let ?name = "bt_Interface b"
  obtain e f' where adm: "admit b f = (e, f')" by fastforce
  have g: "fleet_inv (put_interface ?name e f')"
    by (rule admit_inv [OF inv ValidInterfaceName_nonempty [OF True] adm])
  show ?thesis
  proof (cases "\<not> is_zero (id_lastSeen e) \<and> \<not> id_lastSeen e < bt_SentAt b")
    case True
    then show ?thesis using g \<open>ValidInterfaceName _\<close> by (simp add: Fleet_Observe_def adm)
  next
    case False
    obtain es n where obs: "Network_Observe ids b (lend f' (id_detector e)) = (es, n)" by fastforce
    have "detector_act (RunBatch ids b (ft_draws f')) (ft_budget (put_interface ?name e f'), e) =
        (nw_budget n, e\<lparr>id_lastSeen := bt_SentAt b, id_detector := n\<rparr>)"
      using obs by (simp add: detector_act_def Let_def lend_def put_interface_def)
    then have "fleet_inv ((put_interface ?name e f')\<lparr>ft_budget := nw_budget n, ft_draws := nw_draws n,
        ft_interfaces := AList.update ?name (e\<lparr>id_lastSeen := bt_SentAt b, id_detector := n\<rparr>)
          (ft_interfaces (put_interface ?name e f'))\<rparr>)"
      by (intro fleet_act [OF g]) (simp add: put_interface_def map_of_update)
    then show ?thesis
      using False True by (auto simp: Fleet_Observe_def adm obs put_interface_def take_back_def update_update_same)
  qed
qed (simp add: Fleet_Observe_def inv)

section \<open>Runs of the fleet\<close>

inductive fleet_reachable :: "detection_config \<Rightarrow> int \<Rightarrow> fleet \<Rightarrow> bool" for cfg limit where
  start: "fleet_reachable cfg limit (NewFleet cfg limit)"
| observe: "fleet_reachable cfg limit f \<Longrightarrow> fleet_reachable cfg limit (snd (Fleet_Observe ids b f))"

lemma fleet_reachable_inv: "fleet_reachable cfg limit f \<Longrightarrow> fleet_inv f"
  by (induction rule: fleet_reachable.induct) (simp_all add: NewFleet_inv Fleet_Observe_inv)

text \<open>C31: whatever batches arrive on whatever interfaces, the fleet keeps at most its limit of
  interfaces, their detectors together remember at most 8192 scanning sources and 262144 ports, and
  the shared budget in use is exactly the number of ports all detectors hold.\<close>

theorem fleet_bounds:
  assumes "fleet_reachable cfg limit f"
  shows "int (length (ft_interfaces f)) \<le> ft_limit f \<and> ft_limit f \<le> MaxInterfaces \<and>
    int (al_sum (\<lambda>e. length (nw_scans (id_detector e))) (ft_interfaces f)) \<le> maxScanSources \<and>
    bg_used (ft_budget f) = int (al_sum detector_held (ft_interfaces f)) \<and>
    bg_used (ft_budget f) \<le> maxScanPortEntries"
proof -
  have inv: "fleet_inv f" by (rule fleet_reachable_inv [OF assms])
  have share: "0 \<le> scan_share f" "scan_share f * ft_limit f \<le> maxScanSources"
  proof -
    have l: "1 \<le> ft_limit f" using inv by (simp add: fleet_inv_def)
    then show "0 \<le> scan_share f" by (simp add: scan_share_def maxScanSources_def pos_imp_zdiv_nonneg_iff)
    show "scan_share f * ft_limit f \<le> maxScanSources"
      using l pos_mod_sign [of "ft_limit f" maxScanSources] div_mult_mod_eq [of maxScanSources "ft_limit f"]
      unfolding scan_share_def by linarith
  qed
  have "length (nw_scans (id_detector e)) \<le> nat (scan_share f)" if "(k, e) \<in> set (ft_interfaces f)" for k e
    using inv that share(1) by (force simp: fleet_inv_def detectors.accounted_def detector_ok_def net_inv_def)
  then have "al_sum (\<lambda>e. length (nw_scans (id_detector e))) (ft_interfaces f) \<le> length (ft_interfaces f) * nat (scan_share f)"
    by (rule al_sum_le)
  then have "int (al_sum (\<lambda>e. length (nw_scans (id_detector e))) (ft_interfaces f)) \<le> int (length (ft_interfaces f)) * scan_share f"
    using share(1) by (metis int_nat_eq of_nat_mono of_nat_mult)
  also have "\<dots> \<le> ft_limit f * scan_share f"
    using inv share(1) by (intro mult_right_mono) (auto simp: fleet_inv_def)
  finally show ?thesis
    using inv share(2) by (auto simp: fleet_inv_def detectors.accounted_def mult.commute)
qed

theorem fleet_bounds_witness:
  "int (al_sum detector_held (ft_interfaces (snd (Fleet_Observe sample_ids sample_scan_batch (NewFleet sample_detection 2))))) \<le> 262144"
  using fleet_bounds [OF fleet_reachable.observe [OF fleet_reachable.start], of sample_ids sample_scan_batch sample_detection 2]
  by (simp add: maxScanPortEntries_def)

text \<open>C32: a batch touches only the detector of its own interface; the only other change is that a
  full fleet drops, to admit a new interface, the one that was seen least recently.\<close>

theorem fleet_isolation:
  assumes "fleet_reachable cfg limit f" and "other \<noteq> bt_Interface b"
    and "map_of (ft_interfaces (snd (Fleet_Observe ids b f))) other \<noteq> map_of (ft_interfaces f) other"
  shows "map_of (ft_interfaces f) (bt_Interface b) = None \<and> int (length (ft_interfaces f)) = ft_limit f \<and>
    map_of (ft_interfaces (snd (Fleet_Observe ids b f))) other = None \<and>
    (\<forall>name\<in>fst ` set (ft_interfaces f). last_seen f other \<le> last_seen f name)"
proof -
  have inv: "fleet_inv f" by (rule fleet_reachable_inv [OF assms(1)])
  obtain e f' where adm: "admit b f = (e, f')" by fastforce
  have valid: "ValidInterfaceName (bt_Interface b)"
    using assms(3) by (rule contrapos_np) (simp add: Fleet_Observe_def)
  have same: "map_of (ft_interfaces (snd (Fleet_Observe ids b f))) other = map_of (ft_interfaces f') other"
    using assms(2) valid by (auto simp: Fleet_Observe_def adm put_interface_def take_back_def map_of_update split: prod.split)
  then have differ: "map_of (ft_interfaces f') other \<noteq> map_of (ft_interfaces f) other" using assms(3) by simp
  then have new: "map_of (ft_interfaces f) (bt_Interface b) = None" and full: "ft_limit f \<le> int (length (ft_interfaces f))"
    and f': "f' = evict f"
    using adm by (auto simp: admit_def Let_def split: option.splits if_splits)
  have ne: "ft_interfaces f \<noteq> []" and named: "named f" using inv full by (auto simp: fleet_inv_def)
  have gone: "ft_interfaces f' = AList.delete (oldest_interface f) (ft_interfaces f)"
    using evict_inv [OF inv ne] f' by simp
  then have old: "other = oldest_interface f" using differ by (auto simp: map_of_delete split: if_splits)
  have "last_seen f other \<le> last_seen f name" if "name \<in> fst ` set (ft_interfaces f)" for name
    using oldest_interface_least(2) [OF named ne that] by (auto simp: old seen_before_def)
  then show ?thesis using new full inv same gone old by (auto simp: map_of_delete fleet_inv_def)
qed

definition sample_fleet :: fleet where
  "sample_fleet = snd (Fleet_Observe sample_ids sample_scan_batch (NewFleet sample_detection 1))"

definition sample_second_batch :: batch where
  "sample_second_batch = sample_scan_batch\<lparr>bt_Interface := ''eth1'', bt_SentAt := 101 * second\<rparr>"

theorem fleet_isolation_witness:
  "map_of (ft_interfaces sample_fleet) ''eth1'' = None \<and> int (length (ft_interfaces sample_fleet)) = ft_limit sample_fleet \<and>
   map_of (ft_interfaces (snd (Fleet_Observe sample_ids sample_second_batch sample_fleet))) ''eth0'' = None"
proof -
  have "fleet_reachable sample_detection 1 sample_fleet"
    unfolding sample_fleet_def by (intro fleet_reachable.intros)
  moreover have valid: "ValidInterfaceName ''eth0''" "ValidInterfaceName ''eth1''" by code_simp+
  have "\<exists>e. ft_interfaces sample_fleet = [(''eth0'', e)] \<and> ft_limit sample_fleet = 1"
    by (simp add: sample_fleet_def Fleet_Observe_def admit_def NewFleet_def valid put_interface_def take_back_def
        sample_scan_batch_def MaxInterfaces_def is_zero_def Let_def split: prod.split)
  then obtain e where one: "ft_interfaces sample_fleet = [(''eth0'', e)]" "ft_limit sample_fleet = 1" by blast
  have "map_of (ft_interfaces (snd (Fleet_Observe sample_ids sample_second_batch sample_fleet))) ''eth0'' = None"
    by (simp add: Fleet_Observe_def admit_def one valid put_interface_def take_back_def evict_def oldest_interface_def
        older_def sample_second_batch_def is_zero_def Let_def split: prod.split)
  ultimately show ?thesis
    using fleet_isolation [of sample_detection 1 sample_fleet "''eth0''" sample_second_batch sample_ids]
    by (simp add: sample_second_batch_def one)
qed

end
