(* ===== verification/AuthDetect.thy ===== *)
theory AuthDetect
  imports Config "HOL-Library.Sublist"
begin

text \<open>
  \<open>internal/detect/auth.go\<close>: SSH authentication failures in a sliding window per source. A Go slice of
  timestamps is its elements with its capacity, since the detector bounds allocated slots and not
  only live entries. A timestamp keeps seconds and nanoseconds, which is the instant itself.
\<close>

section \<open>State\<close>

definition AuthSuccess :: string where "AuthSuccess = ''success''"
definition AuthFailure :: string where "AuthFailure = ''failure''"

record auth_observation =
  ao_ObservedAt :: time
  ao_Kind :: string
  ao_SourceIP :: addr
  ao_SourcePort :: uint16
  ao_User :: string
  ao_Method :: string
  ao_Root :: bool
  ao_InvalidUser :: bool

record slots =
  sl_times :: "time list"
  sl_cap :: int

definition no_slots :: slots where
  "no_slots = \<lparr>sl_times = [], sl_cap = 0\<rparr>"

record auth =
  au_config :: auth_config
  au_failures :: "(string \<times> slots) list"
  au_lastAlert :: "(string \<times> time) list"
  au_lastSeen :: "(string \<times> time) list"
  au_observed :: uint64
  au_auxiliary :: uint64
  au_rejected :: uint64
  au_refused :: uint64
  au_truncated :: uint64
  au_entries :: int
  au_capacity :: int
  au_entryLimit :: int
  au_lastPrune :: time
  au_incompleteUntil :: time
  au_draws :: nat

definition maxAuthSources :: int where "maxAuthSources = 65536"
definition maxFailuresPerAuthSource :: int where "maxFailuresPerAuthSource = 4096"
definition maxAuthFailureEntries :: int where "maxAuthFailureEntries = 131072"

definition NewAuth :: "auth_config \<Rightarrow> auth" where
  "NewAuth cfg = \<lparr>au_config = cfg, au_failures = [], au_lastAlert = [], au_lastSeen = [], au_observed = 0,
     au_auxiliary = 0, au_rejected = 0, au_refused = 0, au_truncated = 0, au_entries = 0, au_capacity = 0,
     au_entryLimit = maxAuthFailureEntries, au_lastPrune = zero_time, au_incompleteUntil = zero_time,
     au_draws = 0\<rparr>"

record auth_stats =
  as_CanonicalFailures :: uint64
  as_AuxiliaryObservations :: uint64
  as_RejectedSources :: uint64
  as_RejectedFailures :: uint64
  as_HistoryTruncations :: uint64
  as_FailureEntries :: int
  as_FailureCapacity :: int
  as_FailureEntryLimit :: int
  as_Sources :: int
  as_SourceLimit :: int
  as_StateSaturated :: bool
  as_CoverageIncompleteUntil :: time
  as_CoverageComplete :: bool

definition StatsAt :: "time \<Rightarrow> auth \<Rightarrow> auth_stats" where
  "StatsAt now a = \<lparr>as_CanonicalFailures = au_observed a, as_AuxiliaryObservations = au_auxiliary a,
     as_RejectedSources = au_rejected a, as_RejectedFailures = au_refused a,
     as_HistoryTruncations = au_truncated a, as_FailureEntries = au_entries a,
     as_FailureCapacity = au_capacity a, as_FailureEntryLimit = au_entryLimit a,
     as_Sources = int (length (au_failures a)), as_SourceLimit = maxAuthSources,
     as_StateSaturated = (au_entryLimit a \<le> au_capacity a \<or> maxAuthSources \<le> int (length (au_failures a))),
     as_CoverageIncompleteUntil = au_incompleteUntil a,
     as_CoverageComplete = (\<not> now < au_incompleteUntil a)\<rparr>"

section \<open>Expiry and bounds\<close>

definition slots_of :: "auth \<Rightarrow> string \<Rightarrow> slots" where
  "slots_of a source = (case map_of (au_failures a) source of None \<Rightarrow> no_slots | Some s \<Rightarrow> s)"

definition markIncomplete :: "time \<Rightarrow> auth \<Rightarrow> auth" where
  "markIncomplete t a =
     (let until = t + ac_Window (au_config a) + nanosecond
      in if au_incompleteUntil a < until then a\<lparr>au_incompleteUntil := until\<rparr> else a)"

definition refuse :: "time \<Rightarrow> auth \<Rightarrow> auth" where
  "refuse t a = markIncomplete t (a\<lparr>au_refused := saturating_inc (au_refused a)\<rparr>)"

definition auth_trim :: "string \<Rightarrow> time \<Rightarrow> auth \<Rightarrow> slots \<times> auth" where
  "auth_trim source cutoff a =
     (let s = slots_of a source;
          kept = filter (\<lambda>t. \<not> t < cutoff) (sl_times s);
          compact = (kept = [] \<or> int (length kept) * 2 < sl_cap s);
          s' = \<lparr>sl_times = kept, sl_cap = (if compact then int (length kept) else sl_cap s)\<rparr>;
          a = a\<lparr>au_entries := au_entries a - (int (length (sl_times s)) - int (length kept)),
                au_capacity := au_capacity a - (sl_cap s - sl_cap s')\<rparr>;
          a = (if map_of (au_failures a) source \<noteq> None
               then a\<lparr>au_failures := AList.update source s' (au_failures a)\<rparr> else a)
      in (s', a))"

definition prune_source :: "time \<Rightarrow> string \<times> time \<Rightarrow> auth \<Rightarrow> auth" where
  "prune_source now entry a = (case entry of (source, seen) \<Rightarrow>
     if seen < now - ac_Window (au_config a) - ac_Cooldown (au_config a) then
       a\<lparr>au_entries := au_entries a - int (length (sl_times (slots_of a source))),
         au_capacity := au_capacity a - sl_cap (slots_of a source),
         au_failures := AList.delete source (au_failures a),
         au_lastAlert := AList.delete source (au_lastAlert a),
         au_lastSeen := AList.delete source (au_lastSeen a)\<rparr>
     else snd (auth_trim source (now - ac_Window (au_config a)) a))"

definition Auth_prune :: "time \<Rightarrow> auth \<Rightarrow> auth" where
  "Auth_prune now a = (fold (prune_source now) (au_lastSeen a) a)\<lparr>au_lastPrune := now\<rparr>"

definition pruneIfDue :: "time \<Rightarrow> auth \<Rightarrow> auth" where
  "pruneIfDue now a =
     (if is_zero (au_lastPrune a) \<or> min second (ac_Window (au_config a)) \<le> time_sub now (au_lastPrune a)
      then Auth_prune now a else a)"

section \<open>Observation\<close>

definition success_event :: "(nat \<Rightarrow> string) \<Rightarrow> auth_observation \<Rightarrow> auth \<Rightarrow> event" where
  "success_event ids ob a =
     (let source = addr_string (ao_SourceIP ob);
          cutoff = ao_ObservedAt ob - ac_Window (au_config a);
          prior = length (filter (\<lambda>t. \<not> t < cutoff \<and> \<not> ao_ObservedAt ob < t) (sl_times (slots_of a source)));
          ev = [(''method'', Text (ao_Method ob)), (''window_millis'', Number (milliseconds (ac_Window (au_config a))))];
          ev = (if 0 < prior
                then AList.update ''count_basis'' (Text ''openssh_final_failure'')
                  (AList.update ''window'' (Dur (ac_Window (au_config a)))
                  (AList.update ''preceding_source_failures'' (Number (int prior)) ev))
                else ev);
          ev = (if ao_ObservedAt ob < au_incompleteUntil a
                then AList.update ''preceding_source_failures_complete'' (Text ''false'') ev else ev)
      in \<lparr>ev_ID = new_id ids (au_draws a) ''evt'', ev_IncidentID = new_id ids (au_draws a + 1) ''inc'',
          ev_ObservedAt = ao_ObservedAt ob, ev_Kind = ''ssh_login_success'', ev_Phase = ''observed'',
          ev_Severity = (if ao_Root ob then SeverityMedium else SeverityInfo),
          ev_Summary = Fmt ''successful SSH %s authentication'' [Text (ao_Method ob)],
          ev_SourceIP = source, ev_SourceRange = PrefixString source,
          ev_Target = Fmt ''ssh user=%s'' [Text (ao_User ob)], ev_Count = 1, ev_Geo = no_geo,
          ev_Evidence = ev\<rparr>)"

definition brute_force_event :: "(nat \<Rightarrow> string) \<Rightarrow> auth_observation \<Rightarrow> nat \<Rightarrow> auth \<Rightarrow> event" where
  "brute_force_event ids ob k a = \<lparr>ev_ID = new_id ids (au_draws a) ''evt'',
     ev_IncidentID = new_id ids (au_draws a + 1) ''inc'', ev_ObservedAt = ao_ObservedAt ob,
     ev_Kind = ''ssh_brute_force'', ev_Phase = ''start'', ev_Severity = SeverityHigh,
     ev_Summary = Fmt ''%d SSH authentication failures in %s'' [Number (int k), Dur (ac_Window (au_config a))],
     ev_SourceIP = addr_string (ao_SourceIP ob), ev_SourceRange = PrefixString (addr_string (ao_SourceIP ob)),
     ev_Target = Fmt ''ssh user=%s'' [Text (ao_User ob)], ev_Count = of_nat k, ev_Geo = no_geo,
     ev_Evidence = [(''window_millis'', Number (milliseconds (ac_Window (au_config a)))),
       (''method'', Text (ao_Method ob)), (''invalid_user'', Bool (ao_InvalidUser ob)),
       (''count_basis'', Text ''openssh_final_failure''),
       (''detection_window_complete'', Bool (\<not> ao_ObservedAt ob < au_incompleteUntil a))]\<rparr>"

text \<open>Counting one failure, after the source was admitted.\<close>

definition append_failure :: "(nat \<Rightarrow> string) \<Rightarrow> auth_observation \<Rightarrow> slots \<Rightarrow> auth \<Rightarrow> event option \<times> auth" where
  "append_failure ids ob kept a =
     (let source = addr_string (ao_SourceIP ob); now = ao_ObservedAt ob;
          kept = kept\<lparr>sl_times := sl_times kept @ [now]\<rparr>;
          k = length (sl_times kept);
          a = a\<lparr>au_entries := au_entries a + 1, au_failures := AList.update source kept (au_failures a),
                au_lastSeen := AList.update source now (au_lastSeen a)\<rparr>;
          alerted = (case map_of (au_lastAlert a) source of None \<Rightarrow> zero_time | Some t \<Rightarrow> t)
      in if int k < ac_Threshold (au_config a) \<or> time_sub now alerted < ac_Cooldown (au_config a)
         then (None, a)
         else (Some (brute_force_event ids ob k a),
           a\<lparr>au_lastAlert := AList.update source now (au_lastAlert a), au_draws := au_draws a + 2\<rparr>))"

definition grow :: "slots \<Rightarrow> auth \<Rightarrow> (slots \<times> auth) option" where
  "grow kept a =
     (if int (length (sl_times kept)) = sl_cap kept then
        let available = au_entryLimit a - au_capacity a in
        if available \<le> 0 then None
        else
          let capacity = min (min (max 1 (2 * sl_cap kept)) maxFailuresPerAuthSource) (sl_cap kept + available)
          in Some (kept\<lparr>sl_cap := capacity\<rparr>, a\<lparr>au_capacity := au_capacity a + (capacity - sl_cap kept)\<rparr>)
      else Some (kept, a))"

definition drop_oldest :: "time \<Rightarrow> slots \<times> auth \<Rightarrow> slots \<times> auth" where
  "drop_oldest now ka = (case ka of (kept, a) \<Rightarrow>
     if maxFailuresPerAuthSource \<le> int (length (sl_times kept))
     then (kept\<lparr>sl_times := tl (sl_times kept)\<rparr>,
           markIncomplete now (a\<lparr>au_entries := au_entries a - 1, au_truncated := saturating_inc (au_truncated a)\<rparr>))
     else (kept, a))"

definition record_failure :: "(nat \<Rightarrow> string) \<Rightarrow> auth_observation \<Rightarrow> auth \<Rightarrow> event option \<times> auth" where
  "record_failure ids ob a =
     (let source = addr_string (ao_SourceIP ob); now = ao_ObservedAt ob;
          (kept, a) = drop_oldest now (auth_trim source (now - ac_Window (au_config a)) a);
          (kept, a) = (if int (length (sl_times kept)) = sl_cap kept \<and> au_entryLimit a \<le> au_capacity a
                       then (let a = pruneIfDue now a in (slots_of a source, a)) else (kept, a))
      in case grow kept a of
           None \<Rightarrow> (None, refuse now a)
         | Some (kept, a) \<Rightarrow> append_failure ids ob kept a)"

definition Auth_Observe :: "(nat \<Rightarrow> string) \<Rightarrow> auth_observation \<Rightarrow> auth \<Rightarrow> event option \<times> auth" where
  "Auth_Observe ids ob a =
     (if ao_Kind ob = AuthSuccess then (Some (success_event ids ob a), a\<lparr>au_draws := au_draws a + 2\<rparr>)
      else if ao_Kind ob \<noteq> AuthFailure \<or> ao_Method ob = ''pam''
      then (None, a\<lparr>au_auxiliary := au_auxiliary a + 1\<rparr>)
      else
        let now = ao_ObservedAt ob; source = addr_string (ao_SourceIP ob);
            a = a\<lparr>au_observed := saturating_inc (au_observed a)\<rparr>;
            a = (if uint (au_observed a) mod 1024 = 0 then Auth_prune now a else a)
        in if map_of (au_failures a) source = None \<and> maxAuthSources \<le> int (length (au_failures a)) then
             let a = pruneIfDue now a in
             if maxAuthSources \<le> int (length (au_failures a))
             then (None, refuse now (a\<lparr>au_rejected := saturating_inc (au_rejected a)\<rparr>))
             else record_failure ids ob a
           else record_failure ids ob a)"

section \<open>Bounds and accounting of the failure history\<close>

definition live_entries :: "(string \<times> slots) list \<Rightarrow> nat" where
  "live_entries m = al_sum (\<lambda>s. length (sl_times s)) m"

definition allocated :: "(string \<times> slots) list \<Rightarrow> nat" where
  "allocated m = al_sum (\<lambda>s. nat (sl_cap s)) m"

definition slots_ok :: "slots \<Rightarrow> bool" where
  "slots_ok s \<longleftrightarrow> int (length (sl_times s)) \<le> sl_cap s \<and> sl_cap s \<le> maxFailuresPerAuthSource"

definition auth_inv :: "auth \<Rightarrow> bool" where
  "auth_inv a \<longleftrightarrow> keys_distinct (au_failures a) \<and> keys_distinct (au_lastSeen a) \<and> keys_distinct (au_lastAlert a) \<and>
     (\<forall>k s. map_of (au_failures a) k = Some s \<longrightarrow> slots_ok s) \<and>
     au_entries a = int (live_entries (au_failures a)) \<and> au_capacity a = int (allocated (au_failures a)) \<and>
     au_capacity a \<le> au_entryLimit a \<and> 0 \<le> au_entryLimit a \<and>
     int (length (au_failures a)) \<le> maxAuthSources \<and>
     dom (map_of (au_failures a)) = dom (map_of (au_lastSeen a)) \<and>
     dom (map_of (au_lastAlert a)) \<subseteq> dom (map_of (au_lastSeen a))"

lemma NewAuth_inv: "auth_inv (NewAuth cfg)"
  by (simp add: auth_inv_def NewAuth_def live_entries_def allocated_def maxAuthSources_def maxAuthFailureEntries_def)

lemma auth_inv_frame [simp]:
  "auth_inv (a\<lparr>au_lastPrune := t\<rparr>) = auth_inv a" "auth_inv (a\<lparr>au_observed := x\<rparr>) = auth_inv a"
  "auth_inv (a\<lparr>au_auxiliary := x\<rparr>) = auth_inv a" "auth_inv (a\<lparr>au_rejected := x\<rparr>) = auth_inv a"
  "auth_inv (a\<lparr>au_refused := x\<rparr>) = auth_inv a" "auth_inv (a\<lparr>au_truncated := x\<rparr>) = auth_inv a"
  "auth_inv (a\<lparr>au_draws := k\<rparr>) = auth_inv a" "auth_inv (a\<lparr>au_incompleteUntil := t\<rparr>) = auth_inv a"
  by (simp_all add: auth_inv_def)

lemma slots_of_frame [simp]:
  "slots_of (a\<lparr>au_lastPrune := t\<rparr>) k = slots_of a k" "slots_of (a\<lparr>au_observed := x\<rparr>) k = slots_of a k"
  "slots_of (a\<lparr>au_auxiliary := x\<rparr>) k = slots_of a k" "slots_of (a\<lparr>au_rejected := x\<rparr>) k = slots_of a k"
  "slots_of (a\<lparr>au_refused := x\<rparr>) k = slots_of a k" "slots_of (a\<lparr>au_truncated := x\<rparr>) k = slots_of a k"
  "slots_of (a\<lparr>au_draws := n\<rparr>) k = slots_of a k" "slots_of (a\<lparr>au_incompleteUntil := t\<rparr>) k = slots_of a k"
  by (simp_all add: slots_of_def)

lemma markIncomplete_frame [simp]:
  "au_failures (markIncomplete t a) = au_failures a" "au_lastSeen (markIncomplete t a) = au_lastSeen a"
  "au_lastAlert (markIncomplete t a) = au_lastAlert a" "au_entries (markIncomplete t a) = au_entries a"
  "au_capacity (markIncomplete t a) = au_capacity a" "au_entryLimit (markIncomplete t a) = au_entryLimit a"
  "au_config (markIncomplete t a) = au_config a" "au_draws (markIncomplete t a) = au_draws a"
  by (simp_all add: markIncomplete_def Let_def)

lemma refuse_inv: "auth_inv a \<Longrightarrow> auth_inv (refuse t a)"
  by (simp add: refuse_def markIncomplete_def Let_def)

text \<open>Replacing the slots of a known source.\<close>

lemma auth_inv_set_slots:
  assumes inv: "auth_inv a" and s: "map_of (au_failures a) source = Some s"
    and ok: "slots_ok s'" and room: "au_capacity a + (sl_cap s' - sl_cap s) \<le> au_entryLimit a"
  shows "auth_inv (a\<lparr>au_entries := au_entries a - (int (length (sl_times s)) - int (length (sl_times s'))),
     au_capacity := au_capacity a - (sl_cap s - sl_cap s'), au_failures := AList.update source s' (au_failures a)\<rparr>)"
proof -
  have "slots_ok s" using inv s by (auto simp: auth_inv_def)
  then have cap: "0 \<le> sl_cap s" "0 \<le> sl_cap s'" using ok by (auto simp: slots_ok_def)
  have e: "live_entries (AList.update source s' (au_failures a)) + length (sl_times s) = live_entries (au_failures a) + length (sl_times s')"
    unfolding live_entries_def by (rule al_sum_update_Some [OF s])
  have c: "allocated (AList.update source s' (au_failures a)) + nat (sl_cap s) = allocated (au_failures a) + nat (sl_cap s')"
    unfolding allocated_def by (rule al_sum_update_Some [OF s])
  show ?thesis
    using inv ok room e c cap s by (auto simp: auth_inv_def map_of_update length_update_Some)
qed

lemma auth_trim_inv:
  assumes inv: "auth_inv a" and t: "auth_trim source cutoff a = (s', a')"
  shows "auth_inv a' \<and> slots_of a' source = s' \<and> slots_ok s' \<and> au_lastSeen a' = au_lastSeen a \<and>
    au_lastAlert a' = au_lastAlert a \<and> au_config a' = au_config a \<and> au_entryLimit a' = au_entryLimit a \<and>
    length (au_failures a') = length (au_failures a) \<and>
    dom (map_of (au_failures a')) = dom (map_of (au_failures a)) \<and>
    sl_times s' = filter (\<lambda>t. \<not> t < cutoff) (sl_times (slots_of a source))"
proof -
  define s where "s = slots_of a source"
  define kept where "kept = filter (\<lambda>t. \<not> t < cutoff) (sl_times s)"
  have s': "s' = \<lparr>sl_times = kept, sl_cap = (if kept = [] \<or> int (length kept) * 2 < sl_cap s then int (length kept) else sl_cap s)\<rparr>"
    using t by (auto simp: auth_trim_def Let_def s_def kept_def)
  have ok: "slots_ok s" using inv by (auto simp: s_def slots_of_def auth_inv_def no_slots_def slots_ok_def maxFailuresPerAuthSource_def split: option.split)
  have len: "length kept \<le> length (sl_times s)" by (simp add: kept_def)
  have ok': "slots_ok s'" "sl_cap s' \<le> sl_cap s" using ok len by (auto simp: s' slots_ok_def)
  show ?thesis
  proof (cases "map_of (au_failures a) source")
    case None
    then have "s = no_slots" by (simp add: s_def slots_of_def)
    then have "s' = no_slots" "a' = a" using t None
      by (auto simp: s' kept_def no_slots_def auth_trim_def Let_def s_def [symmetric])
    then show ?thesis using inv ok' None \<open>s = no_slots\<close> by (simp add: slots_of_def no_slots_def s_def [symmetric])
  next
    case (Some x)
    then have x: "x = s" by (simp add: s_def slots_of_def)
    have a': "a' = a\<lparr>au_entries := au_entries a - (int (length (sl_times s)) - int (length (sl_times s'))),
       au_capacity := au_capacity a - (sl_cap s - sl_cap s'), au_failures := AList.update source s' (au_failures a)\<rparr>"
      using t Some by (auto simp: auth_trim_def Let_def s_def [symmetric] kept_def [symmetric] s')
    have "auth_inv a'"
      unfolding a' using inv Some ok' x by (intro auth_inv_set_slots) (auto simp: auth_inv_def)
    moreover have "dom (map_of (au_failures a')) = dom (map_of (au_failures a))"
      using Some by (simp add: a' map_of_update insert_absorb domIff)
    moreover have "slots_of a' source = s'" by (simp add: a' slots_of_def map_of_update)
    moreover have "length (au_failures a') = length (au_failures a)" by (simp add: a' length_update_Some [OF Some])
    moreover have "sl_times s' = filter (\<lambda>t. \<not> t < cutoff) (sl_times (slots_of a source))"
      by (simp add: s' kept_def s_def)
    ultimately show ?thesis using ok'(1) by (simp add: a')
  qed
qed

lemma length_card: "keys_distinct m \<Longrightarrow> length m = card (dom (map_of m))"
  using distinct_card [of "map fst m"] by (simp add: keys_distinct_def dom_map_of_conv_image_fst)

lemma auth_inv_delete:
  assumes inv: "auth_inv a"
  shows "auth_inv (a\<lparr>au_entries := au_entries a - int (length (sl_times (slots_of a source))),
     au_capacity := au_capacity a - sl_cap (slots_of a source),
     au_failures := AList.delete source (au_failures a), au_lastAlert := AList.delete source (au_lastAlert a),
     au_lastSeen := AList.delete source (au_lastSeen a)\<rparr>)"
proof (cases "map_of (au_failures a) source")
  case None
  have "dom (map_of (au_failures a)) = dom (map_of (au_lastSeen a))"
    "dom (map_of (au_lastAlert a)) \<subseteq> dom (map_of (au_lastSeen a))"
    using inv by (simp_all add: auth_inv_def)
  then have "map_of (au_lastSeen a) source = None" "map_of (au_lastAlert a) source = None"
    using None by (metis domIff subsetD)+
  then show ?thesis using inv None by (simp add: slots_of_def no_slots_def map_of_None_delete)
next
  case (Some s)
  have kd: "keys_distinct (au_failures a)" using inv by (simp add: auth_inv_def)
  have "0 \<le> sl_cap s" using inv Some by (force simp: auth_inv_def slots_ok_def)
  moreover have "live_entries (AList.delete source (au_failures a)) + length (sl_times s) = live_entries (au_failures a)"
    unfolding live_entries_def by (rule al_sum_delete_Some [OF kd Some])
  moreover have "allocated (AList.delete source (au_failures a)) + nat (sl_cap s) = allocated (au_failures a)"
    unfolding allocated_def by (rule al_sum_delete_Some [OF kd Some])
  ultimately show ?thesis
    using inv Some order_trans [OF of_nat_mono [OF length_delete_le [of source "au_failures a"]]]
    by (auto simp: auth_inv_def slots_of_def map_of_delete)
qed

text \<open>What a sweep does to a state: the invariant stays, histories only shrink, and nothing outside
  the histories changes; what is remembered of a source is dropped only once it is old.\<close>

definition alert_state :: "auth \<Rightarrow> string \<Rightarrow> time option \<times> time option" where
  "alert_state a k = (map_of (au_lastSeen a) k, map_of (au_lastAlert a) k)"

definition aged :: "time \<Rightarrow> auth \<Rightarrow> auth \<Rightarrow> bool" where
  "aged now a a' \<longleftrightarrow> au_config a' = au_config a \<and> (\<forall>k. alert_state a' k = alert_state a k \<or> alert_state a' k = (None, None) \<and>
     (\<exists>seen. map_of (au_lastSeen a) k = Some seen \<and> seen < now - ac_Window (au_config a) - ac_Cooldown (au_config a)))"

lemma aged_refl: "aged now a a"
  by (simp add: aged_def)

lemma aged_frame:
  assumes "aged now a b" "au_config a' = au_config a" "au_lastSeen a' = au_lastSeen a" "au_lastAlert a' = au_lastAlert a"
    "au_config b' = au_config b" "au_lastSeen b' = au_lastSeen b" "au_lastAlert b' = au_lastAlert b"
  shows "aged now a' b'"
  using assms by (simp add: aged_def alert_state_def)

lemma aged_trans:
  assumes "aged now a b" "aged now b c"
  shows "aged now a c"
proof -
  have "alert_state c k = alert_state a k \<or> alert_state c k = (None, None) \<and>
     (\<exists>seen. map_of (au_lastSeen a) k = Some seen \<and> seen < now - ac_Window (au_config a) - ac_Cooldown (au_config a))" for k
    using assms unfolding aged_def by (metis alert_state_def option.distinct(1) prod.inject)
  then show ?thesis using assms by (simp add: aged_def)
qed

definition swept :: "time \<Rightarrow> auth \<Rightarrow> auth \<Rightarrow> bool" where
  "swept now a a' \<longleftrightarrow> auth_inv a' \<and> aged now a a' \<and> au_config a' = au_config a \<and> au_entryLimit a' = au_entryLimit a \<and>
     dom (map_of (au_failures a')) \<subseteq> dom (map_of (au_failures a)) \<and>
     (\<forall>k. subseq (sl_times (slots_of a' k)) (sl_times (slots_of a k)))"

lemma swept_refl: "auth_inv a \<Longrightarrow> swept now a a"
  by (simp add: swept_def aged_refl)

lemma swept_trans: "swept now a b \<Longrightarrow> swept now b c \<Longrightarrow> swept now a c"
  unfolding swept_def by (metis aged_trans order_trans subseq_order.order_trans)

lemma auth_trim_other: "auth_trim source cutoff a = (s', a') \<Longrightarrow> k \<noteq> source \<Longrightarrow> slots_of a' k = slots_of a k"
  by (auto simp: auth_trim_def Let_def slots_of_def map_of_update)

lemma auth_trim_swept:
  assumes "auth_inv a" "auth_trim source cutoff a = (s', a')"
  shows "swept now a a'"
proof -
  note t = auth_trim_inv [OF assms]
  have "subseq (sl_times (slots_of a' k)) (sl_times (slots_of a k))" for k
    using t auth_trim_other [OF assms(2), of k] by (cases "k = source") auto
  then show ?thesis using t by (simp add: swept_def aged_def alert_state_def)
qed

lemma prune_source_swept:
  assumes inv: "auth_inv a" and seen: "map_of (au_lastSeen a) source = Some seen"
  shows "swept now a (prune_source now (source, seen) a)"
    and "k \<noteq> source \<Longrightarrow> map_of (au_lastSeen (prune_source now (source, seen) a)) k = map_of (au_lastSeen a) k"
proof -
  obtain s' a' where t: "auth_trim source (now - ac_Window (au_config a)) a = (s', a')" by fastforce
  show "swept now a (prune_source now (source, seen) a)"
  proof (cases "seen < now - ac_Window (au_config a) - ac_Cooldown (au_config a)")
    case True
    then show ?thesis using auth_inv_delete [OF inv, of source] seen
      by (auto simp: prune_source_def swept_def slots_of_def map_of_delete no_slots_def aged_def alert_state_def)
  next
    case False
    then show ?thesis using auth_trim_swept [OF inv t] by (simp add: prune_source_def t)
  qed
  show "k \<noteq> source \<Longrightarrow> map_of (au_lastSeen (prune_source now (source, seen) a)) k = map_of (au_lastSeen a) k"
    using auth_trim_inv [OF inv t] by (simp add: prune_source_def t map_of_delete)
qed

lemma fold_swept:
  assumes "auth_inv a" and "keys_distinct es" and "\<And>k t. (k, t) \<in> set es \<Longrightarrow> map_of (au_lastSeen a) k = Some t"
  shows "swept now a (fold (prune_source now) es a)"
  using assms
proof (induction es arbitrary: a)
  case (Cons e es)
  obtain k t where e: "e = (k, t)" by (cases e)
  let ?b = "prune_source now e a"
  have here: "map_of (au_lastSeen a) k = Some t" using Cons.prems(3) [of k t] by (simp add: e)
  have b: "swept now a ?b" unfolding e by (rule prune_source_swept [OF Cons.prems(1) here])
  have "map_of (au_lastSeen ?b) k' = Some t'" if "(k', t') \<in> set es" for k' t'
  proof -
    have "k' \<noteq> k" using Cons.prems(2) that by (force simp: e)
    then show ?thesis using Cons.prems(3) [of k' t'] that prune_source_swept(2) [OF Cons.prems(1) here, of k']
      by (simp add: e)
  qed
  then have "swept now ?b (fold (prune_source now) es ?b)"
    using b Cons.prems(2) by (intro Cons.IH) (simp_all add: swept_def)
  then show ?case using swept_trans [OF b] by simp
qed (simp add: swept_refl)

lemma Auth_prune_swept: "auth_inv a \<Longrightarrow> swept now a (Auth_prune now a)"
proof -
  assume inv: "auth_inv a"
  then have kd: "keys_distinct (au_lastSeen a)" by (simp add: auth_inv_def)
  have "swept now a (fold (prune_source now) (au_lastSeen a) a)"
    by (rule fold_swept [OF inv kd]) (use kd in \<open>simp add: map_of_iff_in\<close>)
  then show ?thesis by (simp add: swept_def Auth_prune_def aged_def alert_state_def)
qed

lemma pruneIfDue_swept: "auth_inv a \<Longrightarrow> swept now a (pruneIfDue now a)"
  by (simp add: pruneIfDue_def Auth_prune_swept swept_refl)

text \<open>Room for a source: it is known, or one more source fits.\<close>

definition has_room :: "string \<Rightarrow> auth \<Rightarrow> bool" where
  "has_room source a \<longleftrightarrow> map_of (au_failures a) source \<noteq> None \<or> int (length (au_failures a)) < maxAuthSources"

lemma swept_room:
  assumes "auth_inv a" "swept now a a'" "has_room source a"
  shows "has_room source a'"
proof (cases "map_of (au_failures a') source = None \<and> map_of (au_failures a) source \<noteq> None")
  case True
  then have "dom (map_of (au_failures a')) \<subset> dom (map_of (au_failures a))"
    using assms(2) unfolding swept_def by (metis domIff psubsetI)
  then have "card (dom (map_of (au_failures a'))) < card (dom (map_of (au_failures a)))"
    by (intro psubset_card_mono) (simp_all add: finite_dom_map_of)
  then have "length (au_failures a') < length (au_failures a)"
    using assms(1,2) by (simp add: length_card auth_inv_def swept_def)
  then show ?thesis using assms(1) by (simp add: has_room_def auth_inv_def)
next
  case False
  have "card (dom (map_of (au_failures a'))) \<le> card (dom (map_of (au_failures a)))"
    using assms(2) by (intro card_mono) (simp_all add: finite_dom_map_of swept_def)
  then have "length (au_failures a') \<le> length (au_failures a)"
    using assms(1,2) by (simp add: length_card auth_inv_def swept_def)
  then show ?thesis using False assms(3) by (auto simp: has_room_def)
qed

section \<open>One failure\<close>

text \<open>The history of the source that is about to be stored, and the state it will be stored in.\<close>

definition stored :: "string \<Rightarrow> time \<Rightarrow> slots \<Rightarrow> auth \<Rightarrow> auth" where
  "stored source now kept a = a\<lparr>au_failures := AList.update source kept (au_failures a),
     au_lastSeen := AList.update source now (au_lastSeen a)\<rparr>"

lemma stored_inv:
  assumes inv: "auth_inv a" and room: "has_room source a"
  shows "auth_inv (stored source now (slots_of a source) a)"
proof (cases "map_of (au_failures a) source")
  case None
  then show ?thesis using inv room
    by (auto simp: auth_inv_def stored_def slots_of_def map_of_update has_room_def length_update_None
        live_entries_def allocated_def al_sum_update_None no_slots_def slots_ok_def maxFailuresPerAuthSource_def)
next
  case (Some s)
  then show ?thesis using inv
    by (auto simp: auth_inv_def stored_def slots_of_def map_of_update update_unchanged)
qed

lemma stored_slots: "map_of (au_failures (stored source now s a)) source = Some s"
  by (simp add: stored_def map_of_update)

lemma stored_change:
  fixes a :: auth
  assumes "auth_inv (stored source now s a)" and "slots_ok s'" and "au_capacity a + (sl_cap s' - sl_cap s) \<le> au_entryLimit a"
  shows "auth_inv (stored source now s' (a\<lparr>au_entries := au_entries a - (int (length (sl_times s)) - int (length (sl_times s'))),
     au_capacity := au_capacity a - (sl_cap s - sl_cap s')\<rparr>))"
proof -
  let ?b = "stored source now s a"
  have "stored source now s' (a\<lparr>au_entries := au_entries a - (int (length (sl_times s)) - int (length (sl_times s'))),
      au_capacity := au_capacity a - (sl_cap s - sl_cap s')\<rparr>) =
    ?b\<lparr>au_entries := au_entries ?b - (int (length (sl_times s)) - int (length (sl_times s'))),
      au_capacity := au_capacity ?b - (sl_cap s - sl_cap s'), au_failures := AList.update source s' (au_failures ?b)\<rparr>"
    by (cases a) (simp add: stored_def update_update_same)
  moreover have "au_capacity ?b + (sl_cap s' - sl_cap s) \<le> au_entryLimit ?b"
    using assms(3) by (simp add: stored_def)
  ultimately show ?thesis
    using auth_inv_set_slots [OF assms(1) stored_slots assms(2)] by presburger
qed

lemma stored_ok: "auth_inv (stored source now s a) \<Longrightarrow> slots_ok s"
  using stored_slots [of source now s a] by (simp add: auth_inv_def)

lemma stored_frame [simp]:
  "auth_inv (stored source now s (a\<lparr>au_truncated := x\<rparr>)) = auth_inv (stored source now s a)"
  "auth_inv (stored source now s (markIncomplete t a)) = auth_inv (stored source now s a)"
  "auth_inv (stored source now s (a\<lparr>au_incompleteUntil := t\<rparr>)) = auth_inv (stored source now s a)"
  by (simp_all add: auth_inv_def stored_def)

lemma append_failure_inv:
  assumes "auth_inv (stored (addr_string (ao_SourceIP ob)) (ao_ObservedAt ob) kept a)"
    and "int (length (sl_times kept)) < sl_cap kept"
  shows "auth_inv (snd (append_failure ids ob kept a))"
proof -
  let ?source = "addr_string (ao_SourceIP ob)" and ?now = "ao_ObservedAt ob"
  let ?kept = "kept\<lparr>sl_times := sl_times kept @ [?now]\<rparr>"
  have "slots_ok ?kept" using stored_ok [OF assms(1)] assms(2) by (simp add: slots_ok_def)
  then have "auth_inv (stored ?source ?now ?kept (a\<lparr>au_entries := au_entries a + 1\<rparr>))"
    using stored_change [OF assms(1), of ?kept] assms(1) by (simp add: auth_inv_def stored_def)
  then show ?thesis
    by (auto simp: append_failure_def Let_def stored_def auth_inv_def map_of_update)
qed

lemma grow_inv:
  assumes inv: "auth_inv (stored source now kept a)" and g: "grow kept a = Some (kept', a')"
    and few: "int (length (sl_times kept)) < maxFailuresPerAuthSource"
  shows "auth_inv (stored source now kept' a') \<and> int (length (sl_times kept')) < sl_cap kept' \<and>
    sl_times kept' = sl_times kept \<and> au_config a' = au_config a \<and> au_failures a' = au_failures a \<and> au_lastAlert a' = au_lastAlert a \<and> au_lastSeen a' = au_lastSeen a \<and>
    au_entryLimit a' = au_entryLimit a"
proof (cases "int (length (sl_times kept)) = sl_cap kept")
  case True
  have ok: "slots_ok kept" by (rule stored_ok [OF inv])
  define cap where "cap = min (min (max 1 (2 * sl_cap kept)) maxFailuresPerAuthSource) (sl_cap kept + (au_entryLimit a - au_capacity a))"
  have av: "au_capacity a < au_entryLimit a" and k: "kept' = kept\<lparr>sl_cap := cap\<rparr>"
    and a': "a' = a\<lparr>au_capacity := au_capacity a + (cap - sl_cap kept)\<rparr>"
    using g True by (auto simp: grow_def Let_def cap_def split: if_splits)
  have cap: "sl_cap kept < cap" "cap \<le> maxFailuresPerAuthSource" "cap - sl_cap kept \<le> au_entryLimit a - au_capacity a"
  proof -
    have pos: "0 \<le> sl_cap kept" using True by (metis of_nat_0_le_iff)
    show "cap \<le> maxFailuresPerAuthSource" "cap - sl_cap kept \<le> au_entryLimit a - au_capacity a"
      by (auto simp: cap_def)
    show "sl_cap kept < cap" using pos av few True by (auto simp: cap_def)
  qed
  then have "slots_ok kept'" using ok by (simp add: k slots_ok_def)
  then have "auth_inv (stored source now kept' a')"
    using stored_change [OF inv, of kept'] cap(3) by (simp add: k a' algebra_simps)
  then show ?thesis using cap(1) True by (simp add: k a')
next
  case False
  then show ?thesis using g inv stored_ok [OF inv] by (auto simp: grow_def slots_ok_def)
qed

text \<open>A failure is refused, or appended to a history that only lost entries.\<close>

lemma record_failure_cases:
  assumes inv: "auth_inv a" and room: "has_room (addr_string (ao_SourceIP ob)) a"
  obtains (refused) a1 where "record_failure ids ob a = (None, refuse (ao_ObservedAt ob) a1)" "swept (ao_ObservedAt ob) a a1"
  | (appended) k a2 where "record_failure ids ob a = append_failure ids ob k a2"
      "auth_inv (stored (addr_string (ao_SourceIP ob)) (ao_ObservedAt ob) k a2)" "int (length (sl_times k)) < sl_cap k"
      "au_config a2 = au_config a"
      "subseq (sl_times k) (filter (\<lambda>t. \<not> t < ao_ObservedAt ob - ac_Window (au_config a)) (sl_times (slots_of a (addr_string (ao_SourceIP ob)))))"
      "\<And>other. subseq (sl_times (slots_of a2 other)) (sl_times (slots_of a other))"
      "aged (ao_ObservedAt ob) a a2" "au_entryLimit a2 = au_entryLimit a"
proof -
  let ?source = "addr_string (ao_SourceIP ob)" and ?now = "ao_ObservedAt ob"
  obtain k0 a0 where t: "auth_trim ?source (?now - ac_Window (au_config a)) a = (k0, a0)" by fastforce
  note t0 = auth_trim_inv [OF inv t]
  have sw0: "swept ?now a a0" by (rule auth_trim_swept [OF inv t])
  have room0: "has_room ?source a0" by (rule swept_room [OF inv sw0 room])
  have inv0: "auth_inv a0" and k0: "k0 = slots_of a0 ?source" using t0 by auto
  show ?thesis
  proof (cases "maxFailuresPerAuthSource \<le> int (length (sl_times k0))")
    case True
    define k1 where "k1 = k0\<lparr>sl_times := tl (sl_times k0)\<rparr>"
    define a1 where "a1 = markIncomplete ?now (a0\<lparr>au_entries := au_entries a0 - 1, au_truncated := saturating_inc (au_truncated a0)\<rparr>)"
    have d: "drop_oldest ?now (auth_trim ?source (?now - ac_Window (au_config a)) a) = (k1, a1)"
      using True by (simp add: t drop_oldest_def k1_def a1_def)
    have full: "int (length (sl_times k0)) = sl_cap k0" "0 < length (sl_times k0)"
      using True t0 by (auto simp: slots_ok_def maxFailuresPerAuthSource_def)
    have less: "int (length (sl_times k1)) < sl_cap k1" using full by (cases "sl_times k0") (simp_all add: k1_def)
    have "slots_ok k1" using t0 full by (auto simp: k1_def slots_ok_def)
    moreover have "int (length (sl_times k0)) - int (length (sl_times k1)) = 1" "sl_cap k1 = sl_cap k0"
      using full by (cases "sl_times k0"; simp add: k1_def)+
    moreover have "au_capacity a0 \<le> au_entryLimit a0" using inv0 by (simp add: auth_inv_def)
    ultimately have "auth_inv (stored ?source ?now k1 (a0\<lparr>au_entries := au_entries a0 - 1\<rparr>))"
      using stored_change [OF stored_inv [OF inv0 room0, folded k0], of k1 ?now] by simp
    then have "auth_inv (stored ?source ?now k1 a1)" by (simp add: a1_def auth_inv_def stored_def)
    moreover have "record_failure ids ob a = append_failure ids ob k1 a1"
      using less by (simp add: record_failure_def d grow_def)
    moreover have "subseq (sl_times k1) (sl_times k0)" by (cases "sl_times k0") (simp_all add: k1_def list_emb_Cons)
    moreover have "aged ?now a a1" using sw0 by (auto simp: swept_def a1_def intro: aged_frame)
    ultimately show ?thesis using appended [of k1 a1] less t0 sw0 by (simp add: a1_def swept_def slots_of_def)
  next
    case False
    then have d: "drop_oldest ?now (auth_trim ?source (?now - ac_Window (au_config a)) a) = (k0, a0)"
      by (simp add: t drop_oldest_def)
    define a1 where "a1 = (if int (length (sl_times k0)) = sl_cap k0 \<and> au_entryLimit a0 \<le> au_capacity a0
      then pruneIfDue ?now a0 else a0)"
    have sw: "swept ?now a0 a1" using inv0 by (simp add: a1_def pruneIfDue_swept swept_refl)
    have inv1: "auth_inv a1" "has_room ?source a1" using sw swept_room [OF inv0 sw room0] by (auto simp: swept_def)
    have pr: "(if int (length (sl_times k0)) = sl_cap k0 \<and> au_entryLimit a0 \<le> au_capacity a0
        then (slots_of (pruneIfDue ?now a0) ?source, pruneIfDue ?now a0) else (k0, a0)) = (slots_of a1 ?source, a1)"
      by (simp add: a1_def k0)
    have r: "record_failure ids ob a = (case grow (slots_of a1 ?source) a1 of
        None \<Rightarrow> (None, refuse ?now a1) | Some (kept, a) \<Rightarrow> append_failure ids ob kept a)"
      by (simp only: record_failure_def Let_def d prod.case pr)
    show ?thesis
    proof (cases "grow (slots_of a1 ?source) a1")
      case None
      then show ?thesis using refused [of a1] swept_trans [OF sw0 sw] by (simp add: r)
    next
      case (Some p)
      then obtain k2 a2 where g: "grow (slots_of a1 ?source) a1 = Some (k2, a2)" by (cases p) auto
      have sub: "subseq (sl_times (slots_of a1 other)) (sl_times (slots_of a0 other))" for other
        using sw by (simp add: swept_def)
      have "int (length (sl_times (slots_of a1 ?source))) < maxFailuresPerAuthSource"
        using False list_emb_length [OF sub [of ?source]] unfolding k0 by simp
      then have g2: "auth_inv (stored ?source ?now k2 a2)" "int (length (sl_times k2)) < sl_cap k2"
        "sl_times k2 = sl_times (slots_of a1 ?source)" "au_config a2 = au_config a1" "au_failures a2 = au_failures a1"
        "au_lastAlert a2 = au_lastAlert a1" "au_lastSeen a2 = au_lastSeen a1" "au_entryLimit a2 = au_entryLimit a1"
        using grow_inv [OF stored_inv [OF inv1, of ?now] g] by auto
      have "subseq (sl_times k2) (sl_times k0)" using sub [of ?source] by (simp add: g2(3) k0)
      moreover have "subseq (sl_times (slots_of a2 other)) (sl_times (slots_of a other))" for other
        using swept_trans [OF sw0 sw] by (simp add: swept_def slots_of_def g2(5))
      moreover have "aged ?now a a2"
        using swept_trans [OF sw0 sw] g2(4,6,7) by (auto simp: swept_def intro: aged_frame)
      ultimately show ?thesis using appended [of k2 a2] g g2(1,2,4,8) t0 sw by (simp add: r swept_def)
    qed
  qed
qed

lemma record_failure_inv:
  assumes "auth_inv a" and "has_room (addr_string (ao_SourceIP ob)) a"
  shows "auth_inv (snd (record_failure ids ob a))"
  using assms
proof (cases rule: record_failure_cases [where ids = ids])
  case (refused a1)
  then show ?thesis by (simp add: refuse_inv swept_def)
next
  case (appended k a2)
  then show ?thesis by (simp add: append_failure_inv)
qed

lemma Auth_Observe_cases:
  assumes inv: "auth_inv a"
  obtains (success) "ao_Kind ob = AuthSuccess" "Auth_Observe ids ob a = (Some (success_event ids ob a), a\<lparr>au_draws := au_draws a + 2\<rparr>)"
  | (auxiliary) "ao_Kind ob \<noteq> AuthSuccess" "Auth_Observe ids ob a = (None, a\<lparr>au_auxiliary := au_auxiliary a + 1\<rparr>)"
  | (rejected) a1 where "ao_Kind ob \<noteq> AuthSuccess" "Auth_Observe ids ob a = (None, refuse (ao_ObservedAt ob) (a1\<lparr>au_rejected := saturating_inc (au_rejected a1)\<rparr>))" "swept (ao_ObservedAt ob) a a1"
  | (failure) a1 where "ao_Kind ob \<noteq> AuthSuccess" "ao_Kind ob = AuthFailure" "ao_Method ob \<noteq> ''pam''"
      "Auth_Observe ids ob a = record_failure ids ob a1" "swept (ao_ObservedAt ob) a a1" "has_room (addr_string (ao_SourceIP ob)) a1"
proof -
  let ?source = "addr_string (ao_SourceIP ob)" and ?now = "ao_ObservedAt ob"
  define a1 where "a1 = (let a = a\<lparr>au_observed := saturating_inc (au_observed a)\<rparr> in
    if uint (au_observed a) mod 1024 = 0 then Auth_prune ?now a else a)"
  have sw1: "swept (ao_ObservedAt ob) a a1"
    using inv Auth_prune_swept [of "a\<lparr>au_observed := saturating_inc (au_observed a)\<rparr>" ?now]
    by (simp add: a1_def Let_def swept_def aged_def alert_state_def)
  then have inv1: "auth_inv a1" by (simp add: swept_def)
  define a2 where "a2 = pruneIfDue ?now a1"
  have sw2: "swept ?now a a2" using swept_trans [OF sw1 pruneIfDue_swept [OF inv1]] by (simp add: a2_def)
  consider "ao_Kind ob = AuthSuccess" | "ao_Kind ob \<noteq> AuthSuccess" "ao_Kind ob \<noteq> AuthFailure \<or> ao_Method ob = ''pam''"
    | "ao_Kind ob \<noteq> AuthSuccess" "ao_Kind ob = AuthFailure" "ao_Method ob \<noteq> ''pam''" by blast
  then show ?thesis
  proof cases
    case 1
    then show ?thesis by (intro success) (simp_all add: Auth_Observe_def)
  next
    case 2
    then show ?thesis by (intro auxiliary) (simp_all add: Auth_Observe_def)
  next
    case 3
    then have o: "Auth_Observe ids ob a = (if map_of (au_failures a1) ?source = None \<and> maxAuthSources \<le> int (length (au_failures a1)) then
         if maxAuthSources \<le> int (length (au_failures a2))
         then (None, refuse ?now (a2\<lparr>au_rejected := saturating_inc (au_rejected a2)\<rparr>))
         else record_failure ids ob a2
       else record_failure ids ob a1)"
      by (simp add: Auth_Observe_def a1_def a2_def Let_def)
    consider "has_room ?source a1" "Auth_Observe ids ob a = record_failure ids ob a1"
      | "has_room ?source a2" "Auth_Observe ids ob a = record_failure ids ob a2"
      | "Auth_Observe ids ob a = (None, refuse ?now (a2\<lparr>au_rejected := saturating_inc (au_rejected a2)\<rparr>))"
      unfolding o by (cases "has_room ?source a1"; cases "maxAuthSources \<le> int (length (au_failures a2))")
        (auto simp: has_room_def)
    then show ?thesis using rejected [of a2] failure [of a1] failure [of a2] sw1 sw2 3 by cases simp_all
  qed
qed

lemma Auth_Observe_inv:
  assumes "auth_inv a"
  shows "auth_inv (snd (Auth_Observe ids ob a))"
  using assms
proof (cases rule: Auth_Observe_cases [where ids = ids and ob = ob])
  case (rejected a1)
  then show ?thesis by (simp add: refuse_inv swept_def)
next
  case (failure a1)
  then show ?thesis by (simp add: record_failure_inv swept_def)
qed (use assms in simp_all)

section \<open>Runs of the detector\<close>

definition auth_after :: "(nat \<Rightarrow> string) \<Rightarrow> auth_observation list \<Rightarrow> auth \<Rightarrow> auth" where
  "auth_after ids obs a = fold (\<lambda>ob a. snd (Auth_Observe ids ob a)) obs a"

lemma auth_after_snoc: "auth_after ids (obs @ [ob]) a = snd (Auth_Observe ids ob (auth_after ids obs a))"
  by (simp add: auth_after_def)

lemma auth_after_inv: "auth_inv a \<Longrightarrow> auth_inv (auth_after ids obs a)"
  by (induction obs rule: rev_induct) (simp_all add: auth_after_def Auth_Observe_inv)

lemma append_failure_frame:
  "au_config (snd (append_failure ids ob k a)) = au_config a"
  "au_entryLimit (snd (append_failure ids ob k a)) = au_entryLimit a"
  by (simp_all add: append_failure_def Let_def)

lemma refuse_frame [simp]:
  "au_config (refuse t a) = au_config a" "au_entryLimit (refuse t a) = au_entryLimit a"
  "slots_of (refuse t a) k = slots_of a k" "au_lastAlert (refuse t a) = au_lastAlert a"
  "au_lastSeen (refuse t a) = au_lastSeen a"
  by (simp_all add: refuse_def slots_of_def)

lemma append_failure_slots:
  "slots_of (snd (append_failure ids ob k a)) source =
     (if source = addr_string (ao_SourceIP ob) then k\<lparr>sl_times := sl_times k @ [ao_ObservedAt ob]\<rparr> else slots_of a source)"
  by (simp add: append_failure_def Let_def slots_of_def map_of_update)

text \<open>An observation the threshold counts for a source.\<close>

definition counted :: "string \<Rightarrow> auth_observation \<Rightarrow> bool" where
  "counted source ob \<longleftrightarrow> ao_Kind ob = AuthFailure \<and> ao_Method ob \<noteq> ''pam'' \<and> addr_string (ao_SourceIP ob) = source"

lemma AuthFailure_not_success [simp]: "AuthFailure \<noteq> AuthSuccess" "AuthSuccess \<noteq> AuthFailure"
  by (simp_all add: AuthFailure_def AuthSuccess_def)

text \<open>Every remembered time is the time of a distinct failure that was observed from that source.\<close>

lemma Auth_Observe_history:
  assumes inv: "auth_inv a" and hist: "subseq (sl_times (slots_of a source)) (map ao_ObservedAt (filter (counted source) obs))"
  shows "subseq (sl_times (slots_of (snd (Auth_Observe ids ob a)) source)) (map ao_ObservedAt (filter (counted source) (obs @ [ob])))"
proof -
  let ?h = "map ao_ObservedAt (filter (counted source) obs)" and ?h' = "map ao_ObservedAt (filter (counted source) (obs @ [ob]))"
  have grow: "subseq ts ?h \<Longrightarrow> subseq ts ?h'" for ts by (auto intro: list_emb_append2)
  from inv show ?thesis
  proof (cases rule: Auth_Observe_cases [where ids = ids and ob = ob])
    case (rejected a1)
    then have "subseq (sl_times (slots_of a1 source)) ?h"
      using hist by (meson subseq_order.order_trans swept_def)
    then show ?thesis using rejected grow by simp
  next
    case (failure a1)
    then have inv1: "auth_inv a1" and sub: "subseq (sl_times (slots_of a1 k)) (sl_times (slots_of a k))" for k
      by (simp_all add: swept_def)
    from inv1 failure(6) show ?thesis
    proof (cases rule: record_failure_cases [where ids = ids])
      case (refused a2)
      then have "subseq (sl_times (slots_of a2 source)) ?h"
        using hist sub [of source] by (meson subseq_order.order_trans swept_def)
      then show ?thesis using refused grow failure by simp
    next
      case (appended k a2)
      show ?thesis
      proof (cases "source = addr_string (ao_SourceIP ob)")
        case True
        have "subseq (sl_times k) (sl_times (slots_of a1 source))"
          using appended(5) subseq_filter_left True by (metis subseq_order.order_trans)
        then have "subseq (sl_times k) ?h" using hist sub [of source] by (meson subseq_order.order_trans)
        then show ?thesis using True failure(2,3,4) appended(1)
          by (simp add: append_failure_slots counted_def list_emb_append_mono)
      next
        case False
        have "subseq (sl_times (slots_of a2 source)) ?h"
          using hist sub [of source] appended(6) by (meson subseq_order.order_trans)
        then show ?thesis using False failure(4) appended(1) grow by (simp add: append_failure_slots)
      qed
    qed
  qed (use hist grow in simp_all)
qed

lemma auth_history:
  "subseq (sl_times (slots_of (auth_after ids obs (NewAuth cfg)) source)) (map ao_ObservedAt (filter (counted source) obs))"
proof (induction obs rule: rev_induct)
  case Nil
  then show ?case by (simp add: auth_after_def NewAuth_def slots_of_def no_slots_def)
next
  case (snoc ob obs)
  then show ?case
    using Auth_Observe_history [OF auth_after_inv [OF NewAuth_inv]] by (simp add: auth_after_snoc)
qed

lemma Auth_Observe_config:
  assumes "auth_inv a"
  shows "au_config (snd (Auth_Observe ids ob a)) = au_config a \<and> au_entryLimit (snd (Auth_Observe ids ob a)) = au_entryLimit a"
  using assms
proof (cases rule: Auth_Observe_cases [where ids = ids and ob = ob])
  case (failure a1)
  then have inv1: "auth_inv a1" and same: "au_config a1 = au_config a" "au_entryLimit a1 = au_entryLimit a"
    by (simp_all add: swept_def)
  from inv1 failure(6) show ?thesis
    by (cases rule: record_failure_cases [where ids = ids])
      (auto simp: failure(4) same swept_def append_failure_frame)
qed (auto simp: swept_def)

lemma auth_after_config:
  "au_config (auth_after ids obs (NewAuth cfg)) = cfg"
  "au_entryLimit (auth_after ids obs (NewAuth cfg)) = maxAuthFailureEntries"
proof (induction obs rule: rev_induct)
  case (snoc ob obs)
  {
    case 1
    show ?case using snoc Auth_Observe_config [OF auth_after_inv [OF NewAuth_inv]] by (simp add: auth_after_snoc)
  next
    case 2
    show ?case using snoc Auth_Observe_config [OF auth_after_inv [OF NewAuth_inv]] by (simp add: auth_after_snoc)
  }
qed (simp_all add: auth_after_def NewAuth_def)

text \<open>C34: whatever the journal says, the detector remembers at most 65536 sources, at most 4096 failures of
  each, and allocates at most 131072 timestamp slots; its counters of entries and slots are exact.\<close>

theorem auth_bounds:
  "let a = auth_after ids obs (NewAuth cfg) in
     int (length (au_failures a)) \<le> maxAuthSources \<and> int (length (au_lastAlert a)) \<le> maxAuthSources \<and>
     int (length (sl_times (slots_of a source))) \<le> maxFailuresPerAuthSource \<and>
     au_entries a = int (\<Sum>s\<leftarrow>map snd (au_failures a). length (sl_times s)) \<and>
     au_capacity a = int (\<Sum>s\<leftarrow>map snd (au_failures a). nat (sl_cap s)) \<and>
     au_entries a \<le> au_capacity a \<and> au_capacity a \<le> maxAuthFailureEntries"
proof -
  let ?a = "auth_after ids obs (NewAuth cfg)"
  have inv: "auth_inv ?a" by (intro auth_after_inv NewAuth_inv)
  have "length (au_lastAlert ?a) \<le> length (au_failures ?a)"
    using inv card_mono [of "dom (map_of (au_failures ?a))" "dom (map_of (au_lastAlert ?a))"]
    by (auto simp: auth_inv_def length_card finite_dom_map_of)
  moreover have "slots_ok (slots_of ?a source)"
    using inv by (auto simp: auth_inv_def slots_of_def no_slots_def slots_ok_def maxFailuresPerAuthSource_def split: option.split)
  moreover have "live_entries (au_failures ?a) \<le> allocated (au_failures ?a)"
  proof -
    have "length (sl_times s) \<le> nat (sl_cap s)" if "(k, s) \<in> set (au_failures ?a)" for k s
      using inv that by (force simp: auth_inv_def map_of_iff_in slots_ok_def)
    then show ?thesis unfolding live_entries_def allocated_def al_sum_def
      by (intro sum_list_mono) auto
  qed
  ultimately show ?thesis
    using inv auth_after_config(2) [of ids obs cfg]
    by (auto simp: auth_inv_def slots_ok_def Let_def live_entries_def allocated_def al_sum_def comp_def case_prod_beta)
qed


definition sample_failure :: "time \<Rightarrow> auth_observation" where
  "sample_failure t = \<lparr>ao_ObservedAt = t, ao_Kind = AuthFailure, ao_SourceIP = IP4 [10, 0, 0, 9], ao_SourcePort = 4022,
     ao_User = ''root'', ao_Method = ''password'', ao_Root = True, ao_InvalidUser = False\<rparr>"

definition sample_auth :: auth_config where
  "sample_auth = \<lparr>ac_Enabled = True, ac_Journalctl = ''/usr/bin/journalctl'', ac_Threshold = 2, ac_Window = minute,
     ac_Cooldown = minute, ac_HistoryHintsEnabled = False\<rparr>"


section \<open>The cooldown between alerts\<close>

text \<open>Alerts are remembered no later than the last failure, and that not in the future.\<close>

definition timely :: "time \<Rightarrow> auth \<Rightarrow> bool" where
  "timely now a \<longleftrightarrow> (\<forall>k alerted. map_of (au_lastAlert a) k = Some alerted \<longrightarrow>
       (\<exists>seen. map_of (au_lastSeen a) k = Some seen \<and> alerted \<le> seen)) \<and>
     (\<forall>k seen. map_of (au_lastSeen a) k = Some seen \<longrightarrow> seen \<le> now)"

definition guarded :: "time \<Rightarrow> string \<Rightarrow> time \<Rightarrow> auth \<Rightarrow> bool" where
  "guarded first source now a \<longleftrightarrow> (\<exists>t. map_of (au_lastAlert a) source = Some t \<and> first \<le> t) \<or>
     ac_Cooldown (au_config a) \<le> now - first"

lemma timely_mono: "timely t a \<Longrightarrow> t \<le> now \<Longrightarrow> timely now a"
  unfolding timely_def by (meson order_trans)

lemma aged_timely:
  assumes "timely t a" "aged now a b"
  shows "timely t b"
proof -
  have "map_of (au_lastSeen b) k = map_of (au_lastSeen a) k \<and> map_of (au_lastAlert b) k = map_of (au_lastAlert a) k \<or>
      map_of (au_lastSeen b) k = None \<and> map_of (au_lastAlert b) k = None" for k
    using assms(2) unfolding aged_def alert_state_def by blast
  then show ?thesis using assms(1) unfolding timely_def by (metis option.distinct(1))
qed

lemma aged_guarded:
  assumes "timely t a" "aged now a b" "guarded first source now a" "0 \<le> ac_Window (au_config a)"
  shows "guarded first source now b"
proof (cases "alert_state b source = alert_state a source")
  case True
  then show ?thesis using assms(2,3) by (simp add: guarded_def aged_def alert_state_def)
next
  case False
  then obtain seen where s: "map_of (au_lastSeen a) source = Some seen"
      "seen < now - ac_Window (au_config a) - ac_Cooldown (au_config a)" and cfg: "au_config b = au_config a"
    using assms(2) unfolding aged_def by blast
  have "ac_Cooldown (au_config a) \<le> now - first"
    using assms(1,3,4) s unfolding guarded_def timely_def by fastforce
  then show ?thesis by (simp add: guarded_def cfg)
qed

lemma append_failure_state:
  "au_lastSeen (snd (append_failure ids ob k a)) = AList.update (addr_string (ao_SourceIP ob)) (ao_ObservedAt ob) (au_lastSeen a)"
  "au_lastAlert (snd (append_failure ids ob k a)) = (if fst (append_failure ids ob k a) = None then au_lastAlert a
     else AList.update (addr_string (ao_SourceIP ob)) (ao_ObservedAt ob) (au_lastAlert a))"
  "fst (append_failure ids ob k a) = Some e \<Longrightarrow> ev_SourceIP e = addr_string (ao_SourceIP ob) \<and>
     ac_Cooldown (au_config a) \<le> time_sub (ao_ObservedAt ob)
       (case map_of (au_lastAlert a) (addr_string (ao_SourceIP ob)) of None \<Rightarrow> zero_time | Some t \<Rightarrow> t)"
  by (auto simp: append_failure_def Let_def brute_force_event_def split: if_splits)

lemma append_failure_timely:
  assumes "timely t a" "t \<le> ao_ObservedAt ob"
  shows "timely (ao_ObservedAt ob) (snd (append_failure ids ob k a))"
proof -
  have now: "timely (ao_ObservedAt ob) a" by (rule timely_mono [OF assms])
  then have "alerted \<le> ao_ObservedAt ob" if "map_of (au_lastAlert a) s = Some alerted" for s alerted
    using that unfolding timely_def by (meson order_trans)
  then show ?thesis
    using now unfolding timely_def append_failure_state(1,2) by (auto simp: map_of_update)
qed

lemma append_failure_guarded:
  assumes "guarded first source now a" "first \<le> ao_ObservedAt ob"
  shows "guarded first source now (snd (append_failure ids ob k a))"
  using assms unfolding guarded_def append_failure_state(2) append_failure_frame
  by (auto simp: map_of_update)

lemma Auth_Observe_alerts:
  assumes "auth_inv a"
  obtains (silent) "aged (ao_ObservedAt ob) a (snd (Auth_Observe ids ob a))"
      "ao_Kind ob = AuthSuccess \<or> fst (Auth_Observe ids ob a) = None"
  | (appended) b k where "aged (ao_ObservedAt ob) a b" "Auth_Observe ids ob a = append_failure ids ob k b"
  using assms
proof (cases rule: Auth_Observe_cases [where ids = ids and ob = ob])
  case (rejected a1)
  have "aged (ao_ObservedAt ob) a (snd (Auth_Observe ids ob a))"
    by (rule aged_frame [of _ a a1]) (use rejected in \<open>simp_all add: swept_def\<close>)
  then show ?thesis using silent rejected by simp
next
  case (failure a1)
  then have inv1: "auth_inv a1" and ag: "aged (ao_ObservedAt ob) a a1" by (simp_all add: swept_def)
  from inv1 failure(6) show ?thesis
  proof (cases rule: record_failure_cases [where ids = ids])
    case (refused a2)
    then have "aged (ao_ObservedAt ob) a a2" using ag by (auto simp: swept_def intro: aged_trans)
    then have "aged (ao_ObservedAt ob) a (snd (Auth_Observe ids ob a))"
      by (rule aged_frame) (simp_all add: refused failure)
    then show ?thesis using silent refused failure by simp
  next
    case (appended k a2)
    then show ?thesis using that(2) [of a2 k] aged_trans [OF ag] failure by simp
  qed
qed (use silent in \<open>auto simp: aged_def alert_state_def\<close>)

lemma Auth_Observe_keeps_guard:
  assumes inv: "auth_inv a" and timely: "timely t a" "t \<le> ao_ObservedAt ob"
    and guard: "guarded first source t a" "first \<le> t" and window: "0 \<le> ac_Window (au_config a)"
  shows "timely (ao_ObservedAt ob) (snd (Auth_Observe ids ob a)) \<and>
    guarded first source (ao_ObservedAt ob) (snd (Auth_Observe ids ob a))"
proof -
  let ?now = "ao_ObservedAt ob"
  have guard': "guarded first source ?now a" using guard(1) timely(2) by (auto simp: guarded_def)
  from inv show ?thesis
  proof (cases rule: Auth_Observe_alerts [where ids = ids and ob = ob])
    case silent
    then show ?thesis
      using aged_timely [OF timely(1)] timely_mono timely(2) aged_guarded [OF timely(1) _ guard' window] by blast
  next
    case (appended b k)
    have "timely t b" "guarded first source ?now b"
      using aged_timely [OF timely(1) appended(1)] aged_guarded [OF timely(1) appended(1) guard' window] by auto
    then show ?thesis
      using append_failure_timely append_failure_guarded timely(2) guard(2) by (simp add: appended(2))
  qed
qed

lemma auth_after_guard:
  assumes "sorted (map ao_ObservedAt obs)" and "\<And>o'. o' \<in> set obs \<Longrightarrow> t \<le> ao_ObservedAt o'"
    and "auth_inv a" "timely t a" "guarded first source t a" "first \<le> t" "0 \<le> ac_Window (au_config a)"
  shows "\<exists>t'. t \<le> t' \<and> (obs \<noteq> [] \<longrightarrow> t' = ao_ObservedAt (last obs)) \<and> (obs = [] \<longrightarrow> t' = t) \<and>
    timely t' (auth_after ids obs a) \<and> guarded first source t' (auth_after ids obs a)"
  using assms
proof (induction obs arbitrary: a t)
  case (Cons ob obs)
  let ?b = "snd (Auth_Observe ids ob a)" and ?now = "ao_ObservedAt ob"
  have le: "t \<le> ?now" using Cons.prems(2) by simp
  have step: "timely ?now ?b" "guarded first source ?now ?b"
    using Auth_Observe_keeps_guard [OF Cons.prems(3,4) le Cons.prems(5-7)] by blast+
  have "\<exists>t'. ?now \<le> t' \<and> (obs \<noteq> [] \<longrightarrow> t' = ao_ObservedAt (last obs)) \<and> (obs = [] \<longrightarrow> t' = ?now) \<and>
    timely t' (auth_after ids obs ?b) \<and> guarded first source t' (auth_after ids obs ?b)"
    using Cons.prems order_trans [OF Cons.prems(6) le] step
    by (intro Cons.IH) (auto simp: Auth_Observe_inv Auth_Observe_config)
  then show ?case using le by (force simp: auth_after_def)
qed (auto simp: auth_after_def)

lemma auth_after_timely:
  assumes "sorted (map ao_ObservedAt obs)" and "\<And>o'. o' \<in> set obs \<Longrightarrow> ao_ObservedAt o' \<le> now"
    and "0 \<le> ac_Window cfg"
  shows "timely now (auth_after ids obs (NewAuth cfg))"
proof (cases "obs = []")
  case True
  then show ?thesis by (simp add: auth_after_def NewAuth_def timely_def)
next
  case False
  define t where "t = ao_ObservedAt (hd obs)"
  have "timely t (NewAuth cfg)" by (simp add: NewAuth_def timely_def)
  moreover have "guarded (min t (t - ac_Cooldown cfg)) [] t (NewAuth cfg)" by (simp add: guarded_def NewAuth_def)
  moreover have "t \<le> ao_ObservedAt o'" if "o' \<in> set obs" for o'
    using assms(1) that False unfolding t_def by (cases obs) auto
  ultimately obtain t' where "t' = ao_ObservedAt (last obs)" "timely t' (auth_after ids obs (NewAuth cfg))"
    using auth_after_guard [OF assms(1), of t "NewAuth cfg"] NewAuth_inv assms(3) False by (auto simp: NewAuth_def)
  then show ?thesis using timely_mono assms(2) False by (metis last_in_set)
qed

lemma alert_step:
  assumes inv: "auth_inv a" and timely: "timely (ao_ObservedAt ob) a"
    and alert: "Auth_Observe ids ob a = (Some e, a')" "ao_Kind ob \<noteq> AuthSuccess"
  shows "timely (ao_ObservedAt ob) a' \<and> guarded (ao_ObservedAt ob) (ev_SourceIP e) (ao_ObservedAt ob) a'"
  using inv
proof (cases rule: Auth_Observe_alerts [where ids = ids and ob = ob])
  case silent
  then show ?thesis using alert by simp
next
  case (appended b k)
  then have ap: "append_failure ids ob k b = (Some e, a')" using alert by simp
  have "timely (ao_ObservedAt ob) a'"
    using append_failure_timely [OF aged_timely [OF timely appended(1)], of ob ids k] by (simp add: ap)
  moreover have "map_of (au_lastAlert a') (ev_SourceIP e) = Some (ao_ObservedAt ob)"
    using append_failure_state(2,3) [where ids = ids and ob = ob and k = k and a = b] by (simp add: ap map_of_update)
  ultimately show ?thesis by (simp add: guarded_def)
qed

text \<open>C27: as long as the journal is in time order, two brute-force alerts of one source are at least the
  cooldown apart, however the history was pruned in between.\<close>

theorem alert_cooldown:
  assumes order: "sorted (map ao_ObservedAt (pre @ ob1 # mid @ [ob2]))"
    and first: "Auth_Observe ids ob1 (auth_after ids pre (NewAuth cfg)) = (Some e1, a1)" "ao_Kind ob1 \<noteq> AuthSuccess"
    and second: "Auth_Observe ids ob2 (auth_after ids (pre @ ob1 # mid) (NewAuth cfg)) = (Some e2, a2)" "ao_Kind ob2 \<noteq> AuthSuccess"
    and same: "ev_SourceIP e2 = ev_SourceIP e1"
    and cfg: "0 \<le> ac_Window cfg" "0 \<le> ac_Cooldown cfg" "ac_Cooldown cfg \<le> max_duration"
  shows "ac_Cooldown cfg \<le> ao_ObservedAt ob2 - ao_ObservedAt ob1"
proof -
  let ?a = "auth_after ids pre (NewAuth cfg)" and ?t1 = "ao_ObservedAt ob1" and ?t2 = "ao_ObservedAt ob2"
  let ?b = "auth_after ids mid a1"
  have inv: "auth_inv ?a" by (intro auth_after_inv NewAuth_inv)
  have b: "auth_after ids (pre @ ob1 # mid) (NewAuth cfg) = ?b"
    using first(1) by (simp add: auth_after_def)
  have a1: "auth_inv a1" "au_config a1 = cfg"
    using Auth_Observe_inv [OF inv, of ids ob1] Auth_Observe_config [OF inv, of ids ob1] first(1)
    by (simp_all add: auth_after_config)
  have "timely ?t1 ?a" using order cfg(1) by (intro auth_after_timely) (auto simp: sorted_append)
  then have timely: "timely ?t1 a1" and guard: "guarded ?t1 (ev_SourceIP e1) ?t1 a1"
    using alert_step [OF inv _ first] by auto
  obtain t where t: "?t1 \<le> t" "t \<le> ?t2" "timely t ?b" "guarded ?t1 (ev_SourceIP e1) t ?b"
  proof -
    have "sorted (map ao_ObservedAt mid)" "o' \<in> set mid \<Longrightarrow> ?t1 \<le> ao_ObservedAt o'"
      "o' \<in> set mid \<Longrightarrow> ao_ObservedAt o' \<le> ?t2" "?t1 \<le> ?t2" for o'
      using order by (auto simp: sorted_append)
    then show ?thesis
      using auth_after_guard [OF _ _ a1(1) timely guard order_refl, of mid ids] a1(2) cfg(1) that
      by (metis last_in_set order_refl)
  qed
  have inv_b: "auth_inv ?b" by (rule auth_after_inv [OF a1(1)])
  have cfg_b: "au_config ?b = cfg" using auth_after_config(1) [of ids "pre @ ob1 # mid" cfg] by (simp add: b)
  from inv_b show ?thesis
  proof (cases rule: Auth_Observe_alerts [where ids = ids and ob = ob2])
    case silent
    then show ?thesis using second by (simp add: b)
  next
    case (appended c k)
    have "guarded ?t1 (ev_SourceIP e1) ?t2 ?b" using t(2,4) by (auto simp: guarded_def)
    then have g: "guarded ?t1 (ev_SourceIP e1) ?t2 c"
      using aged_guarded [OF t(3) appended(1)] cfg(1) by (simp add: cfg_b)
    have cfg_c: "au_config c = cfg" using appended(1) by (simp add: aged_def cfg_b)
    have "fst (append_failure ids ob2 k c) = Some e2" using second(1) appended(2) by (simp add: b)
    from append_failure_state(3) [OF this] have
      "ev_SourceIP e1 = addr_string (ao_SourceIP ob2)" "ac_Cooldown cfg \<le> time_sub ?t2
         (case map_of (au_lastAlert c) (ev_SourceIP e1) of None \<Rightarrow> zero_time | Some t \<Rightarrow> t)"
      by (simp_all add: same cfg_c)
    then show ?thesis using g cfg(2,3)
      by (auto simp: guarded_def cfg_c time_sub_ge_iff min_duration_def)
  qed
qed

theorem alert_cooldown_witness: "minute \<le> 161 * second - 100 * second"
proof -
  let ?cfg = "sample_auth\<lparr>ac_Threshold := 1\<rparr>" and ?ids = "\<lambda>_. []"
  let ?o1 = "Auth_Observe ?ids (sample_failure (100 * second)) (auth_after ?ids [] (NewAuth ?cfg))"
  let ?o2 = "Auth_Observe ?ids (sample_failure (161 * second)) (auth_after ?ids ([] @ sample_failure (100 * second) # []) (NewAuth ?cfg))"
  have "case (fst ?o1, fst ?o2) of (Some e1, Some e2) \<Rightarrow> ev_SourceIP e2 = ev_SourceIP e1 | _ \<Rightarrow> False"
    by code_simp
  then obtain e1 e2 where e: "fst ?o1 = Some e1" "fst ?o2 = Some e2" "ev_SourceIP e2 = ev_SourceIP e1"
    by (auto split: option.splits)
  have o: "?o1 = (Some e1, snd ?o1)" "?o2 = (Some e2, snd ?o2)" using e(1,2) by (simp_all add: prod_eq_iff)
  have kind: "ao_Kind (sample_failure t) \<noteq> AuthSuccess" for t by (simp add: sample_failure_def)
  have order: "sorted (map ao_ObservedAt ([] @ sample_failure (100 * second) # [] @ [sample_failure (161 * second)]))"
    by code_simp
  have cfg: "0 \<le> ac_Window ?cfg" "0 \<le> ac_Cooldown ?cfg" "ac_Cooldown ?cfg \<le> max_duration" by code_simp+
  show ?thesis using alert_cooldown [OF order o(1) kind o(2) kind e(3) cfg]
    by (simp add: sample_failure_def sample_auth_def)
qed

end
