(* ===== verification/Retention.thy ===== *)
theory Retention
  imports Model
begin

text \<open>
  \<open>internal/store/retention.go\<close>: the accounting of removed rows. Every removal inside a transaction is
  added to a bounded ledger, one row per dataset, reason and day, and to a total per dataset and
  reason that outlives the ledger. Tables are lists of rows in insertion order.
\<close>

section \<open>Tables\<close>

definition max_int64 :: int where "max_int64 = 9223372036854775807"

definition maxRetentionEntries :: int where "maxRetentionEntries = 1024"

record retention_counts =
  rc_operations :: int
  rc_affected :: int
  rc_start :: int
  rc_end :: int
  rc_first :: int
  rc_last :: int

record ledger_row =
  lr_id :: int
  lr_key :: "string \<times> string \<times> int"
  lr_counts :: retention_counts

record retention_db =
  rd_tracking :: bool
  rd_ledger :: "ledger_row list"
  rd_totals :: "((string \<times> string) \<times> retention_counts) list"
  rd_evicted :: int

definition empty_retention :: retention_db where
  "empty_retention = \<lparr>rd_tracking = True, rd_ledger = [], rd_totals = [], rd_evicted = 0\<rparr>"

section \<open>Fixed categories\<close>

definition retentionDatasets :: "string list" where
  "retentionDatasets = [''events'', ''traffic_hourly'', ''auth_hourly'', ''interface_hourly'',
     ''interface_detail_hourly'', ''collector_health_hourly'', ''report_snapshots'',
     ''coverage_intervals'', ''coverage_gaps'', ''notification_outbox'', ''notification_silences'']"

definition ValidRetentionDataset :: "string \<Rightarrow> bool" where
  "ValidRetentionDataset dataset \<longleftrightarrow> dataset \<in> set retentionDatasets"

definition ValidRetentionReason :: "string \<Rightarrow> bool" where
  "ValidRetentionReason reason \<longleftrightarrow> reason \<in> set [''time_expiry'', ''storage_pressure'',
     ''cardinality_compaction'', ''capacity_eviction'', ''silence_body_discard'']"

definition retentionSurvivor :: "string \<Rightarrow> string \<Rightarrow> string" where
  "retentionSurvivor dataset reason =
     (if reason = ''silence_body_discard'' then ''notification_outcome_preserved''
      else if reason = ''cardinality_compaction'' \<or> dataset = ''auth_hourly'' \<and> reason = ''storage_pressure''
      then ''totals_preserved''
      else if dataset = ''notification_outbox'' then ''event_decisions_have_separate_retention'' else ''none_guaranteed'')"

section \<open>Recording\<close>

definition new_counts :: "int \<Rightarrow> int \<Rightarrow> int \<Rightarrow> int \<Rightarrow> retention_counts" where
  "new_counts k start end t = \<lparr>rc_operations = 1, rc_affected = k, rc_start = start, rc_end = end,
     rc_first = t, rc_last = t\<rparr>"

text \<open>The \<open>DO UPDATE SET\<close> of both tables.\<close>

definition update_counts :: "retention_counts \<Rightarrow> retention_counts \<Rightarrow> retention_counts" where
  "update_counts new old = \<lparr>rc_operations = min (rc_operations old) (max_int64 - 1) + 1,
     rc_affected = (if max_int64 - rc_affected new < rc_affected old then max_int64
                    else rc_affected old + rc_affected new),
     rc_start = min (rc_start old) (rc_start new), rc_end = max (rc_end old) (rc_end new),
     rc_first = min (rc_first old) (rc_first new), rc_last = max (rc_last old) (rc_last new)\<rparr>"

definition in_ledger :: "string \<times> string \<times> int \<Rightarrow> ledger_row list \<Rightarrow> bool" where
  "in_ledger key rows \<longleftrightarrow> key \<in> set (map lr_key rows)"

definition max_id :: "ledger_row list \<Rightarrow> int" where
  "max_id rows = (case rows of [] \<Rightarrow> 0 | r # rs \<Rightarrow> fold (\<lambda>q m. max m (lr_id q)) rs (lr_id r))"

definition upsert_total :: "string \<times> string \<Rightarrow> retention_counts \<Rightarrow>
    ((string \<times> string) \<times> retention_counts) list \<Rightarrow> ((string \<times> string) \<times> retention_counts) list" where
  "upsert_total key new totals = (case map_of totals key of
     None \<Rightarrow> AList.update key new totals
   | Some old \<Rightarrow> AList.update key (update_counts new old) totals)"

text \<open>The rows whose identifier is among the newest 1024.\<close>

definition newest :: "ledger_row list \<Rightarrow> ledger_row list" where
  "newest rows = filter (\<lambda>r. int (length (filter (\<lambda>q. lr_id r < lr_id q) rows)) < maxRetentionEntries) rows"

datatype retention_error = RetentionInvalid | RetentionUntracked | RetentionExhausted

definition recordRetention :: "string \<Rightarrow> string \<Rightarrow> int \<Rightarrow> int \<Rightarrow> int \<Rightarrow> time \<Rightarrow> retention_db \<Rightarrow>
    retention_error + retention_db" where
  "recordRetention dataset reason k start end now d =
     (if k = 0 then Inr d
      else if \<not> ValidRetentionDataset dataset \<or> \<not> ValidRetentionReason reason \<or> k < 0 \<or> end < start \<or> is_zero now
      then Inl RetentionInvalid
      else if \<not> rd_tracking d then Inl RetentionUntracked
      else
        let day = now div (24 * hour) * (24 * hour) div millisecond;
            new = new_counts k start end (now div millisecond);
            key = (dataset, reason, day)
        in if \<not> in_ledger key (rd_ledger d) \<and> max_id (rd_ledger d) = max_int64 then Inl RetentionExhausted
           else
             let ledger = (if in_ledger key (rd_ledger d)
                   then map (\<lambda>r. if lr_key r = key then r\<lparr>lr_counts := update_counts new (lr_counts r)\<rparr> else r) (rd_ledger d)
                   else rd_ledger d @ [\<lparr>lr_id = max_id (rd_ledger d) + 1, lr_key = key, lr_counts = new\<rparr>]);
                 evicted = int (length ledger) - int (length (newest ledger))
             in Inr (d\<lparr>rd_ledger := newest ledger, rd_totals := upsert_total (dataset, reason) new (rd_totals d),
                  rd_evicted := (if 0 < evicted
                    then (if max_int64 - evicted < rd_evicted d then max_int64 else rd_evicted d + evicted)
                    else rd_evicted d)\<rparr>))"

section \<open>The ledger stays bounded\<close>

lemma max_id_ge: "r \<in> set rows \<Longrightarrow> lr_id r \<le> max_id rows"
proof -
  have mono: "m \<le> fold (\<lambda>q m. max m (lr_id q)) rs m \<and> (\<forall>q\<in>set rs. lr_id q \<le> fold (\<lambda>q m. max m (lr_id q)) rs m)" for rs m
  proof (induction rs arbitrary: m)
    case (Cons q rs)
    show ?case using Cons.IH [of "max m (lr_id q)"] by auto
  qed simp
  assume "r \<in> set rows"
  then show ?thesis using mono by (cases rows) (auto simp: max_id_def)
qed

lemma length_filter_filter: "length (filter Q (filter K xs)) \<le> length (filter Q xs)"
  by (induction xs) auto

definition ledger_ok :: "ledger_row list \<Rightarrow> bool" where
  "ledger_ok rows \<longleftrightarrow> distinct (map lr_id rows) \<and> distinct (map lr_key rows)"

lemma newest_bound:
  assumes "distinct (map lr_id rows)"
  shows "int (length (newest rows)) \<le> maxRetentionEntries"
proof (cases "newest rows = []")
  case False
  have d: "distinct (map lr_id (newest rows))" using assms unfolding newest_def by (rule distinct_map_filter)
  obtain r where r: "r \<in> set (newest rows)" "\<And>q. q \<in> set (newest rows) \<Longrightarrow> lr_id r \<le> lr_id q"
    using False ex_min_if_finite by (metis arg_min_if_finite(1) arg_min_least finite_set set_empty)
  have "length (newest rows) = Suc (length (filter (\<lambda>q. lr_id r < lr_id q) (newest rows)))"
  proof -
    have "filter (\<lambda>q. \<not> lr_id r < lr_id q) (newest rows) = filter (\<lambda>q. q = r) (newest rows)"
    proof (rule filter_cong [OF refl])
      fix q assume q: "q \<in> set (newest rows)"
      have "q = r" if "lr_id q = lr_id r" using d q r(1) that by (auto simp: distinct_map dest: inj_onD)
      then show "(\<not> lr_id r < lr_id q) = (q = r)" using r(2) [OF q] by force
    qed
    moreover have "length (filter (\<lambda>q. q = r) (newest rows)) = 1"
      using r(1) d by (simp add: distinct_map distinct_length_filter)
    ultimately show ?thesis using sum_length_filter_compl [of "\<lambda>q. lr_id r < lr_id q" "newest rows"] by simp
  qed
  also have "\<dots> \<le> Suc (length (filter (\<lambda>q. lr_id r < lr_id q) rows))"
    unfolding newest_def using length_filter_filter by simp
  finally show ?thesis using r(1) by (auto simp: newest_def)
qed (simp add: maxRetentionEntries_def)

lemma recordRetention_ledger:
  assumes ok: "ledger_ok (rd_ledger d)" and bound: "int (length (rd_ledger d)) \<le> maxRetentionEntries"
    and rec: "recordRetention dataset reason k start end now d = Inr d'"
  shows "ledger_ok (rd_ledger d') \<and> int (length (rd_ledger d')) \<le> maxRetentionEntries"
proof (cases "rd_ledger d' = rd_ledger d")
  case False
  define new where "new = new_counts k start end (now div millisecond)"
  define key where "key = (dataset, reason, now div (24 * hour) * (24 * hour) div millisecond)"
  define ledger where "ledger = (if in_ledger key (rd_ledger d)
     then map (\<lambda>r. if lr_key r = key then r\<lparr>lr_counts := update_counts new (lr_counts r)\<rparr> else r) (rd_ledger d)
     else rd_ledger d @ [\<lparr>lr_id = max_id (rd_ledger d) + 1, lr_key = key, lr_counts = new\<rparr>])"
  have d': "rd_ledger d' = newest ledger"
    using rec False unfolding recordRetention_def Let_def new_def [symmetric] key_def [symmetric] ledger_def [symmetric]
    by (auto split: if_splits)
  have fresh: "max_id (rd_ledger d) + 1 \<notin> lr_id ` set (rd_ledger d)" using max_id_ge by force
  have "ledger_ok ledger"
  proof (cases "in_ledger key (rd_ledger d)")
    case True
    have "map lr_id ledger = map lr_id (rd_ledger d)" "map lr_key ledger = map lr_key (rd_ledger d)"
      using True by (simp_all add: ledger_def)
    then show ?thesis using ok by (simp add: ledger_ok_def)
  next
    case False
    then show ?thesis using ok fresh by (auto simp: ledger_ok_def ledger_def in_ledger_def)
  qed
  then show ?thesis
    using newest_bound [of ledger] unfolding d' ledger_ok_def newest_def by (auto intro: distinct_map_filter)
qed (use ok bound in simp)

section \<open>Totals survive the ledger\<close>

record removal =
  rm_dataset :: string
  rm_reason :: string
  rm_count :: int
  rm_start :: int
  rm_end :: int
  rm_now :: time

fun record_all :: "removal list \<Rightarrow> retention_db \<Rightarrow> retention_error + retention_db" where
  "record_all [] d = Inr d"
| "record_all (r # rs) d = (case recordRetention (rm_dataset r) (rm_reason r) (rm_count r) (rm_start r) (rm_end r) (rm_now r) d of
     Inl e \<Rightarrow> Inl e
   | Inr d \<Rightarrow> record_all rs d)"

definition removed :: "string \<times> string \<Rightarrow> removal list \<Rightarrow> int" where
  "removed key rs = (\<Sum>r\<leftarrow>rs. if (rm_dataset r, rm_reason r) = key then rm_count r else 0)"

definition total_of :: "retention_db \<Rightarrow> string \<times> string \<Rightarrow> int" where
  "total_of d key = (case map_of (rd_totals d) key of None \<Rightarrow> 0 | Some c \<Rightarrow> rc_affected c)"

lemma recordRetention_totals:
  assumes "recordRetention dataset reason k start end now d = Inr d'" "k \<noteq> 0"
  shows "rd_totals d' = upsert_total (dataset, reason) (new_counts k start end (now div millisecond)) (rd_totals d) \<and> 0 < k"
proof -
  define guard where "guard = (\<not> ValidRetentionDataset dataset \<or> \<not> ValidRetentionReason reason \<or> k < 0 \<or> end < start \<or> is_zero now)"
  have "\<not> guard" using assms unfolding recordRetention_def guard_def [symmetric] by (auto split: if_splits)
  moreover from this have "rd_totals d' = upsert_total (dataset, reason) (new_counts k start end (now div millisecond)) (rd_totals d)"
    using assms unfolding recordRetention_def guard_def [symmetric] Let_def
    by (simp only: if_False if_not_P split: if_split_asm sum.splits) (auto split: if_split_asm)
  ultimately show ?thesis using assms(2) by (auto simp: guard_def)
qed

lemma recordRetention_total:
  assumes "recordRetention dataset reason k start end now d = Inr d'" "0 \<le> total_of d key" "total_of d key \<le> max_int64"
    "k \<le> max_int64"
  shows "total_of d' key = (if key = (dataset, reason) then min max_int64 (total_of d key + k) else total_of d key) \<and> 0 \<le> k"
proof (cases "k = 0")
  case True
  then show ?thesis using assms by (auto simp: recordRetention_def)
next
  case False
  have t: "rd_totals d' = upsert_total (dataset, reason) (new_counts k start end (now div millisecond)) (rd_totals d)" "0 < k"
    using recordRetention_totals [OF assms(1) False] by auto
  show ?thesis
  proof (cases "map_of (rd_totals d) (dataset, reason)")
    case None
    then show ?thesis using t assms(4) by (simp add: total_of_def upsert_total_def map_of_update new_counts_def)
  next
    case (Some c)
    then show ?thesis using t
      by (auto simp: total_of_def upsert_total_def map_of_update new_counts_def update_counts_def)
  qed
qed

text \<open>C30: whatever is evicted from the ledger, the total kept per dataset and reason is the number of
  rows ever removed (up to the largest SQLite integer), and the ledger never exceeds 1024 rows.\<close>

theorem retention_totals_exact:
  assumes "record_all rs empty_retention = Inr d" and "list_all (\<lambda>r. rm_count r \<le> max_int64) rs"
  shows "total_of d key = min max_int64 (removed key rs) \<and> int (length (rd_ledger d)) \<le> maxRetentionEntries"
proof -
  have step: "total_of d key = min max_int64 (total_of d0 key + removed key rs) \<and> ledger_ok (rd_ledger d) \<and>
      int (length (rd_ledger d)) \<le> maxRetentionEntries \<and> 0 \<le> removed key rs"
    if "record_all rs d0 = Inr d" "list_all (\<lambda>r. rm_count r \<le> max_int64) rs" "0 \<le> total_of d0 key" "total_of d0 key \<le> max_int64"
      "ledger_ok (rd_ledger d0)" "int (length (rd_ledger d0)) \<le> maxRetentionEntries" for d0
    using that
  proof (induction rs arbitrary: d0)
    case (Cons r rs)
    obtain d1 where d1: "recordRetention (rm_dataset r) (rm_reason r) (rm_count r) (rm_start r) (rm_end r) (rm_now r) d0 = Inr d1"
      "record_all rs d1 = Inr d"
      using Cons.prems(1) by (auto split: sum.splits)
    have t: "total_of d1 key = (if key = (rm_dataset r, rm_reason r) then min max_int64 (total_of d0 key + rm_count r) else total_of d0 key)"
        "0 \<le> rm_count r"
      using recordRetention_total [OF d1(1)] Cons.prems by auto
    have "total_of d key = min max_int64 (total_of d1 key + removed key rs) \<and> ledger_ok (rd_ledger d) \<and>
        int (length (rd_ledger d)) \<le> maxRetentionEntries \<and> 0 \<le> removed key rs"
      using Cons.IH [OF d1(2)] Cons.prems t recordRetention_ledger [OF Cons.prems(5,6) d1(1)] by (auto simp: max_int64_def)
    then show ?case using t Cons.prems(3) by (auto simp: removed_def)
  qed (simp add: removed_def)
  show ?thesis
    using step [of empty_retention] assms by (simp add: empty_retention_def total_of_def ledger_ok_def max_int64_def maxRetentionEntries_def)
qed

definition sample_removal :: "int \<Rightarrow> time \<Rightarrow> removal" where
  "sample_removal k t = \<lparr>rm_dataset = ''coverage_gaps'', rm_reason = ''capacity_eviction'', rm_count = k, rm_start = 0,
     rm_end = 10, rm_now = t\<rparr>"

theorem retention_totals_exact_witness:
  "total_of (projr (record_all [sample_removal 3 (100 * second), sample_removal 4 (48 * hour)] empty_retention))
     (''coverage_gaps'', ''capacity_eviction'') = 7"
proof -
  let ?rs = "[sample_removal 3 (100 * second), sample_removal 4 (48 * hour)]"
  have "isl (record_all ?rs empty_retention) = False" by code_simp
  then obtain d where d: "record_all ?rs empty_retention = Inr d" by (cases "record_all ?rs empty_retention") auto
  show ?thesis
    using retention_totals_exact [OF d, of "(''coverage_gaps'', ''capacity_eviction'')"] unfolding d
    by (simp add: sample_removal_def max_int64_def removed_def)
qed

end
