(* ===== verification/Traffic.thy ===== *)
theory Traffic
  imports Retention
begin

text \<open>
  The hourly traffic table of \<open>internal/store/store.go\<close>: a batch of attributed flows is aggregated per
  key, added to the rows of its hour, and folded into one overflow row per direction once the hour
  holds its limit of keys. A column is an integer; SQLite leaves the integers only when a sum
  passes 2^63 - 1, which the statements exclude by hypothesis.
\<close>

section \<open>Text limits\<close>

text \<open>The number of bytes of the UTF-8 encoded rune at the front, 0 when the encoding is invalid.\<close>

definition cont :: "int \<Rightarrow> bool" where "cont b \<longleftrightarrow> 128 \<le> b \<and> b \<le> 191"

fun rune_len :: "int list \<Rightarrow> nat" where
  "rune_len [] = 0"
| "rune_len (b # bs) =
    (if b < 128 then 1
     else if b < 194 then 0
     else if b < 224 then (case bs of c # _ \<Rightarrow> if cont c then 2 else 0 | _ \<Rightarrow> 0)
     else if b < 240 then (case bs of c # d # _ \<Rightarrow>
       if (if b = 224 then 160 \<le> c \<and> c \<le> 191 else if b = 237 then 128 \<le> c \<and> c \<le> 159 else cont c) \<and> cont d
       then 3 else 0 | _ \<Rightarrow> 0)
     else if b < 245 then (case bs of c # d # e # _ \<Rightarrow>
       if (if b = 240 then 144 \<le> c \<and> c \<le> 191 else if b = 244 then 128 \<le> c \<and> c \<le> 143 else cont c) \<and> cont d \<and> cont e
       then 4 else 0 | _ \<Rightarrow> 0)
     else 0)"

definition codes :: "string \<Rightarrow> int list" where
  "codes s = map of_char s"

lemma rune_len_bound: "rune_len bs \<le> length bs"
  by (cases bs rule: rune_len.cases) (auto split: list.splits if_splits)

function (sequential) ValidString :: "string \<Rightarrow> bool" where
  "ValidString [] = True"
| "ValidString (c # s) = (rune_len (codes (c # s)) \<noteq> 0 \<and> ValidString (drop (rune_len (codes (c # s)) - 1) s))"
  by pat_completeness auto
termination
  by (relation "measure length") auto

text \<open>\<open>strings.Map\<close> with the filter of \<open>limit\<close>: control characters go, an invalid byte becomes the
  encoding of U+FFFD.\<close>

function (sequential) drop_controls :: "string \<Rightarrow> string" where
  "drop_controls [] = []"
| "drop_controls (c # s) =
    (if rune_len (codes (c # s)) = 0 then map char_of [239, 191, 189 :: int] @ drop_controls s
     else (if control_char c then [] else c # take (rune_len (codes (c # s)) - 1) s) @
       drop_controls (drop (rune_len (codes (c # s)) - 1) s))"
  by pat_completeness auto
termination
  by (relation "measure length") auto

text \<open>\<open>value[:max]\<close>, shortened byte by byte until it is valid.\<close>

primrec cut_valid :: "nat \<Rightarrow> string \<Rightarrow> string" where
  "cut_valid 0 s = []"
| "cut_valid (Suc n) s = (if ValidString (take (Suc n) s) then take (Suc n) s else cut_valid n s)"

definition limit :: "string \<Rightarrow> int \<Rightarrow> string" where
  "limit value n = (let v = drop_controls value in if n < int (length v) then cut_valid (nat n) v else v)"

lemma cut_valid_props: "ValidString (cut_valid n s) \<and> length (cut_valid n s) \<le> n"
  by (induction n) auto

lemma limit_length: "0 \<le> n \<Longrightarrow> int (length (limit value n)) \<le> n"
  using cut_valid_props [of "nat n" "drop_controls value"] by (auto simp: limit_def Let_def)

section \<open>Tables\<close>

record traffic_key =
  tk_hour :: int
  tk_direction :: direction
  tk_country :: string
  tk_region :: string
  tk_asn :: nat
  tk_asnOrg :: string
  tk_attributed :: bool

record totals =
  to_bytes :: uint64
  to_packets :: uint64

definition no_totals :: totals where "no_totals = \<lparr>to_bytes = 0, to_packets = 0\<rparr>"

record row_sums =
  rs_bytes :: int
  rs_packets :: int

record traffic_db =
  td_rows :: "(traffic_key \<times> row_sums) list"
  td_cardinality :: "(int \<times> int) list"
  td_retention :: retention_db

definition maxTrafficKeysPerHour :: int where "maxTrafficKeysPerHour = 16384"

datatype traffic_error =
    TrafficTimeMissing | TrafficDirection | TrafficCounters | TrafficBounds | TrafficOverflowBounds
  | TrafficRetention retention_error

section \<open>Aggregation per key\<close>

definition traffic_key_of :: "traffic \<Rightarrow> traffic_key" where
  "traffic_key_of item = \<lparr>tk_hour = tr_HourUTC item div hour * hour div second, tk_direction = tr_Direction item,
     tk_country = limit (tr_Country item) 160, tk_region = limit (tr_Region item) 160, tk_asn = tr_ASN item,
     tk_asnOrg = limit (tr_ASNOrg item) 160, tk_attributed = tr_Attributed item\<rparr>"

definition max_sqlite :: uint64 where "max_sqlite = 0x7FFFFFFFFFFFFFFF"

definition add_totals :: "uint64 \<Rightarrow> uint64 \<Rightarrow> totals \<Rightarrow> totals option" where
  "add_totals b p v = (if max_sqlite - to_bytes v < b \<or> max_sqlite - to_packets v < p then None
     else Some \<lparr>to_bytes = to_bytes v + b, to_packets = to_packets v + p\<rparr>)"

definition lookup_totals :: "('k \<times> totals) list \<Rightarrow> 'k \<Rightarrow> totals" where
  "lookup_totals m k = (case map_of m k of None \<Rightarrow> no_totals | Some v \<Rightarrow> v)"

fun aggregate :: "traffic list \<Rightarrow> (traffic_key \<times> totals) list \<Rightarrow> traffic_error + (traffic_key \<times> totals) list" where
  "aggregate [] m = Inr m"
| "aggregate (item # rest) m =
    (if is_zero (tr_HourUTC item) then Inl TrafficTimeMissing
     else if tr_Direction item \<noteq> DirectionInbound \<and> tr_Direction item \<noteq> DirectionOutbound then Inl TrafficDirection
     else if tr_Bytes item = 0 \<or> tr_Packets item = 0 \<or> max_sqlite < tr_Bytes item \<or> max_sqlite < tr_Packets item \<or>
       4294967295 < int (tr_ASN item) then Inl TrafficCounters
     else (case add_totals (tr_Bytes item) (tr_Packets item) (lookup_totals m (traffic_key_of item)) of
       None \<Rightarrow> Inl TrafficBounds
     | Some v \<Rightarrow> aggregate rest (AList.update (traffic_key_of item) v m)))"

section \<open>Rows\<close>

definition sums_of :: "totals \<Rightarrow> row_sums" where
  "sums_of v = \<lparr>rs_bytes = uint (to_bytes v), rs_packets = uint (to_packets v)\<rparr>"

definition plus_sums :: "row_sums \<Rightarrow> row_sums \<Rightarrow> row_sums" where
  "plus_sums v r = \<lparr>rs_bytes = rs_bytes r + rs_bytes v, rs_packets = rs_packets r + rs_packets v\<rparr>"

record fold_state =
  fs_rows :: "(traffic_key \<times> row_sums) list"
  fs_keys :: "(int \<times> int) list"
  fs_compacted :: "(int \<times> int) list"
  fs_overflow :: "((int \<times> direction) \<times> totals) list"

definition load_hour :: "(int \<times> int) list \<Rightarrow> int \<Rightarrow> fold_state \<Rightarrow> fold_state" where
  "load_hour cardinality h st = (if map_of (fs_keys st) h \<noteq> None then st
     else st\<lparr>fs_keys := AList.update h (case map_of cardinality h of None \<Rightarrow> 0 | Some n \<Rightarrow> n) (fs_keys st)\<rparr>)"

definition count_of :: "(int \<times> int) list \<Rightarrow> int \<Rightarrow> int" where
  "count_of m h = (case map_of m h of None \<Rightarrow> 0 | Some n \<Rightarrow> n)"

definition add_key :: "(int \<times> int) list \<Rightarrow> traffic_key \<times> totals \<Rightarrow> fold_state \<Rightarrow> traffic_error + fold_state" where
  "add_key cardinality kv st0 = (case kv of (key, value) \<Rightarrow>
     let st = load_hour cardinality (tk_hour key) st0 in
     case map_of (fs_rows st) key of
       Some r \<Rightarrow> Inr (st\<lparr>fs_rows := AList.update key (plus_sums (sums_of value) r) (fs_rows st)\<rparr>)
     | None \<Rightarrow>
         (if count_of (fs_keys st) (tk_hour key) < maxTrafficKeysPerHour
          then Inr (st\<lparr>fs_rows := AList.update key (sums_of value) (fs_rows st),
                 fs_keys := AList.update (tk_hour key) (count_of (fs_keys st) (tk_hour key) + 1) (fs_keys st)\<rparr>)
          else
            let okey = (tk_hour key, tk_direction key) in
            case add_totals (to_bytes value) (to_packets value) (lookup_totals (fs_overflow st) okey) of
              None \<Rightarrow> Inl TrafficOverflowBounds
            | Some v \<Rightarrow> Inr (st\<lparr>fs_compacted := AList.update (tk_hour key) (count_of (fs_compacted st) (tk_hour key) + 1) (fs_compacted st),
                fs_overflow := AList.update okey v (fs_overflow st)\<rparr>)))"

fun add_keys :: "(int \<times> int) list \<Rightarrow> (traffic_key \<times> totals) list \<Rightarrow> fold_state \<Rightarrow> traffic_error + fold_state" where
  "add_keys cardinality [] st = Inr st"
| "add_keys cardinality (kv # rest) st = (case add_key cardinality kv st of
     Inl e \<Rightarrow> Inl e
   | Inr st \<Rightarrow> add_keys cardinality rest st)"

definition overflow_key :: "int \<times> direction \<Rightarrow> traffic_key" where
  "overflow_key k = \<lparr>tk_hour = fst k, tk_direction = snd k, tk_country = ''_overflow'', tk_region = [], tk_asn = 0,
     tk_asnOrg = [], tk_attributed = False\<rparr>"

definition upsert_row :: "traffic_key \<Rightarrow> row_sums \<Rightarrow> (traffic_key \<times> row_sums) list \<Rightarrow> (traffic_key \<times> row_sums) list" where
  "upsert_row key v rows = (case map_of rows key of
     None \<Rightarrow> AList.update key v rows | Some r \<Rightarrow> AList.update key (plus_sums v r) rows)"

fun record_compaction :: "time \<Rightarrow> (int \<times> int) list \<Rightarrow> retention_db \<Rightarrow> retention_error + retention_db" where
  "record_compaction now [] d = Inr d"
| "record_compaction now ((h, n) # rest) d =
    (case recordRetention ''traffic_hourly'' ''cardinality_compaction'' n (h * 1000) ((h + 3600) * 1000) now d of
       Inl e \<Rightarrow> Inl e
     | Inr d \<Rightarrow> record_compaction now rest d)"

definition addTrafficBatch :: "time \<Rightarrow> traffic list \<Rightarrow> traffic_db \<Rightarrow> traffic_error + traffic_db" where
  "addTrafficBatch now traffic db =
     (if traffic = [] then Inr db
      else case aggregate traffic [] of
        Inl e \<Rightarrow> Inl e
      | Inr aggregated \<Rightarrow>
          (case add_keys (td_cardinality db) aggregated \<lparr>fs_rows = td_rows db, fs_keys = [], fs_compacted = [], fs_overflow = []\<rparr> of
            Inl e \<Rightarrow> Inl e
          | Inr st \<Rightarrow>
              (case record_compaction now (fs_compacted st) (td_retention db) of
                Inl e \<Rightarrow> Inl (TrafficRetention e)
              | Inr ret \<Rightarrow> Inr \<lparr>
                  td_rows = fold (\<lambda>(k, v) rows. upsert_row (overflow_key k) (sums_of v) rows) (fs_overflow st) (fs_rows st),
                  td_cardinality = fold (\<lambda>(h, n) m. AList.update h n m) (fs_keys st) (td_cardinality db),
                  td_retention = ret\<rparr>)))"

section \<open>Conservation\<close>

definition key_sum :: "('k \<Rightarrow> bool) \<Rightarrow> ('v \<Rightarrow> int) \<Rightarrow> ('k \<times> 'v) list \<Rightarrow> int" where
  "key_sum P f m = (\<Sum>(k, v)\<leftarrow>m. if P k then f v else 0)"

lemma key_sum_simps [simp]:
  "key_sum P f [] = 0" "key_sum P f ((k, v) # m) = (if P k then f v else 0) + key_sum P f m"
  by (simp_all add: key_sum_def)

lemma key_sum_update:
  "key_sum P f (AList.update k v m) = key_sum P f m + (if P k then f v - (case map_of m k of None \<Rightarrow> 0 | Some w \<Rightarrow> f w) else 0)"
  by (induction m) (auto split: option.split)

definition sqlite_ok :: "('k \<times> totals) list \<Rightarrow> bool" where
  "sqlite_ok m \<longleftrightarrow> (\<forall>k v. map_of m k = Some v \<longrightarrow> to_bytes v \<le> max_sqlite \<and> to_packets v \<le> max_sqlite)"

lemma add_within:
  fixes x y :: uint64
  assumes "\<not> max_sqlite - x < y" "x \<le> max_sqlite"
  shows "uint (x + y) = uint x + uint y \<and> x + y \<le> max_sqlite"
proof -
  have m: "unat max_sqlite = 9223372036854775807" by (simp add: max_sqlite_def)
  have "unat (max_sqlite - x) = unat max_sqlite - unat x" using assms(2) by (simp add: unat_sub)
  then have "unat x + unat y \<le> 9223372036854775807"
    using assms m by (simp add: word_less_nat_alt word_le_nat_alt)
  moreover from this have u: "unat (x + y) = unat x + unat y" by (simp add: unat_word_ariths)
  ultimately have "x + y \<le> max_sqlite" using m by (simp add: word_le_nat_alt)
  moreover have "uint (x + y) = uint x + uint y" using u by (metis of_nat_add uint_nat)
  ultimately show ?thesis by simp
qed

lemma add_totals_exact:
  assumes "add_totals b p v = Some v'" "to_bytes v \<le> max_sqlite" "to_packets v \<le> max_sqlite"
  shows "uint (to_bytes v') = uint (to_bytes v) + uint b \<and> uint (to_packets v') = uint (to_packets v) + uint p \<and>
    to_bytes v' \<le> max_sqlite \<and> to_packets v' \<le> max_sqlite"
  using assms add_within [of "to_bytes v" b] add_within [of "to_packets v" p]
  by (auto simp: add_totals_def split: if_splits)

lemma within_lookup: "sqlite_ok m \<Longrightarrow> to_bytes (lookup_totals m k) \<le> max_sqlite \<and> to_packets (lookup_totals m k) \<le> max_sqlite"
  by (auto simp: sqlite_ok_def lookup_totals_def no_totals_def split: option.split)

lemma within_update: "sqlite_ok m \<Longrightarrow> to_bytes v \<le> max_sqlite \<Longrightarrow> to_packets v \<le> max_sqlite \<Longrightarrow> sqlite_ok (AList.update k v m)"
  by (auto simp: sqlite_ok_def map_of_update)

lemma key_sum_totals:
  assumes "sqlite_ok m" "add_totals b p (lookup_totals m k) = Some v"
  shows "key_sum P (\<lambda>v. uint (to_bytes v)) (AList.update k v m) = key_sum P (\<lambda>v. uint (to_bytes v)) m + (if P k then uint b else 0)"
    and "key_sum P (\<lambda>v. uint (to_packets v)) (AList.update k v m) = key_sum P (\<lambda>v. uint (to_packets v)) m + (if P k then uint p else 0)"
    and "sqlite_ok (AList.update k v m)"
  using add_totals_exact [OF assms(2)] within_lookup [OF assms(1), of k] within_update [OF assms(1), of v k]
  by (auto simp: key_sum_update lookup_totals_def no_totals_def split: option.splits)

definition item_sum :: "(traffic_key \<Rightarrow> bool) \<Rightarrow> (traffic \<Rightarrow> uint64) \<Rightarrow> traffic list \<Rightarrow> int" where
  "item_sum P f items = (\<Sum>t\<leftarrow>items. if P (traffic_key_of t) then uint (f t) else 0)"

lemma aggregate_conserves:
  assumes "aggregate items m = Inr m'" "sqlite_ok m"
  shows "key_sum P (\<lambda>v. uint (to_bytes v)) m' = key_sum P (\<lambda>v. uint (to_bytes v)) m + item_sum P tr_Bytes items \<and>
    key_sum P (\<lambda>v. uint (to_packets v)) m' = key_sum P (\<lambda>v. uint (to_packets v)) m + item_sum P tr_Packets items \<and>
    sqlite_ok m' \<and> (keys_distinct m \<longrightarrow> keys_distinct m')"
  using assms
proof (induction items arbitrary: m)
  case (Cons t ts)
  obtain v where v: "add_totals (tr_Bytes t) (tr_Packets t) (lookup_totals m (traffic_key_of t)) = Some v"
      "aggregate ts (AList.update (traffic_key_of t) v m) = Inr m'"
    using Cons.prems(1) by (auto split: if_splits option.splits)
  note k = key_sum_totals(1,2) [OF Cons.prems(2) v(1), of P] key_sum_totals(3) [OF Cons.prems(2) v(1)]
  show ?case using Cons.IH [OF v(2) k(3)] k(1,2) by (auto simp: item_sum_def)
qed (simp add: item_sum_def)

definition in_slice :: "int \<Rightarrow> direction \<Rightarrow> traffic_key \<Rightarrow> bool" where
  "in_slice h d k \<longleftrightarrow> tk_hour k = h \<and> tk_direction k = d"

lemma load_hour_frame [simp]:
  "fs_rows (load_hour c h st) = fs_rows st" "fs_overflow (load_hour c h st) = fs_overflow st"
  "fs_compacted (load_hour c h st) = fs_compacted st"
  by (simp_all add: load_hour_def)

text \<open>What the rows and the pending overflow hold for one hour and direction.\<close>

definition held :: "int \<Rightarrow> direction \<Rightarrow> (row_sums \<Rightarrow> int) \<Rightarrow> (totals \<Rightarrow> uint64) \<Rightarrow> fold_state \<Rightarrow> int" where
  "held h d f g st = key_sum (in_slice h d) f (fs_rows st) + key_sum (\<lambda>k. k = (h, d)) (\<lambda>v. uint (g v)) (fs_overflow st)"

lemma add_key_conserves:
  assumes "add_key c (key, v) st = Inr st'" "sqlite_ok (fs_overflow st)"
  shows "held h d rs_bytes to_bytes st' = held h d rs_bytes to_bytes st + (if in_slice h d key then uint (to_bytes v) else 0) \<and>
    held h d rs_packets to_packets st' = held h d rs_packets to_packets st + (if in_slice h d key then uint (to_packets v) else 0) \<and>
    sqlite_ok (fs_overflow st')"
proof -
  define s1 where "s1 = load_hour c (tk_hour key) st"
  have frame: "fs_rows s1 = fs_rows st" "fs_overflow s1 = fs_overflow st" by (simp_all add: s1_def)
  have slice: "in_slice h d key \<longleftrightarrow> (tk_hour key, tk_direction key) = (h, d)" by (auto simp: in_slice_def)
  note step = assms(1) [unfolded add_key_def prod.case Let_def s1_def [symmetric]]
  show ?thesis
  proof (cases "map_of (fs_rows s1) key")
    case (Some r)
    then have "st' = s1\<lparr>fs_rows := AList.update key (plus_sums (sums_of v) r) (fs_rows s1)\<rparr>" using step by simp
    then show ?thesis using Some assms(2)
      by (simp add: held_def frame key_sum_update plus_sums_def sums_of_def)
  next
    case None
    show ?thesis
    proof (cases "count_of (fs_keys s1) (tk_hour key) < maxTrafficKeysPerHour")
      case True
      then have "fs_rows st' = AList.update key (sums_of v) (fs_rows s1)" "fs_overflow st' = fs_overflow s1"
        using step None by auto
      then show ?thesis using None assms(2) by (simp add: held_def frame key_sum_update sums_of_def)
    next
      case False
      then obtain w where w: "add_totals (to_bytes v) (to_packets v) (lookup_totals (fs_overflow s1) (tk_hour key, tk_direction key)) = Some w"
          "fs_rows st' = fs_rows s1" "fs_overflow st' = AList.update (tk_hour key, tk_direction key) w (fs_overflow s1)"
        using step None by (auto split: option.splits)
      note k = key_sum_totals(1,2) [OF _ w(1), of "\<lambda>k. k = (h, d)"] key_sum_totals(3) [OF _ w(1)]
      show ?thesis using k assms(2) slice by (simp add: held_def w(2,3) frame)
    qed
  qed
qed

lemma add_keys_conserves:
  assumes "add_keys c kvs st = Inr st'" "sqlite_ok (fs_overflow st)"
  shows "held h d rs_bytes to_bytes st' = held h d rs_bytes to_bytes st + key_sum (in_slice h d) (\<lambda>v. uint (to_bytes v)) kvs \<and>
    held h d rs_packets to_packets st' = held h d rs_packets to_packets st + key_sum (in_slice h d) (\<lambda>v. uint (to_packets v)) kvs"
  using assms
proof (induction kvs arbitrary: st)
  case (Cons kv kvs)
  obtain key v where kv: "kv = (key, v)" by (cases kv)
  obtain s1 where s1: "add_key c (key, v) st = Inr s1" "add_keys c kvs s1 = Inr st'"
    using Cons.prems(1) by (auto simp: kv split: sum.splits)
  show ?case using Cons.IH [OF s1(2)] add_key_conserves [OF s1(1) Cons.prems(2), of h d] by (simp add: kv)
qed simp

lemma upsert_row_sum:
  "key_sum P rs_bytes (upsert_row k v m) = key_sum P rs_bytes m + (if P k then rs_bytes v else 0)"
  "key_sum P rs_packets (upsert_row k v m) = key_sum P rs_packets m + (if P k then rs_packets v else 0)"
  by (auto simp: upsert_row_def key_sum_update plus_sums_def split: option.splits)

lemma overflow_rows:
  "key_sum (in_slice h d) rs_bytes (fold (\<lambda>(k, v) rows. upsert_row (overflow_key k) (sums_of v) rows) m rows) =
     key_sum (in_slice h d) rs_bytes rows + key_sum (\<lambda>k. k = (h, d)) (\<lambda>v. uint (to_bytes v)) m"
  "key_sum (in_slice h d) rs_packets (fold (\<lambda>(k, v) rows. upsert_row (overflow_key k) (sums_of v) rows) m rows) =
     key_sum (in_slice h d) rs_packets rows + key_sum (\<lambda>k. k = (h, d)) (\<lambda>v. uint (to_packets v)) m"
  by (induction m arbitrary: rows) (auto simp: upsert_row_sum in_slice_def overflow_key_def sums_of_def prod_eq_iff)


definition sample_traffic :: "uint64 \<Rightarrow> traffic" where
  "sample_traffic n = \<lparr>tr_HourUTC = 7205 * second, tr_Direction = DirectionInbound, tr_Country = ''NL'', tr_Region = ''NH'',
     tr_ASN = 7, tr_ASNOrg = ''Example'', tr_Bytes = n, tr_Packets = 2, tr_Attributed = True\<rparr>"

definition empty_traffic_db :: traffic_db where
  "empty_traffic_db = \<lparr>td_rows = [], td_cardinality = [], td_retention = empty_retention\<rparr>"


end
