(* ===== verification/SensorCommit.thy ===== *)
theory SensorCommit
  imports Traffic Protocol
begin

text \<open>
  \<open>internal/store/sensor_commits.go\<close>: a sequenced batch is committed once. One transaction adds the
  difference of its cumulative health counters, its traffic and its watermark; a batch the
  watermark already covers only counts as a duplicate. Tables are lists of rows in rowid order. A
  failing statement ends the transaction, which is rolled back; \<open>fault\<close> names the one that fails.
  The JSON column of the health counters holds the counters themselves.
\<close>

section \<open>Tables\<close>

record watermark =
  wm_SessionID :: string
  wm_Interface :: string
  wm_Sequence :: uint64
  wm_SentAtUs :: int
  wm_CommittedAtMs :: int
  wm_EventsCommitted :: bool
  wm_NotificationsCommitted :: bool
  wm_Complete :: bool
  wm_Reason :: string
  wm_SequenceGaps :: uint64
  wm_Duplicates :: int
  wm_Health :: collector_health

definition no_watermark :: watermark where
  "no_watermark = \<lparr>wm_SessionID = [], wm_Interface = [], wm_Sequence = 0, wm_SentAtUs = 0, wm_CommittedAtMs = 0,
     wm_EventsCommitted = False, wm_NotificationsCommitted = False, wm_Complete = False, wm_Reason = [],
     wm_SequenceGaps = 0, wm_Duplicates = 0, wm_Health = no_health\<rparr>"

record gap_row =
  gp_id :: int
  gp_name :: string
  gp_reason :: string
  gp_started :: int
  gp_ended :: int
  gp_count :: uint64

record health_row =
  hr_batches :: int
  hr_counters :: "int list"
  hr_saturations :: int
  hr_last_seen :: int

record commit_db =
  cd_watermarks :: "watermark list"
  cd_retired :: int
  cd_gaps :: "gap_row list"
  cd_health :: "(int \<times> health_row) list"
  cd_traffic :: traffic_db

definition MaxSensorWatermarks :: int where "MaxSensorWatermarks = 64"

datatype statement =
    BeginWrite | BeginTx | ReadWatermark | CountDuplicate | CommitDuplicate | ReadPreviousEnd | ReadRetired
  | InsertGap | RecordHealth | AddTraffic | InsertPartialGap | WriteWatermark | CountWatermarks | ReadOldest
  | UpdateRetired | DeleteOldest | InsertRetiredGap | CommitTx

datatype commit_error =
    CommitIdentity | CommitBatch batch_error | CommitCompletion | CommitReason | CommitStatement statement
  | WatermarkInvalid | TrafficIncomplete | SessionHistory | CommitHealth health_error
  | CommitTraffic traffic_error | CommitRetention retention_error | GapsExhausted

section \<open>Reading\<close>

definition commit_reasons :: "string list" where
  "commit_reasons = [''committed'', ''derived_events_pending'', ''derived_events_rejected'', ''notification_rejected'']"

definition decodeSensorHealth :: "watermark \<Rightarrow> bool" where
  "decodeSensorHealth w \<longleftrightarrow> ValidSessionID (wm_SessionID w) \<and> ValidInterfaceName (wm_Interface w) \<and>
     wm_Sequence w \<noteq> 0 \<and> wm_Sequence w \<le> max_sqlite \<and> year_in_range (wm_SentAtUs w * 1000) \<and>
     year_in_range (wm_CommittedAtMs w * 1000000) \<and>
     wm_Complete w = (wm_Reason w = ''committed'') \<and>
     (wm_Complete w \<longrightarrow> wm_EventsCommitted w \<and> wm_NotificationsCommitted w) \<and>
     wm_Reason w \<in> set commit_reasons \<and> \<not> isl (Delta (wm_Health w) no_health)"

definition same_feed :: "string \<Rightarrow> string \<Rightarrow> watermark \<Rightarrow> bool" where
  "same_feed session name w \<longleftrightarrow> wm_SessionID w = session \<and> wm_Interface w = name"

text \<open>The row of a session and interface, \<open>None\<close> when there is none; an invalid row is an error.\<close>

definition readSensorWatermark :: "string \<Rightarrow> string \<Rightarrow> commit_db \<Rightarrow> commit_error + watermark option" where
  "readSensorWatermark session name db = (case filter (same_feed session name) (cd_watermarks db) of
     [] \<Rightarrow> Inr None
   | w # _ \<Rightarrow> if decodeSensorHealth w then Inr (Some w) else Inl WatermarkInvalid)"

definition sensorACK :: "batch \<Rightarrow> watermark \<Rightarrow> bool \<Rightarrow> commit_ack" where
  "sensorACK b w duplicate =
     (let ack = \<lparr>ak_ProtocolVersion = Version, ak_SessionID = bt_SessionID b, ak_Interface = bt_Interface b,
            ak_Sequence = bt_Sequence b, ak_CommittedSequence = wm_Sequence w, ak_HealthCommitted = True,
            ak_TrafficCommitted = True, ak_EventsCommitted = wm_EventsCommitted w,
            ak_NotificationsCommitted = wm_NotificationsCommitted w, ak_Complete = wm_Complete w,
            ak_Duplicate = duplicate, ak_Reason = wm_Reason w\<rparr>
      in if duplicate \<and> bt_Sequence b < wm_Sequence w
         then ack\<lparr>ak_Complete := False, ak_EventsCommitted := False, ak_NotificationsCommitted := False,
                ak_Reason := ''duplicate_history_unknown''\<rparr>
         else ack)"

section \<open>Writing\<close>

definition gap_ids :: "gap_row list \<Rightarrow> int" where
  "gap_ids gaps = (case gaps of [] \<Rightarrow> 0 | g # gs \<Rightarrow> fold (\<lambda>q m. max m (gp_id q)) gs (gp_id g))"

definition least :: "(gap_row \<Rightarrow> int) \<Rightarrow> gap_row list \<Rightarrow> int" where
  "least f gaps = (case gaps of [] \<Rightarrow> 0 | g # gs \<Rightarrow> fold (\<lambda>q m. min m (f q)) gs (f g))"

definition greatest :: "(gap_row \<Rightarrow> int) \<Rightarrow> gap_row list \<Rightarrow> int" where
  "greatest f gaps = (case gaps of [] \<Rightarrow> 0 | g # gs \<Rightarrow> fold (\<lambda>q m. max m (f q)) gs (f g))"

definition insertSensorGap :: "string \<Rightarrow> time \<Rightarrow> time \<Rightarrow> uint64 \<Rightarrow> time \<Rightarrow> commit_db \<Rightarrow> commit_error + commit_db" where
  "insertSensorGap reason start end missed now db =
     (let gaps = cd_gaps db @ [\<lparr>gp_id = gap_ids (cd_gaps db) + 1, gp_name = ''sensor_feed'', gp_reason = reason, gp_started = unix_ms start,
            gp_ended = unix_ms end, gp_count = missed\<rparr>];
          cutoff = gap_ids gaps - 1000;
          pruned = filter (\<lambda>g. gp_id g \<le> cutoff) gaps
      in case recordRetention ''coverage_gaps'' ''capacity_eviction'' (int (length pruned)) (least gp_started pruned)
             (greatest gp_ended pruned) now (td_retention (cd_traffic db)) of
           Inl e \<Rightarrow> Inl (CommitRetention e)
         | Inr ret \<Rightarrow> Inr (db\<lparr>cd_gaps := filter (\<lambda>g. \<not> gp_id g \<le> cutoff) gaps,
             cd_traffic := (cd_traffic db)\<lparr>td_retention := ret\<rparr>\<rparr>))"

definition recordBatchHealth :: "batch \<Rightarrow> commit_db \<Rightarrow> commit_db" where
  "recordBatchHealth b db =
     (let h = bt_SentAt b div hour * hour div second;
          counters = map (\<lambda>c. uint (c (CollectorHealth b))) health_counters;
          flag = (if bt_HealthCountersSaturated b then 1 else 0);
          row = (case map_of (cd_health db) h of
            None \<Rightarrow> \<lparr>hr_batches = 1, hr_counters = counters, hr_saturations = flag, hr_last_seen = unix_ms (bt_SentAt b)\<rparr>
          | Some r \<Rightarrow> \<lparr>hr_batches = hr_batches r + 1, hr_counters = map2 (+) (hr_counters r) counters,
              hr_saturations = hr_saturations r + flag, hr_last_seen = unix_ms (bt_SentAt b)\<rparr>)
      in db\<lparr>cd_health := AList.update h row (cd_health db)\<rparr>)"

definition previous_end :: "string \<Rightarrow> watermark list \<Rightarrow> int" where
  "previous_end name ws = (case filter (\<lambda>w. wm_Interface w = name) ws of
     [] \<Rightarrow> 0 | w # rest \<Rightarrow> fold (\<lambda>w m. max m (wm_SentAtUs w)) rest (wm_SentAtUs w))"

text \<open>The upsert keeps the row and its count of duplicates.\<close>

definition put_watermark :: "watermark \<Rightarrow> watermark list \<Rightarrow> watermark list" where
  "put_watermark w ws =
     (if list_ex (same_feed (wm_SessionID w) (wm_Interface w)) ws
      then map (\<lambda>v. if same_feed (wm_SessionID w) (wm_Interface w) v then w\<lparr>wm_Duplicates := wm_Duplicates v\<rparr> else v) ws
      else ws @ [w])"

definition oldest_watermark :: "watermark list \<Rightarrow> watermark" where
  "oldest_watermark ws = fold (\<lambda>w m. if wm_CommittedAtMs w < wm_CommittedAtMs m then w else m) (tl ws) (hd ws)"

section \<open>The commit\<close>

definition attempt :: "statement option \<Rightarrow> statement \<Rightarrow> commit_error + 'a \<Rightarrow> commit_error + 'a" where
  "attempt fault st r = (if fault = Some st then Inl (CommitStatement st) else r)"

definition bind_commit :: "commit_error + 'a \<Rightarrow> ('a \<Rightarrow> commit_error + 'b) \<Rightarrow> commit_error + 'b" where
  "bind_commit m f = (case m of Inl e \<Rightarrow> Inl e | Inr x \<Rightarrow> f x)"

definition retire_oldest :: "statement option \<Rightarrow> time \<Rightarrow> commit_db \<Rightarrow> commit_error + commit_db" where
  "retire_oldest fault now db =
     (if int (length (cd_watermarks db)) \<le> MaxSensorWatermarks then Inr db
      else
        let old = oldest_watermark (cd_watermarks db)
        in attempt fault ReadOldest (attempt fault UpdateRetired (attempt fault DeleteOldest (attempt fault InsertRetiredGap
             (insertSensorGap ''sensor_watermark_retired'' now now 0 now
               (db\<lparr>cd_retired := max (cd_retired db) (wm_SentAtUs old),
                   cd_watermarks := filter (\<lambda>w. \<not> same_feed (wm_SessionID old) (wm_Interface old) w) (cd_watermarks db)\<rparr>))))))"

definition window_start :: "batch \<Rightarrow> time" where
  "window_start b = bt_SentAt b - bt_IntervalMillis b * millisecond"

definition sequence_gap :: "watermark option \<Rightarrow> batch \<Rightarrow> uint64" where
  "sequence_gap w b = (case w of None \<Rightarrow> bt_Sequence b - 1 | Some w \<Rightarrow> bt_Sequence b - wm_Sequence w - 1)"

definition record_gap :: "statement option \<Rightarrow> watermark option \<Rightarrow> batch \<Rightarrow> time \<Rightarrow> commit_db \<Rightarrow> commit_error + commit_db" where
  "record_gap fault w b now db =
     (let missed = sequence_gap w b; start = window_start b; ended = previous_end (bt_Interface b) (cd_watermarks db);
          from_time = (if 0 < ended then ended * 1000 else start)
      in if 0 < missed \<or> millisecond < time_sub start from_time
         then attempt fault InsertGap
                (insertSensorGap (if 0 < missed then ''sensor_sequence_gap'' else ''sensor_observation_gap'')
                  (if start < from_time then start else from_time) start missed now db)
         else Inr db)"

definition new_watermark :: "watermark option \<Rightarrow> batch \<Rightarrow> time \<Rightarrow> bool \<Rightarrow> bool \<Rightarrow> bool \<Rightarrow> string \<Rightarrow> watermark" where
  "new_watermark w b now events notifications whole reason =
     (let old = (case w of None \<Rightarrow> no_watermark | Some w \<Rightarrow> w)
      in \<lparr>wm_SessionID = bt_SessionID b, wm_Interface = bt_Interface b, wm_Sequence = bt_Sequence b,
          wm_SentAtUs = unix_us (bt_SentAt b), wm_CommittedAtMs = unix_ms now, wm_EventsCommitted = events,
          wm_NotificationsCommitted = notifications, wm_Complete = whole, wm_Reason = reason,
          wm_SequenceGaps = wm_SequenceGaps old + sequence_gap w b, wm_Duplicates = wm_Duplicates old,
          wm_Health = CollectorHealth b\<rparr>)"

definition health_before :: "watermark option \<Rightarrow> collector_health" where
  "health_before w = (case w of None \<Rightarrow> no_health | Some w \<Rightarrow> wm_Health w)"

definition gaps_before :: "watermark option \<Rightarrow> uint64" where
  "gaps_before w = (case w of None \<Rightarrow> 0 | Some w \<Rightarrow> wm_SequenceGaps w)"

text \<open>The part of the transaction that accounts a batch the watermark does not cover yet.\<close>

definition account_batch :: "statement option \<Rightarrow> time \<Rightarrow> watermark option \<Rightarrow> batch \<Rightarrow> traffic list \<Rightarrow> bool \<Rightarrow> bool \<Rightarrow>
    bool \<Rightarrow> string \<Rightarrow> commit_db \<Rightarrow> commit_error + (watermark \<times> commit_db)" where
  "account_batch fault now w b traffic events notifications whole reason db =
     bind_commit (record_gap fault w b now db) (\<lambda>db.
     bind_commit (case Delta (CollectorHealth b) (health_before w) of Inl e \<Rightarrow> Inl (CommitHealth e) | Inr d \<Rightarrow> Inr d) (\<lambda>delta.
     bind_commit (attempt fault RecordHealth (Inr (recordBatchHealth (Apply delta b) db))) (\<lambda>db.
     bind_commit (attempt fault AddTraffic (case addTrafficBatch now traffic (cd_traffic db) of
         Inl e \<Rightarrow> Inl (CommitTraffic e) | Inr t \<Rightarrow> Inr (db\<lparr>cd_traffic := t\<rparr>))) (\<lambda>db.
     bind_commit (if whole then Inr db
         else attempt fault InsertPartialGap
           (insertSensorGap ''sensor_derived_events_partial'' (window_start b) (bt_SentAt b) 0 now db)) (\<lambda>db.
     if max_sqlite - sequence_gap w b < gaps_before w then Inl GapsExhausted
     else
       let w' = new_watermark w b now events notifications whole reason in
       bind_commit (attempt fault WriteWatermark (Inr (db\<lparr>cd_watermarks := put_watermark w' (cd_watermarks db)\<rparr>))) (\<lambda>db.
       bind_commit (attempt fault CountWatermarks (retire_oldest fault now db)) (\<lambda>db.
       attempt fault CommitTx (Inr (w', db)))))))))"

definition initial_ack :: "batch \<Rightarrow> commit_ack" where
  "initial_ack b = \<lparr>ak_ProtocolVersion = Version, ak_SessionID = bt_SessionID b, ak_Interface = bt_Interface b,
     ak_Sequence = bt_Sequence b, ak_CommittedSequence = 0, ak_HealthCommitted = False, ak_TrafficCommitted = False,
     ak_EventsCommitted = False, ak_NotificationsCommitted = False, ak_Complete = False, ak_Duplicate = False,
     ak_Reason = ''storage_failed''\<rparr>"

definition count_duplicate :: "string \<Rightarrow> string \<Rightarrow> watermark list \<Rightarrow> watermark list" where
  "count_duplicate session name ws = map (\<lambda>w. if same_feed session name w
     then w\<lparr>wm_Duplicates := min max_int64 (wm_Duplicates w + 1)\<rparr> else w) ws"

definition commit_checks :: "batch \<Rightarrow> bool \<Rightarrow> bool \<Rightarrow> bool \<Rightarrow> string \<Rightarrow> commit_error + batch" where
  "commit_checks b events notifications whole reason =
     (if bt_ProtocolVersion b < 5 \<or> \<not> ValidSessionID (bt_SessionID b) \<or> bt_Sequence b = 0 \<or> max_sqlite < bt_Sequence b \<or>
        \<not> ValidInterfaceName (bt_Interface b) \<or> is_zero (bt_SentAt b) then Inl CommitIdentity
      else case ValidateAt (bt_SentAt b) b of
        Inl e \<Rightarrow> Inl (CommitBatch e)
      | Inr b \<Rightarrow>
          if whole \<noteq> (reason = ''committed'') \<or> whole \<and> (\<not> events \<or> \<not> notifications) then Inl CommitCompletion
          else if reason \<notin> set commit_reasons then Inl CommitReason
          else Inr b)"

definition nonmonotonic :: "watermark option \<Rightarrow> batch \<Rightarrow> commit_db \<Rightarrow> bool" where
  "nonmonotonic w b db \<longleftrightarrow> w = None \<and> unix_us (bt_SentAt b) \<le> cd_retired db \<or>
     unix_us (bt_SentAt b) \<le> previous_end (bt_Interface b) (cd_watermarks db)"

definition CommitSensorBatch :: "statement option \<Rightarrow> time \<Rightarrow> batch \<Rightarrow> traffic list \<Rightarrow> bool \<Rightarrow> bool \<Rightarrow> bool \<Rightarrow> string \<Rightarrow>
    commit_db \<Rightarrow> commit_ack \<times> commit_error option \<times> commit_db" where
  "CommitSensorBatch fault now b0 traffic events notifications whole reason db =
     (let ack = initial_ack b0 in
      case commit_checks b0 events notifications whole reason of
        Inl e \<Rightarrow> (ack, Some e, db)
      | Inr b \<Rightarrow>
        if fault = Some BeginWrite then (ack, Some (CommitStatement BeginWrite), db)
        else if fault = Some BeginTx then (ack, Some (CommitStatement BeginTx), db)
        else case attempt fault ReadWatermark (readSensorWatermark (bt_SessionID b) (bt_Interface b) db) of
          Inl e \<Rightarrow> (ack, Some e, db)
        | Inr w \<Rightarrow>
          if w \<noteq> None \<and> bt_Sequence b \<le> wm_Sequence (the w) then
            if fault = Some CountDuplicate then (ack, Some (CommitStatement CountDuplicate), db)
            else if fault = Some CommitDuplicate then (ack, Some (CommitStatement CommitDuplicate), db)
            else (sensorACK b (the w) True, None,
              db\<lparr>cd_watermarks := count_duplicate (bt_SessionID b) (bt_Interface b) (cd_watermarks db)\<rparr>)
          else
            let ack = ack\<lparr>ak_CommittedSequence := (case w of None \<Rightarrow> 0 | Some w \<Rightarrow> wm_Sequence w)\<rparr> in
            if length traffic \<noteq> length (bt_Flows b) then (ack, Some TrafficIncomplete, db)
            else if fault = Some ReadPreviousEnd then (ack, Some (CommitStatement ReadPreviousEnd), db)
            else if fault = Some ReadRetired then (ack, Some (CommitStatement ReadRetired), db)
            else if nonmonotonic w b db
            then (ack\<lparr>ak_Reason := ''retired_or_nonmonotonic_session''\<rparr>, Some SessionHistory, db)
            else case account_batch fault now w b traffic events notifications whole reason db of
              Inl e \<Rightarrow> (ack, Some e, db)
            | Inr (w', db') \<Rightarrow> (sensorACK b w' False, None, db'))"

section \<open>What a commit does\<close>

definition feed_of :: "watermark \<Rightarrow> string \<times> string" where
  "feed_of w = (wm_SessionID w, wm_Interface w)"

lemma same_feed_iff: "same_feed s i w \<longleftrightarrow> feed_of w = (s, i)"
  by (auto simp: same_feed_def feed_of_def)

definition feed_row :: "string \<times> string \<Rightarrow> commit_db \<Rightarrow> watermark option" where
  "feed_row f db = (case filter (\<lambda>w. feed_of w = f) (cd_watermarks db) of [] \<Rightarrow> None | w # _ \<Rightarrow> Some w)"

definition batch_feed :: "batch \<Rightarrow> string \<times> string" where
  "batch_feed b = (bt_SessionID b, bt_Interface b)"

lemma feed_row_Some:
  assumes "feed_row f db = Some w"
  shows "w \<in> set (cd_watermarks db) \<and> feed_of w = f"
proof -
  obtain ws where "filter (\<lambda>w. feed_of w = f) (cd_watermarks db) = w # ws"
    using assms by (auto simp: feed_row_def split: list.splits)
  then have "w \<in> set (filter (\<lambda>w. feed_of w = f) (cd_watermarks db))" by simp
  then show ?thesis by simp
qed

lemma feed_row_None: "feed_row f db = None \<longleftrightarrow> f \<notin> feed_of ` set (cd_watermarks db)"
proof -
  have "feed_row f db = None \<longleftrightarrow> filter (\<lambda>w. feed_of w = f) (cd_watermarks db) = []"
    by (simp add: feed_row_def split: list.split)
  then show ?thesis by (auto simp: filter_empty_conv)
qed

lemma readSensorWatermark_row:
  "readSensorWatermark s i db = (case feed_row (s, i) db of None \<Rightarrow> Inr None
     | Some w \<Rightarrow> if decodeSensorHealth w then Inr (Some w) else Inl WatermarkInvalid)"
proof -
  have "same_feed s i = (\<lambda>w. feed_of w = (s, i))" by (simp add: fun_eq_iff same_feed_iff)
  then show ?thesis by (simp add: readSensorWatermark_def feed_row_def split: list.split)
qed

lemma bind_commit_Inr: "bind_commit m f = Inr y \<longleftrightarrow> (\<exists>x. m = Inr x \<and> f x = Inr y)"
  by (auto simp: bind_commit_def split: sum.split)

lemma attempt_Inr: "attempt fault st r = Inr y \<longleftrightarrow> fault \<noteq> Some st \<and> r = Inr y"
  by (auto simp: attempt_def)

lemmas commit_monad = bind_commit_Inr attempt_Inr

lemma insertSensorGap_frame:
  "insertSensorGap reason start end missed now db = Inr db' \<Longrightarrow>
     cd_watermarks db' = cd_watermarks db \<and> cd_retired db' = cd_retired db \<and> cd_health db' = cd_health db \<and>
     td_rows (cd_traffic db') = td_rows (cd_traffic db) \<and> td_cardinality (cd_traffic db') = td_cardinality (cd_traffic db)"
  by (auto simp: insertSensorGap_def Let_def split: sum.splits)

lemma record_gap_frame:
  "record_gap fault w b now db = Inr db' \<Longrightarrow>
     cd_watermarks db' = cd_watermarks db \<and> cd_retired db' = cd_retired db \<and> cd_health db' = cd_health db \<and>
     td_rows (cd_traffic db') = td_rows (cd_traffic db)"
  unfolding record_gap_def Let_def
  by (auto simp: commit_monad split: if_splits dest!: insertSensorGap_frame)

lemma recordBatchHealth_frame [simp]:
  "cd_watermarks (recordBatchHealth b db) = cd_watermarks db" "cd_retired (recordBatchHealth b db) = cd_retired db"
  "cd_traffic (recordBatchHealth b db) = cd_traffic db"
  by (simp_all add: recordBatchHealth_def Let_def)

lemma bind_commitE:
  assumes "bind_commit m f = Inr y"
  obtains x where "m = Inr x" "f x = Inr y"
  using assms by (auto simp: bind_commit_Inr)

text \<open>The states of a successful transaction, one after the other.\<close>

lemma account_batch_steps:
  assumes "account_batch fault now w b traffic events notifications whole reason db = Inr (w', db')"
  obtains delta db1 t t' where "Delta (CollectorHealth b) (health_before w) = Inr delta"
    and "w' = new_watermark w b now events notifications whole reason"
    and "cd_watermarks db1 = put_watermark w' (cd_watermarks db)" and "cd_retired db1 = cd_retired db"
    and "cd_health db1 = cd_health (recordBatchHealth (Apply delta b) db)"
    and "retire_oldest fault now db1 = Inr db'"
    and "addTrafficBatch now traffic t = Inr t'" and "td_rows t = td_rows (cd_traffic db)"
    and "td_rows t' = td_rows (cd_traffic db1)" and "max_sqlite - sequence_gap w b \<ge> gaps_before w"
proof -
  let ?health = "case Delta (CollectorHealth b) (health_before w) of Inl e \<Rightarrow> Inl (CommitHealth e) | Inr d \<Rightarrow> Inr d"
  let ?w = "new_watermark w b now events notifications whole reason"
  from assms obtain d1 where d1: "record_gap fault w b now db = Inr d1"
    unfolding account_batch_def by (elim bind_commitE)
  from assms obtain delta where delta: "?health = Inr delta"
    unfolding account_batch_def by (elim bind_commitE)
  define d2 where "d2 = recordBatchHealth (Apply delta b) d1"
  have "\<exists>t' d5. addTrafficBatch now traffic (cd_traffic d2) = Inr t' \<and>
      (if whole then Inr (d2\<lparr>cd_traffic := t'\<rparr>) else attempt fault InsertPartialGap
         (insertSensorGap ''sensor_derived_events_partial'' (window_start b) (bt_SentAt b) 0 now (d2\<lparr>cd_traffic := t'\<rparr>))) = Inr d5 \<and>
      \<not> max_sqlite - sequence_gap w b < gaps_before w \<and> w' = ?w \<and>
      retire_oldest fault now (d5\<lparr>cd_watermarks := put_watermark ?w (cd_watermarks d5)\<rparr>) = Inr db'"
    using assms unfolding account_batch_def
    by (elim bind_commitE) (simp add: d1 delta d2_def attempt_Inr bind_commit_Inr Let_def split: sum.splits if_split_asm, auto)
  then obtain t' d5 where t': "addTrafficBatch now traffic (cd_traffic d2) = Inr t'"
    and d5: "(if whole then Inr (d2\<lparr>cd_traffic := t'\<rparr>) else attempt fault InsertPartialGap
         (insertSensorGap ''sensor_derived_events_partial'' (window_start b) (bt_SentAt b) 0 now (d2\<lparr>cd_traffic := t'\<rparr>))) = Inr d5"
    and rest: "\<not> max_sqlite - sequence_gap w b < gaps_before w" "w' = ?w"
      "retire_oldest fault now (d5\<lparr>cd_watermarks := put_watermark ?w (cd_watermarks d5)\<rparr>) = Inr db'" by blast
  note f1 = record_gap_frame [OF d1]
  have f5: "cd_watermarks d5 = cd_watermarks db" "cd_retired d5 = cd_retired db" "cd_health d5 = cd_health d2"
      "td_rows (cd_traffic d5) = td_rows t'"
    using d5 f1 by (auto simp: d2_def attempt_Inr split: if_splits dest!: insertSensorGap_frame)
  have "cd_health d2 = cd_health (recordBatchHealth (Apply delta b) db)"
    using f1 by (simp add: d2_def recordBatchHealth_def Let_def)
  then show ?thesis
    using that [of delta "d5\<lparr>cd_watermarks := put_watermark ?w (cd_watermarks d5)\<rparr>" "cd_traffic d2" t'] delta rest t' f1 f5
    by (auto simp: d2_def split: sum.splits)
qed

lemma commit_checks_Inr:
  assumes "commit_checks b0 events notifications whole reason = Inr b"
  shows "batch_feed b = batch_feed b0" "bt_Sequence b = bt_Sequence b0" "bt_SentAt b = bt_SentAt b0"
    "CollectorHealth b = CollectorHealth b0" "bt_IntervalMillis b = bt_IntervalMillis b0"
    "ValidSessionID (bt_SessionID b)" "ValidInterfaceName (bt_Interface b)" "bt_Sequence b \<noteq> 0" "bt_Sequence b \<le> max_sqlite"
    "year_in_range (bt_SentAt b)" "whole = (reason = ''committed'')" "whole \<longrightarrow> events \<and> notifications" "reason \<in> set commit_reasons"
proof -
  define head where "head = (bt_ProtocolVersion b0 < 5 \<or> \<not> ValidSessionID (bt_SessionID b0) \<or> bt_Sequence b0 = 0 \<or> max_sqlite < bt_Sequence b0 \<or>
        \<not> ValidInterfaceName (bt_Interface b0) \<or> is_zero (bt_SentAt b0))"
  have h: "\<not> head" and v: "ValidateAt (bt_SentAt b0) b0 = Inr b" and r: "whole = (reason = ''committed'')"
      "whole \<longrightarrow> events \<and> notifications" "reason \<in> set commit_reasons"
    using assms unfolding commit_checks_def head_def [symmetric] by (auto split: if_splits sum.splits)
  obtain fs where b: "b = b0\<lparr>bt_Flows := fs\<rparr>" using validate_at_Inr [OF v] by blast
  have "year_in_range (bt_SentAt b0)" using v unfolding ValidateAt_def by (auto split: if_splits)
  then show "year_in_range (bt_SentAt b)" by (simp add: b)
  show "batch_feed b = batch_feed b0" "bt_Sequence b = bt_Sequence b0" "bt_SentAt b = bt_SentAt b0"
    "CollectorHealth b = CollectorHealth b0" "bt_IntervalMillis b = bt_IntervalMillis b0"
    by (simp_all add: b batch_feed_def CollectorHealth_def)
  show "ValidSessionID (bt_SessionID b)" "ValidInterfaceName (bt_Interface b)" "bt_Sequence b \<noteq> 0" "bt_Sequence b \<le> max_sqlite"
    using h by (auto simp: b head_def)
  show "whole = (reason = ''committed'')" "whole \<longrightarrow> events \<and> notifications" "reason \<in> set commit_reasons"
    by (fact r)+
qed

lemma commit_cases:
  assumes "CommitSensorBatch fault now b0 traffic events notifications whole reason db = (ack, err, db')"
  obtains (failed) e where "err = Some e" "db' = db" "\<not> ak_Complete ack" "\<not> ak_TrafficCommitted ack"
  | (duplicate) b w where "commit_checks b0 events notifications whole reason = Inr b" "feed_row (batch_feed b) db = Some w"
      "decodeSensorHealth w" "bt_Sequence b \<le> wm_Sequence w" "ack = sensorACK b w True" "err = None"
      "db' = db\<lparr>cd_watermarks := count_duplicate (bt_SessionID b) (bt_Interface b) (cd_watermarks db)\<rparr>"
  | (accounted) b w w' where "commit_checks b0 events notifications whole reason = Inr b" "feed_row (batch_feed b) db = w"
      "\<And>v. w = Some v \<Longrightarrow> wm_Sequence v < bt_Sequence b" "length traffic = length (bt_Flows b)" "\<not> nonmonotonic w b db"
      "account_batch fault now w b traffic events notifications whole reason db = Inr (w', db')"
      "ack = sensorACK b w' False" "err = None"
proof (cases "commit_checks b0 events notifications whole reason")
  case (Inl e)
  then show ?thesis using assms failed by (simp add: CommitSensorBatch_def initial_ack_def Let_def) (metis commit_ack.select_convs)
next
  case (Inr b)
  let ?read = "attempt fault ReadWatermark (readSensorWatermark (bt_SessionID b) (bt_Interface b) db)"
  note run = assms [unfolded CommitSensorBatch_def Let_def Inr sum.case]
  consider "fault = Some BeginWrite \<or> fault = Some BeginTx" | e where "fault \<noteq> Some BeginWrite" "fault \<noteq> Some BeginTx" "?read = Inl e"
    | w where "fault \<noteq> Some BeginWrite" "fault \<noteq> Some BeginTx" "?read = Inr w"
    by (cases ?read) blast+
  then show ?thesis
  proof cases
    case 1
    then show ?thesis using run failed by (auto simp: initial_ack_def)
  next
    case (2 e)
    then show ?thesis using run failed by (auto simp: initial_ack_def)
  next
    case (3 w)
    have row: "feed_row (batch_feed b) db = w" "\<And>v. w = Some v \<Longrightarrow> decodeSensorHealth v"
      using 3(3) by (auto simp: attempt_Inr readSensorWatermark_row batch_feed_def split: option.splits if_splits)
    note run = run [unfolded 3(3) sum.case]
    show ?thesis
    proof (cases "w \<noteq> None \<and> bt_Sequence b \<le> wm_Sequence (the w)")
      case True
      then obtain v where v: "w = Some v" "bt_Sequence b \<le> wm_Sequence v" by auto
      show ?thesis
      proof (cases "fault = Some CountDuplicate \<or> fault = Some CommitDuplicate")
        case True
        then show ?thesis using run v 3 failed by (auto simp: initial_ack_def)
      next
        case False
        then have "ack = sensorACK b v True" "err = None"
          "db' = db\<lparr>cd_watermarks := count_duplicate (bt_SessionID b) (bt_Interface b) (cd_watermarks db)\<rparr>"
          using run v 3 by auto
        then show ?thesis using duplicate [OF Inr, of v] row v by simp
      qed
    next
      case False
      then have later: "\<And>v. w = Some v \<Longrightarrow> wm_Sequence v < bt_Sequence b" by auto
      note run = run [unfolded if_not_P [OF False]]
      show ?thesis
      proof (cases "length traffic \<noteq> length (bt_Flows b) \<or> fault = Some ReadPreviousEnd \<or> fault = Some ReadRetired \<or> nonmonotonic w b db")
        case True
        then show ?thesis using run 3 failed by (auto simp: initial_ack_def split: if_splits)
      next
        case False
        show ?thesis
        proof (cases "account_batch fault now w b traffic events notifications whole reason db")
          case (Inl e)
          then show ?thesis using run 3 False failed by (auto simp: initial_ack_def)
        next
          case acc: (Inr p)
          obtain w' d' where p: "p = (w', d')" by (cases p)
          then have "ack = sensorACK b w' False" "err = None" "db' = d'" using run 3 False acc by auto
          then show ?thesis using accounted [OF Inr row(1) later] False acc p by simp
        qed
      qed
    qed
  qed
qed

section \<open>Rows of a feed\<close>

definition commit_inv :: "commit_db \<Rightarrow> bool" where
  "commit_inv db \<longleftrightarrow> distinct (map feed_of (cd_watermarks db)) \<and> int (length (cd_watermarks db)) \<le> MaxSensorWatermarks \<and>
     list_all decodeSensorHealth (cd_watermarks db)"

lemma same_feed_of: "same_feed (wm_SessionID w) (wm_Interface w) = (\<lambda>v. feed_of v = feed_of w)"
  by (auto simp: fun_eq_iff same_feed_iff feed_of_def)

lemma has_feed: "list_ex (\<lambda>v. feed_of v = f) ws \<longleftrightarrow> f \<in> feed_of ` set ws"
  by (induction ws) auto

lemma put_watermark_cases:
  "put_watermark w ws = (if feed_of w \<in> feed_of ` set ws
     then map (\<lambda>v. if feed_of v = feed_of w then w\<lparr>wm_Duplicates := wm_Duplicates v\<rparr> else v) ws else ws @ [w])"
  unfolding put_watermark_def same_feed_of has_feed by simp

lemma put_watermark_feeds:
  "map feed_of (put_watermark w ws) = (if feed_of w \<in> feed_of ` set ws then map feed_of ws else map feed_of ws @ [feed_of w])"
proof -
  have "map feed_of (map (\<lambda>v. if feed_of v = feed_of w then w\<lparr>wm_Duplicates := wm_Duplicates v\<rparr> else v) ws) = map feed_of ws"
    by (induction ws) (auto simp: feed_of_def)
  then show ?thesis by (simp add: put_watermark_cases)
qed

text \<open>What the rest of the program sees of a row: everything but its count of duplicates.\<close>

definition row_state :: "watermark \<Rightarrow> watermark" where
  "row_state w = w\<lparr>wm_Duplicates := 0\<rparr>"

definition row_in :: "string \<times> string \<Rightarrow> watermark list \<Rightarrow> watermark option" where
  "row_in f ws = (case filter (\<lambda>w. feed_of w = f) ws of [] \<Rightarrow> None | w # _ \<Rightarrow> Some w)"

lemma feed_row_in: "feed_row f db = row_in f (cd_watermarks db)"
  by (simp add: feed_row_def row_in_def)

lemma row_in_simps [simp]:
  "row_in f [] = None" "row_in f (w # ws) = (if feed_of w = f then Some w else row_in f ws)"
  by (simp_all add: row_in_def)

lemma row_in_append: "row_in f (xs @ ys) = (case row_in f xs of None \<Rightarrow> row_in f ys | Some w \<Rightarrow> Some w)"
  by (induction xs) auto

lemma row_in_None: "row_in f ws = None \<longleftrightarrow> f \<notin> feed_of ` set ws"
  by (induction ws) auto

lemma row_in_Some: "row_in f ws = Some w \<Longrightarrow> w \<in> set ws \<and> feed_of w = f"
  by (induction ws) (auto split: if_splits)

lemma row_in_map:
  "(\<And>w. feed_of (g w) = feed_of w) \<Longrightarrow> row_in f (map g ws) = map_option g (row_in f ws)"
  by (induction ws) auto

lemma row_in_filter: "row_in f (filter (\<lambda>w. feed_of w \<noteq> x) ws) = (if f = x then None else row_in f ws)"
  by (induction ws) auto

lemma row_in_put:
  "map_option row_state (row_in f (put_watermark w ws)) = (if f = feed_of w then Some (row_state w) else map_option row_state (row_in f ws))"
proof (cases "feed_of w \<in> feed_of ` set ws")
  case True
  define g where "g v = (if feed_of v = feed_of w then w\<lparr>wm_Duplicates := wm_Duplicates v\<rparr> else v)" for v
  have feed: "feed_of (g v) = feed_of v" for v by (simp add: g_def) (simp add: feed_of_def)
  have put: "put_watermark w ws = map g ws"
    using True by (simp add: put_watermark_cases g_def)
  obtain v where v: "row_in (feed_of w) ws = Some v" using True row_in_None by blast
  have same: "row_in f (put_watermark w ws) = map_option g (row_in f ws)"
    unfolding put by (rule row_in_map) (rule feed)
  show ?thesis
  proof (cases "row_in f ws")
    case None
    then show ?thesis using same v by auto
  next
    case (Some u)
    then show ?thesis using same row_in_Some [OF Some] by (auto simp: g_def row_state_def)
  qed
next
  case False
  then have "put_watermark w ws = ws @ [w]"
    by (simp add: put_watermark_cases)
  then show ?thesis using False row_in_None [of "feed_of w" ws] by (auto simp: row_in_append split: option.split)
qed

lemma count_duplicate_rows: "map row_state (count_duplicate s i ws) = map row_state ws"
  by (simp add: count_duplicate_def row_state_def)

lemma oldest_watermark_in: "ws \<noteq> [] \<Longrightarrow> oldest_watermark ws \<in> set ws"
proof -
  have "fold (\<lambda>w m. if wm_CommittedAtMs w < wm_CommittedAtMs m then w else m) xs x \<in> insert x (set xs)" for xs :: "watermark list" and x
  proof (induction xs arbitrary: x)
    case (Cons y ys)
    show ?case using Cons.IH [of x] Cons.IH [of y] by auto
  qed simp
  moreover assume "ws \<noteq> []"
  ultimately show ?thesis unfolding oldest_watermark_def by (cases ws) auto
qed

lemma retire_oldest_effect:
  assumes "retire_oldest fault now db = Inr db'"
  obtains (kept) "int (length (cd_watermarks db)) \<le> MaxSensorWatermarks" "db' = db"
  | (retired) old where "old \<in> set (cd_watermarks db)" "MaxSensorWatermarks < int (length (cd_watermarks db))"
      "cd_watermarks db' = filter (\<lambda>w. feed_of w \<noteq> feed_of old) (cd_watermarks db)"
      "cd_retired db' = max (cd_retired db) (wm_SentAtUs old)" "cd_health db' = cd_health db"
      "td_rows (cd_traffic db') = td_rows (cd_traffic db)"
proof (cases "int (length (cd_watermarks db)) \<le> MaxSensorWatermarks")
  case True
  have "db' = db" using assms True unfolding retire_oldest_def if_P [OF True] by blast
  then show ?thesis using kept True by blast
next
  case False
  define old where "old = oldest_watermark (cd_watermarks db)"
  have mem: "old \<in> set (cd_watermarks db)"
    unfolding old_def using False by (intro oldest_watermark_in) (auto simp: MaxSensorWatermarks_def)
  have ins: "insertSensorGap ''sensor_watermark_retired'' now now 0 now
      (db\<lparr>cd_retired := max (cd_retired db) (wm_SentAtUs old),
          cd_watermarks := filter (\<lambda>w. feed_of w \<noteq> feed_of old) (cd_watermarks db)\<rparr>) = Inr db'"
    using assms False unfolding retire_oldest_def old_def [symmetric] Let_def same_feed_of by (simp add: attempt_Inr)
  note frame = insertSensorGap_frame [OF ins]
  show ?thesis
  proof (rule retired [OF mem])
    show "MaxSensorWatermarks < int (length (cd_watermarks db))" using False by simp
  qed (use frame in simp_all)
qed

section \<open>Every row stays readable\<close>

lemma year_in_range_floor:
  assumes "year_in_range t"
  shows "year_in_range (unix_us t * 1000)" "year_in_range (unix_ms t * 1000000)"
  using assms by (auto simp: year_in_range_def unix_us_def unix_ms_def)

lemma new_watermark_decodes:
  assumes "commit_checks b0 events notifications whole reason = Inr b" "year_in_range now"
    and "Delta (CollectorHealth b) (health_before w) = Inr delta"
  shows "decodeSensorHealth (new_watermark w b now events notifications whole reason)"
proof -
  have "\<not> isl (Delta (CollectorHealth b) no_health)"
    using assms(3) by (auto simp: Delta_def no_health_def health_counters_def health_limits_def split: if_splits)
  then show ?thesis
    using commit_checks_Inr [OF assms(1)] year_in_range_floor assms(2)
    by (simp add: decodeSensorHealth_def new_watermark_def Let_def)
qed

lemma decode_row_state: "decodeSensorHealth (row_state w) = decodeSensorHealth w"
  by (simp add: decodeSensorHealth_def row_state_def)

lemma put_watermark_decodes:
  assumes "list_all decodeSensorHealth ws" "decodeSensorHealth w"
  shows "list_all decodeSensorHealth (put_watermark w ws)"
proof -
  have "decodeSensorHealth (w\<lparr>wm_Duplicates := k\<rparr>)" for k
    using assms(2) decode_row_state [of "w\<lparr>wm_Duplicates := k\<rparr>"] decode_row_state [of w] by (simp add: row_state_def)
  then show ?thesis using assms by (auto simp: put_watermark_cases list_all_iff)
qed

lemma count_duplicate_inv:
  "map feed_of (count_duplicate s i ws) = map feed_of ws"
  "list_all decodeSensorHealth (count_duplicate s i ws) = list_all decodeSensorHealth ws"
  "length (count_duplicate s i ws) = length ws"
  by (induction ws) (auto simp: count_duplicate_def feed_of_def decodeSensorHealth_def)

lemma commit_keeps_inv:
  assumes inv: "commit_inv db" and clock: "year_in_range now"
    and c: "CommitSensorBatch fault now b0 traffic events notifications whole reason db = (ack, err, db')"
  shows "commit_inv db'"
  using c
proof (cases rule: commit_cases)
  case (failed e)
  then show ?thesis using inv by simp
next
  case (duplicate b w)
  then show ?thesis using inv count_duplicate_inv [of "bt_SessionID b" "bt_Interface b" "cd_watermarks db"]
    by (simp add: commit_inv_def)
next
  case (accounted b w w')
  obtain delta db1 where d: "Delta (CollectorHealth b) (health_before w) = Inr delta"
    and w': "w' = new_watermark w b now events notifications whole reason"
    and ws: "cd_watermarks db1 = put_watermark w' (cd_watermarks db)" and ret: "retire_oldest fault now db1 = Inr db'"
    using accounted(6) by (rule account_batch_steps)
  have dec: "list_all decodeSensorHealth (cd_watermarks db1)"
    unfolding ws using inv new_watermark_decodes [OF accounted(1) clock d] w'
    by (intro put_watermark_decodes) (simp_all add: commit_inv_def)
  have dist: "distinct (map feed_of (cd_watermarks db1))"
    unfolding ws put_watermark_feeds using inv by (auto simp: commit_inv_def)
  have len: "length (cd_watermarks db1) \<le> Suc (length (cd_watermarks db))"
    unfolding ws using put_watermark_feeds [of w' "cd_watermarks db"] by (simp add: put_watermark_cases)
  from ret show ?thesis
  proof (cases rule: retire_oldest_effect)
    case kept
    then show ?thesis using dec dist by (simp add: commit_inv_def)
  next
    case (retired old)
    have "length (filter (\<lambda>w. feed_of w \<noteq> feed_of old) (cd_watermarks db1)) < length (cd_watermarks db1)"
      using retired(1) by (intro length_filter_less) auto
    then show ?thesis
      using dec dist len inv retired(3) by (auto simp: commit_inv_def list_all_iff intro: distinct_map_filter)
  qed
qed

section \<open>A batch is accounted at most once\<close>

text \<open>The feed has gone past the batch: its row is newer, or it was retired with a newer row.\<close>

definition spent :: "batch \<Rightarrow> commit_db \<Rightarrow> bool" where
  "spent b db \<longleftrightarrow> (case feed_row (batch_feed b) db of
     None \<Rightarrow> unix_us (bt_SentAt b) \<le> cd_retired db
   | Some w \<Rightarrow> unix_us (bt_SentAt b) \<le> wm_SentAtUs w)"

lemma previous_end_ge:
  assumes "w \<in> set ws" "wm_Interface w = name"
  shows "wm_SentAtUs w \<le> previous_end name ws"
proof -
  have mono: "m \<le> fold (\<lambda>w m. max m (wm_SentAtUs w)) rs m \<and>
      (\<forall>w\<in>set rs. wm_SentAtUs w \<le> fold (\<lambda>w m. max m (wm_SentAtUs w)) rs m)" for rs m
  proof (induction rs arbitrary: m)
    case (Cons r rs)
    show ?case using Cons.IH [of "max m (wm_SentAtUs r)"] by auto
  qed simp
  have "w \<in> set (filter (\<lambda>w. wm_Interface w = name) ws)" using assms by simp
  then show ?thesis using mono unfolding previous_end_def
    by (cases "filter (\<lambda>w. wm_Interface w = name) ws") auto
qed

lemma spent_refused:
  assumes "spent b db" "feed_row (batch_feed b) db = w"
  shows "nonmonotonic w b db"
proof (cases w)
  case (Some v)
  then have v: "v \<in> set (cd_watermarks db)" "wm_Interface v = bt_Interface b"
    using feed_row_Some [of "batch_feed b" db v] assms(2) by (auto simp: feed_of_def batch_feed_def)
  show ?thesis using assms previous_end_ge [OF v] Some by (auto simp: spent_def nonmonotonic_def)
qed (use assms in \<open>simp add: spent_def nonmonotonic_def\<close>)

lemma spent_retire:
  assumes "spent b db1" "retire_oldest fault now db1 = Inr db'"
    and "distinct (map feed_of (cd_watermarks db1))"
  shows "spent b db'"
  using assms(2)
proof (cases rule: retire_oldest_effect)
  case kept
  then show ?thesis using assms(1) by simp
next
  case (retired old)
  show ?thesis
  proof (cases "batch_feed b = feed_of old")
    case True
    have "feed_row (feed_of old) db1 = Some old"
    proof -
      obtain v where v: "feed_row (feed_of old) db1 = Some v"
        using retired(1) feed_row_None [of "feed_of old" db1] by fastforce
      then show ?thesis using feed_row_Some [OF v] retired(1) assms(3) by (auto simp: distinct_map dest: inj_onD)
    qed
    then show ?thesis
      using assms(1) True retired(3,4) by (simp add: spent_def feed_row_in row_in_filter)
  next
    case False
    then show ?thesis
      using assms(1) retired(3,4) by (auto simp: spent_def feed_row_in row_in_filter split: option.splits)
  qed
qed

lemma sent_put:
  "map_option wm_SentAtUs (row_in f (put_watermark w ws)) =
     (if f = feed_of w then Some (wm_SentAtUs w) else map_option wm_SentAtUs (row_in f ws))"
proof -
  have eq: "map_option wm_SentAtUs (map_option row_state x) = map_option wm_SentAtUs x" for x
    by (cases x) (simp_all add: row_state_def)
  show ?thesis
    using arg_cong [OF row_in_put, of "map_option wm_SentAtUs" f w ws] unfolding eq
    by (cases "f = feed_of w") (simp_all add: eq row_state_def)
qed

lemma spent_iff:
  "spent b db \<longleftrightarrow> unix_us (bt_SentAt b) \<le>
     (case map_option wm_SentAtUs (row_in (batch_feed b) (cd_watermarks db)) of None \<Rightarrow> cd_retired db | Some t \<Rightarrow> t)"
  by (simp add: spent_def feed_row_in split: option.split)

lemma spent_cong:
  assumes "map_option wm_SentAtUs (row_in (batch_feed b) (cd_watermarks db')) =
      map_option wm_SentAtUs (row_in (batch_feed b) (cd_watermarks db))" and "cd_retired db' = cd_retired db"
  shows "spent b db' = spent b db"
  by (simp only: spent_iff assms)

lemma spent_same:
  assumes "batch_feed b = batch_feed c" "bt_SentAt b = bt_SentAt c"
  shows "spent b db = spent c db"
  by (simp only: spent_def assms)

lemma count_duplicate_sent:
  "map_option wm_SentAtUs (row_in f (count_duplicate s i ws)) = map_option wm_SentAtUs (row_in f ws)"
  unfolding count_duplicate_def
  by (subst row_in_map) (auto simp: feed_of_def option.map_comp comp_def intro!: option.map_cong0)

lemma new_watermark_fields [simp]:
  "feed_of (new_watermark w b now e n c r) = batch_feed b" "wm_SentAtUs (new_watermark w b now e n c r) = unix_us (bt_SentAt b)"
  "wm_Sequence (new_watermark w b now e n c r) = bt_Sequence b" "wm_Health (new_watermark w b now e n c r) = CollectorHealth b"
  by (simp_all add: new_watermark_def Let_def feed_of_def batch_feed_def)

lemma account_spends:
  assumes inv: "commit_inv db" and acc: "account_batch fault now w c traffic events notifications whole reason db = Inr (w', db')"
    and row: "feed_row (batch_feed c) db = w" "\<not> nonmonotonic w c db"
  shows "spent c db'" and "spent b db \<Longrightarrow> spent b db'"
proof -
  obtain db1 where w': "w' = new_watermark w c now events notifications whole reason"
    and ws: "cd_watermarks db1 = put_watermark w' (cd_watermarks db)" "cd_retired db1 = cd_retired db"
    and ret: "retire_oldest fault now db1 = Inr db'"
    using acc by (rule account_batch_steps)
  have dist: "distinct (map feed_of (cd_watermarks db1))"
    unfolding ws put_watermark_feeds using inv by (auto simp: commit_inv_def)
  have "spent c db1" by (simp add: spent_iff ws sent_put w')
  then show "spent c db'" by (rule spent_retire [OF _ ret dist])
  assume b: "spent b db"
  have "spent b db1"
  proof (cases "batch_feed b = batch_feed c")
    case True
    have "unix_us (bt_SentAt b) \<le> unix_us (bt_SentAt c)"
    proof (cases w)
      case None
      then show ?thesis using b row True by (simp add: spent_def nonmonotonic_def)
    next
      case (Some v)
      then have v: "v \<in> set (cd_watermarks db)" "wm_Interface v = bt_Interface c"
        using feed_row_Some [of "batch_feed c" db v] row(1) by (auto simp: feed_of_def batch_feed_def)
      show ?thesis using b row True Some previous_end_ge [OF v] by (simp add: spent_def nonmonotonic_def)
    qed
    then show ?thesis using True by (simp add: spent_iff ws sent_put w')
  next
    case False
    then have "spent b db1 = spent b db" by (intro spent_cong) (simp_all add: ws sent_put w')
    then show ?thesis using b by simp
  qed
  then show "spent b db'" by (rule spent_retire [OF _ ret dist])
qed

lemma spent_commit:
  assumes "commit_inv db" "spent b db"
    and c: "CommitSensorBatch fault now c0 traffic events notifications whole reason db = (ack, err, db')"
  shows "spent b db'"
  using c
proof (cases rule: commit_cases)
  case (failed e)
  then show ?thesis using assms(2) by simp
next
  case (duplicate c w)
  have "spent b db' = spent b db" by (rule spent_cong) (simp_all add: duplicate count_duplicate_sent)
  then show ?thesis using assms(2) by simp
next
  case (accounted c w w')
  then show ?thesis using account_spends(2) [OF assms(1) accounted(6)] assms(2) by blast
qed

inductive commit_run :: "commit_db \<Rightarrow> commit_db \<Rightarrow> bool" for db where
  start: "commit_run db db"
| commit: "commit_run db db1 \<Longrightarrow> year_in_range now \<Longrightarrow>
    CommitSensorBatch fault now b traffic events notifications whole reason db1 = (ack, err, db2) \<Longrightarrow> commit_run db db2"

lemma commit_run_keeps:
  "commit_run db db' \<Longrightarrow> commit_inv db \<Longrightarrow> commit_inv db' \<and> (spent b db \<longrightarrow> spent b db')"
proof (induction rule: commit_run.induct)
  case (commit db1 now fault c traffic events notifications whole reason ack err db2)
  then show ?case using commit_keeps_inv [OF _ commit(2,3)] spent_commit [OF _ _ commit(3)] by blast
qed simp

definition empty_commit_db :: commit_db where
  "empty_commit_db = \<lparr>cd_watermarks = [], cd_retired = 0, cd_gaps = [], cd_health = [], cd_traffic = empty_traffic_db\<rparr>"

lemma empty_commit_inv: "commit_inv empty_commit_db"
  by (simp add: commit_inv_def empty_commit_db_def MaxSensorWatermarks_def)

text \<open>C1: a batch is accounted at most once. Once it was committed, whatever is committed after it, however
  often it is sent again and even when its session was retired meanwhile, its health counters and its
  traffic are not added a second time.\<close>

theorem commit_at_most_once:
  assumes "commit_run empty_commit_db db" and "year_in_range now"
    and first: "CommitSensorBatch fault now b traffic events notifications whole reason db = (ack, None, db1)"
    and new: "\<not> ak_Duplicate ack"
    and later: "commit_run db1 db2"
    and again: "CommitSensorBatch fault' now' b' traffic' events' notifications' whole' reason' db2 = (ack', err', db3)"
    and same: "batch_feed b' = batch_feed b" "bt_SentAt b' = bt_SentAt b"
  shows "td_rows (cd_traffic db3) = td_rows (cd_traffic db2) \<and> cd_health db3 = cd_health db2"
proof -
  have inv: "commit_inv db" using commit_run_keeps [OF assms(1) empty_commit_inv] by blast
  have "spent b db1"
    using first
  proof (cases rule: commit_cases)
    case (duplicate c w)
    then show ?thesis using new by (auto simp: sensorACK_def Let_def split: if_splits)
  next
    case (accounted c w w')
    have "spent c db1" by (rule account_spends(1) [OF inv accounted(6) accounted(2,5)])
    moreover have "spent c db1 = spent b db1" by (rule spent_same) (use commit_checks_Inr [OF accounted(1)] in simp_all)
    ultimately show ?thesis by simp
  qed simp
  then have "spent b db2"
    using commit_run_keeps [OF later] commit_keeps_inv [OF inv assms(2) first] by blast
  then have spent: "spent b' db2" using spent_same [OF same] by simp
  from again show ?thesis
  proof (cases rule: commit_cases)
    case (accounted c w w')
    have "spent c db2 = spent b' db2" by (rule spent_same) (use commit_checks_Inr [OF accounted(1)] in simp_all)
    then have "spent c db2" using spent by simp
    then show ?thesis using spent_refused accounted(2,5) by blast
  qed auto
qed

definition sample_commit :: "uint64 \<Rightarrow> time \<Rightarrow> uint64 \<Rightarrow> batch" where
  "sample_commit n sent drops = sample_batch\<lparr>bt_SessionID := replicate 32 CHR ''a'', bt_Sequence := n, bt_SentAt := sent,
     bt_KernelDrops := drops\<rparr>"

definition sample_run :: "uint64 \<Rightarrow> time \<Rightarrow> uint64 \<Rightarrow> commit_db \<Rightarrow> commit_ack \<times> commit_error option \<times> commit_db" where
  "sample_run n sent drops = CommitSensorBatch None (2000 * second) (sample_commit n sent drops) [sample_traffic 100] True True True ''committed''"

definition sample_db1 :: commit_db where "sample_db1 = snd (snd (sample_run 1 (1000 * second) 3 empty_commit_db))"
definition sample_db2 :: commit_db where "sample_db2 = snd (snd (sample_run 3 (1010 * second) 5 sample_db1))"

lemma sample_runs:
  "sample_run 1 (1000 * second) 3 empty_commit_db = (fst (sample_run 1 (1000 * second) 3 empty_commit_db), None, sample_db1)"
  "sample_run 3 (1010 * second) 5 sample_db1 = (fst (sample_run 3 (1010 * second) 5 sample_db1), None, sample_db2)"
proof -
  have "fst (snd (sample_run 1 (1000 * second) 3 empty_commit_db)) = None" by code_simp
  then show "sample_run 1 (1000 * second) 3 empty_commit_db = (fst (sample_run 1 (1000 * second) 3 empty_commit_db), None, sample_db1)"
    by (simp add: sample_db1_def prod_eq_iff)
  have "fst (snd (sample_run 3 (1010 * second) 5 sample_db1)) = None" by code_simp
  then show "sample_run 3 (1010 * second) 5 sample_db1 = (fst (sample_run 3 (1010 * second) 5 sample_db1), None, sample_db2)"
    by (simp add: sample_db2_def prod_eq_iff)
qed

lemma sample_now: "year_in_range (2000 * second)" by code_simp

lemma sample_reachable: "commit_run empty_commit_db sample_db1" "commit_run sample_db1 sample_db2" "commit_run empty_commit_db sample_db2"
proof -
  show a: "commit_run empty_commit_db sample_db1"
    using commit_run.commit [OF commit_run.start sample_now sample_runs(1) [unfolded sample_run_def]] .
  show "commit_run sample_db1 sample_db2"
    using commit_run.commit [OF commit_run.start sample_now sample_runs(2) [unfolded sample_run_def]] .
  show "commit_run empty_commit_db sample_db2"
    using commit_run.commit [OF a sample_now sample_runs(2) [unfolded sample_run_def]] .
qed

theorem commit_at_most_once_witness:
  "td_rows (cd_traffic (snd (snd (sample_run 1 (1000 * second) 3 sample_db2)))) = td_rows (cd_traffic sample_db2) \<and>
   cd_health (snd (snd (sample_run 1 (1000 * second) 3 sample_db2))) = cd_health sample_db2"
proof -
  have new: "\<not> ak_Duplicate (fst (sample_run 1 (1000 * second) 3 empty_commit_db))" by code_simp
  define c where "c = sample_run 1 (1000 * second) 3 sample_db2"
  have c: "c = (fst c, fst (snd c), snd (snd c))" by simp
  show ?thesis
    using commit_at_most_once [OF commit_run.start sample_now sample_runs(1) [unfolded sample_run_def] new [unfolded sample_run_def]
        sample_reachable(2) c [unfolded c_def sample_run_def] refl refl]
    unfolding sample_run_def by simp
qed

section \<open>The health ledger\<close>

definition health_total :: "nat \<Rightarrow> commit_db \<Rightarrow> int" where
  "health_total i db = (\<Sum>r\<leftarrow>cd_health db. hr_counters (snd r) ! i)"

definition feeds_total :: "nat \<Rightarrow> commit_db \<Rightarrow> int" where
  "feeds_total i db = (\<Sum>w\<leftarrow>cd_watermarks db. uint ((health_counters ! i) (wm_Health w)))"

definition ledger_inv :: "commit_db \<Rightarrow> bool" where
  "ledger_inv db \<longleftrightarrow> commit_inv db \<and> (\<forall>w \<in> set (cd_watermarks db). 0 < wm_SentAtUs w) \<and> 0 \<le> cd_retired db \<and>
     (\<forall>r \<in> set (cd_health db). length (hr_counters (snd r)) = length health_counters) \<and>
     (cd_retired db = 0 \<longrightarrow> (\<forall>i < length health_counters. health_total i db = feeds_total i db))"

lemma sum_update:
  fixes f :: "'v \<Rightarrow> int"
  shows "(\<Sum>r\<leftarrow>AList.update k v m. f (snd r)) =
    (\<Sum>r\<leftarrow>m. f (snd r)) + f v - (case map_of m k of None \<Rightarrow> 0 | Some w \<Rightarrow> f w)"
  by (induction m) auto

lemma sum_replace:
  fixes f :: "watermark \<Rightarrow> int"
  assumes "distinct (map feed_of ws)" "row_in (feed_of w) ws = Some v" "\<And>u n. f (u\<lparr>wm_Duplicates := n\<rparr>) = f u"
  shows "(\<Sum>u\<leftarrow>map (\<lambda>v. if feed_of v = feed_of w then w\<lparr>wm_Duplicates := wm_Duplicates v\<rparr> else v) ws. f u) = (\<Sum>u\<leftarrow>ws. f u) - f v + f w"
  using assms(1,2)
proof (induction ws)
  case (Cons u us)
  show ?case
  proof (cases "feed_of u = feed_of w")
    case True
    then have "map (\<lambda>v. if feed_of v = feed_of w then w\<lparr>wm_Duplicates := wm_Duplicates v\<rparr> else v) us = us"
      using Cons.prems(1) by (intro map_idI) (auto simp: image_iff)
    then show ?thesis using True Cons.prems by (simp add: assms(3))
  qed (use Cons in auto)
qed simp

lemma sum_put:
  fixes f :: "watermark \<Rightarrow> int"
  assumes "distinct (map feed_of ws)" "\<And>u n. f (u\<lparr>wm_Duplicates := n\<rparr>) = f u"
  shows "(\<Sum>u\<leftarrow>put_watermark w ws. f u) = (\<Sum>u\<leftarrow>ws. f u) + f w - (case row_in (feed_of w) ws of None \<Rightarrow> 0 | Some v \<Rightarrow> f v)"
proof (cases "row_in (feed_of w) ws")
  case None
  then have "feed_of w \<notin> feed_of ` set ws" by (simp add: row_in_None)
  then show ?thesis using None by (simp add: put_watermark_cases)
next
  case (Some v)
  then have "feed_of w \<in> feed_of ` set ws" using row_in_None [of "feed_of w" ws] by simp
  then show ?thesis using sum_replace [OF assms(1) Some assms(2)] Some by (simp add: put_watermark_cases)
qed

lemma health_row_lengths:
  assumes "\<forall>r \<in> set (cd_health db). length (hr_counters (snd r)) = length health_counters"
  shows "\<forall>r \<in> set (cd_health (recordBatchHealth b db)). length (hr_counters (snd r)) = length health_counters"
proof
  fix r assume "r \<in> set (cd_health (recordBatchHealth b db))"
  then show "length (hr_counters (snd r)) = length health_counters"
    using assms by (auto simp: recordBatchHealth_def Let_def split: option.splits
      dest!: subsetD [OF set_update_subset] map_of_SomeD)
qed

lemma health_total_record:
  assumes "\<forall>r \<in> set (cd_health db). length (hr_counters (snd r)) = length health_counters" "i < length health_counters"
  shows "health_total i (recordBatchHealth b db) = health_total i db + uint ((health_counters ! i) (CollectorHealth b))"
proof -
  define h where "h = bt_SentAt b div hour * hour div second"
  show ?thesis
  proof (cases "map_of (cd_health db) h")
    case None
    then show ?thesis
      using assms(2) by (simp add: health_total_def recordBatchHealth_def Let_def sum_update [where f = "\<lambda>r. hr_counters r ! i"] flip: h_def)
  next
    case (Some r)
    then have "length (hr_counters r) = length health_counters" using assms(1) map_of_SomeD by fastforce
    then show ?thesis
      using Some assms(2) by (simp add: health_total_def recordBatchHealth_def Let_def sum_update [where f = "\<lambda>r. hr_counters r ! i"] flip: h_def)
  qed
qed

lemma zero_counter: "i < length health_counters \<Longrightarrow> (health_counters ! i) no_health = 0"
  using nth_mem [of i health_counters] by (auto simp: health_counters_def no_health_def)

lemma delta_uint:
  assumes "Delta now before = Inr d" "i < length health_counters"
  shows "uint ((health_counters ! i) d) = uint ((health_counters ! i) now) - uint ((health_counters ! i) before)"
  using Delta_Inr [OF assms(1) nth_mem [OF assms(2)]] by (simp add: uint_sub_if' word_le_def)

lemma positive_time:
  assumes "\<forall>w \<in> set (cd_watermarks db). 0 < wm_SentAtUs w" "0 \<le> cd_retired db" "feed_row (batch_feed b) db = w" "\<not> nonmonotonic w b db"
  shows "0 < unix_us (bt_SentAt b)"
proof (cases w)
  case None
  then show ?thesis using assms by (simp add: nonmonotonic_def)
next
  case (Some v)
  then have v: "v \<in> set (cd_watermarks db)" "wm_Interface v = bt_Interface b"
    using feed_row_Some [of "batch_feed b" db v] assms(3) by (auto simp: feed_of_def batch_feed_def)
  then show ?thesis using assms(1,4) previous_end_ge [OF v] by (force simp: nonmonotonic_def)
qed

lemma put_positive:
  assumes "\<forall>w \<in> set ws. 0 < wm_SentAtUs w" "0 < wm_SentAtUs w"
  shows "\<forall>w \<in> set (put_watermark w ws). 0 < wm_SentAtUs w"
  using assms by (auto simp: put_watermark_cases)

lemma account_ledger:
  assumes inv: "ledger_inv db" and after: "commit_inv db'"
    and acc: "account_batch fault now w b traffic events notifications whole reason db = Inr (w', db')"
    and row: "feed_row (batch_feed b) db = w" "\<not> nonmonotonic w b db"
  shows "ledger_inv db'"
proof -
  obtain delta db1 where delta: "Delta (CollectorHealth b) (health_before w) = Inr delta"
    and w': "w' = new_watermark w b now events notifications whole reason"
    and ws: "cd_watermarks db1 = put_watermark w' (cd_watermarks db)" "cd_retired db1 = cd_retired db"
    and health: "cd_health db1 = cd_health (recordBatchHealth (Apply delta b) db)"
    and ret: "retire_oldest fault now db1 = Inr db'"
    using acc by (rule account_batch_steps)
  have pos: "\<forall>w \<in> set (cd_watermarks db1). 0 < wm_SentAtUs w"
    unfolding ws by (rule put_positive) (use inv positive_time [OF _ _ row] in \<open>auto simp: ledger_inv_def w'\<close>)
  have rows: "\<forall>r \<in> set (cd_health db). length (hr_counters (snd r)) = length health_counters"
    using inv by (simp add: ledger_inv_def)
  have len: "\<forall>r \<in> set (cd_health db1). length (hr_counters (snd r)) = length health_counters"
    unfolding health by (rule health_row_lengths [OF rows])
  have total: "health_total i db1 = feeds_total i db1" if "cd_retired db = 0" "i < length health_counters" for i
  proof -
    let ?c = "\<lambda>w. uint ((health_counters ! i) (wm_Health w))"
    have "health_total i db1 = health_total i db + uint ((health_counters ! i) delta)"
      using health_total_record [OF rows that(2), of "Apply delta b"] by (simp add: health_total_def health)
    moreover have "feeds_total i db1 = feeds_total i db + uint ((health_counters ! i) (CollectorHealth b)) -
        (case row_in (batch_feed b) (cd_watermarks db) of None \<Rightarrow> 0 | Some v \<Rightarrow> ?c v)"
      unfolding feeds_total_def ws(1)
      by (subst sum_put) (use inv in \<open>simp_all add: ledger_inv_def commit_inv_def w'\<close>)
    moreover have "(case row_in (batch_feed b) (cd_watermarks db) of None \<Rightarrow> 0 | Some v \<Rightarrow> ?c v) = uint ((health_counters ! i) (health_before w))"
      using row(1) zero_counter [OF that(2)] by (auto simp: health_before_def feed_row_in split: option.splits)
    ultimately show ?thesis
      using inv that delta_uint [OF delta that(2)] by (simp add: ledger_inv_def)
  qed
  have start: "0 \<le> cd_retired db1" using inv ws by (simp add: ledger_inv_def)
  show ?thesis
    using ret
  proof (cases rule: retire_oldest_effect)
    case kept
    show ?thesis unfolding kept(2) ledger_inv_def
      using after pos start len total ws(2) kept(2) by simp
  next
    case (retired old)
    have "0 < cd_retired db'" unfolding retired(4) using pos retired(1) by fastforce
    then show ?thesis unfolding ledger_inv_def
      using after pos len retired(3,5) by auto
  qed
qed

lemma commit_ledger:
  assumes inv: "ledger_inv db" and "year_in_range now"
    and c: "CommitSensorBatch fault now b traffic events notifications whole reason db = (ack, err, db')"
  shows "ledger_inv db'"
proof -
  have after: "commit_inv db'" using commit_keeps_inv [OF _ assms(2) c] inv by (simp add: ledger_inv_def)
  from c show ?thesis
  proof (cases rule: commit_cases)
    case (failed e)
    then show ?thesis using inv by simp
  next
    case (duplicate c w)
    have "(\<Sum>w\<leftarrow>count_duplicate s n ws. uint ((health_counters ! i) (wm_Health w))) = (\<Sum>w\<leftarrow>ws. uint ((health_counters ! i) (wm_Health w)))" for s n i ws
      by (induction ws) (simp_all add: count_duplicate_def)
    then show ?thesis
      using inv after unfolding ledger_inv_def duplicate(7)
      by (auto simp: health_total_def feeds_total_def count_duplicate_def)
  next
    case (accounted c w w')
    show ?thesis by (rule account_ledger [OF inv after accounted(6,2,5)])
  qed
qed

lemma commit_run_ledger: "commit_run db db' \<Longrightarrow> ledger_inv db \<Longrightarrow> ledger_inv db'"
  by (induction rule: commit_run.induct) (use commit_ledger in blast)+

lemma empty_ledger: "ledger_inv empty_commit_db"
  by (simp add: ledger_inv_def empty_commit_inv) (simp add: empty_commit_db_def health_total_def feeds_total_def)



text \<open>C29: a commit is all or nothing. An error leaves every table as it was and is answered with neither
  traffic nor the batch as a whole committed; the table of watermarks never exceeds its limit and
  keeps only rows that can be read back.\<close>

theorem commit_atomic:
  assumes "commit_run empty_commit_db db" "year_in_range now"
    and "CommitSensorBatch fault now b traffic events notifications whole reason db = (ack, err, db')"
  shows "(err \<noteq> None \<longrightarrow> db' = db \<and> \<not> ak_Complete ack \<and> \<not> ak_TrafficCommitted ack) \<and>
    (err = None \<longrightarrow> ak_TrafficCommitted ack) \<and>
    int (length (cd_watermarks db')) \<le> MaxSensorWatermarks \<and> list_all decodeSensorHealth (cd_watermarks db')"
proof -
  have inv: "commit_inv db" using commit_run_keeps [OF assms(1) empty_commit_inv] by blast
  have "int (length (cd_watermarks db')) \<le> MaxSensorWatermarks \<and> list_all decodeSensorHealth (cd_watermarks db')"
    using commit_keeps_inv [OF inv assms(2,3)] by (simp add: commit_inv_def)
  moreover have "(err \<noteq> None \<longrightarrow> db' = db \<and> \<not> ak_Complete ack \<and> \<not> ak_TrafficCommitted ack) \<and> (err = None \<longrightarrow> ak_TrafficCommitted ack)"
    using assms(3) by (cases rule: commit_cases) (auto simp: sensorACK_def Let_def)
  ultimately show ?thesis by blast
qed

theorem commit_atomic_witness:
  "ak_TrafficCommitted (fst (sample_run 3 (1010 * second) 5 sample_db1)) \<and> int (length (cd_watermarks sample_db2)) \<le> MaxSensorWatermarks"
  using commit_atomic [OF sample_reachable(1) sample_now sample_runs(2) [unfolded sample_run_def]] by (simp add: sample_run_def)

end
