(* ===== verification/Outbox.thy ===== *)
theory Outbox
  imports Traffic
begin

text \<open>
  The notification outbox of \<open>internal/store\<close>: admission (\<open>store.go\<close>), claims (\<open>alerts.go\<close>), delivery
  outcomes and expiry (\<open>queue.go\<close>), receivers (\<open>notification_targets.go\<close>). Tables are lists of rows; an
  UPDATE maps the rows its WHERE clause selects, a DELETE takes the intents of the deleted rows
  along (\<open>ON DELETE CASCADE\<close>). Columns are integers, timestamps are in milliseconds.

  Every operation is one transaction. \<open>fault\<close> says that a statement, the transaction itself or the
  admission by the storage budget fails: the operation then returns an error and changes nothing.
\<close>

section \<open>Tables\<close>

record outbox_row =
  ob_id :: string
  ob_dedupe :: string
  ob_channel :: string
  ob_destination :: string
  ob_body :: string
  ob_attempts :: int
  ob_next_attempt :: int
  ob_created :: int
  ob_expires :: int
  ob_sent :: "int option"
  ob_quarantined :: "int option"
  ob_isolated :: "int option"
  ob_suppressed :: "int option"
  ob_lease :: "int option"
  ob_last_error :: string
  ob_language :: string
  ob_timezone :: string
  ob_incident :: string
  ob_event_kind :: string
  ob_event_phase :: string
  ob_merged_count :: int
  ob_merge_until :: int

datatype dispatch_state = Prepared | InFlight | RetryReady | Accepted | DeliveryUnknown | Blocked

record dispatch_row =
  dp_id :: string
  dp_kind :: string
  dp_payload :: string
  dp_segments :: int
  dp_encoding :: string
  dp_state :: dispatch_state
  dp_retry_key :: string
  dp_first :: int
  dp_last :: int
  dp_uncertain :: bool
  dp_attempt :: int
  dp_provider_id :: string
  dp_accepted_at :: int
  dp_budget_day :: int
  dp_provider_state :: string
  dp_platform_segments :: "int option"
  dp_price :: "string option"
  dp_price_unit :: string
  dp_poll_attempts :: int
  dp_next_poll :: int
  dp_poll_deadline :: int
  dp_poll_lease :: int
  dp_reason :: string
  dp_http_status :: int
  dp_api_error :: int

record target_row =
  tg_channel :: string
  tg_destination :: string
  tg_privacy :: string
  tg_enabled :: bool
  tg_activated :: int

record policy_row =
  po_enabled :: bool
  po_consented :: int
  po_purpose :: string
  po_evidence :: string
  po_basis :: string
  po_types :: "string list"
  po_revoked :: bool
  po_cost :: bool
  po_messages :: int
  po_segments :: int
  po_max_segments :: int
  po_optout :: int
  po_optout_basis :: string
  po_restore_hold :: bool
  po_reference :: string
  po_clock :: int
  po_day :: int
  po_pruned_days :: int

record usage_row =
  us_channel :: string
  us_day :: int
  us_messages :: int
  us_segments :: int

record outbox_db =
  od_rows :: "outbox_row list"
  od_dispatch :: "dispatch_row list"
  od_targets :: "target_row list"
  od_cooldowns :: "(string \<times> int) list"
  od_policies :: "(string \<times> policy_row) list"
  od_usage :: "usage_row list"
  od_rejected :: int
  od_expired :: int
  od_last_sent :: int
  od_retention :: retention_db

definition update_rows :: "(outbox_row \<Rightarrow> bool) \<Rightarrow> (outbox_row \<Rightarrow> outbox_row) \<Rightarrow> outbox_db \<Rightarrow> outbox_db" where
  "update_rows P f db = db\<lparr>od_rows := map (\<lambda>r. if P r then f r else r) (od_rows db)\<rparr>"

definition update_dispatch :: "(dispatch_row \<Rightarrow> bool) \<Rightarrow> (dispatch_row \<Rightarrow> dispatch_row) \<Rightarrow> outbox_db \<Rightarrow> outbox_db" where
  "update_dispatch P f db = db\<lparr>od_dispatch := map (\<lambda>d. if P d then f d else d) (od_dispatch db)\<rparr>"

definition delete_rows :: "(outbox_row \<Rightarrow> bool) \<Rightarrow> outbox_db \<Rightarrow> outbox_db" where
  "delete_rows P db = db\<lparr>od_rows := filter (\<lambda>r. \<not> P r) (od_rows db),
     od_dispatch := filter (\<lambda>d. \<not> list_ex (\<lambda>r. ob_id r = dp_id d \<and> P r) (od_rows db)) (od_dispatch db)\<rparr>"

definition row_of :: "string \<Rightarrow> outbox_db \<Rightarrow> outbox_row option" where
  "row_of i db = find (\<lambda>r. ob_id r = i) (od_rows db)"

definition dispatch_of :: "string \<Rightarrow> outbox_db \<Rightarrow> dispatch_row option" where
  "dispatch_of i db = find (\<lambda>d. dp_id d = i) (od_dispatch db)"

definition count_rows :: "(outbox_row \<Rightarrow> bool) \<Rightarrow> outbox_db \<Rightarrow> int" where
  "count_rows P db = int (length (filter P (od_rows db)))"

section \<open>Errors and transactions\<close>

datatype outbox_error =
    StoreFailure | RequestInvalid | PresentationInvalid | MessagePaired | MessageIncomplete | TargetInvalid
  | OfficialInvalid | MessageTooLong | NotificationAbsent | OfficialReceiptRequired | TargetMismatch
  | ResolutionMismatch | ReceiptInvalid | ReconciliationRefused | OutboxRetention retention_error

definition transact :: "bool \<Rightarrow> outbox_error + 'a \<times> outbox_db \<Rightarrow> outbox_db \<Rightarrow> (outbox_error + 'a) \<times> outbox_db" where
  "transact fault r db = (if fault then (Inl StoreFailure, db)
     else case r of Inl e \<Rightarrow> (Inl e, db) | Inr (x, db') \<Rightarrow> (Inr x, db'))"

section \<open>Checks on requests\<close>

definition id_char :: "char \<Rightarrow> bool" where
  "id_char c \<longleftrightarrow> char_in CHR ''a'' CHR ''z'' c \<or> char_in CHR ''A'' CHR ''Z'' c \<or> char_in CHR ''0'' CHR ''9'' c \<or>
     c \<in> set ''_-:.''"

definition ValidID :: "string \<Rightarrow> bool" where
  "ValidID v \<longleftrightarrow> 1 \<le> length v \<and> length v \<le> 128 \<and> list_all id_char v"

definition hex_char :: "char \<Rightarrow> bool" where
  "hex_char c \<longleftrightarrow> char_in CHR ''a'' CHR ''f'' c \<or> char_in CHR ''A'' CHR ''F'' c \<or> char_in CHR ''0'' CHR ''9'' c"

text \<open>\<open>hex.DecodeString\<close> succeeds on an even number of hexadecimal digits.\<close>

definition hex_decodes :: "string \<Rightarrow> bool" where
  "hex_decodes s \<longleftrightarrow> even (length s) \<and> list_all hex_char s"

definition validNotificationTarget :: "string \<Rightarrow> string \<Rightarrow> bool" where
  "validNotificationTarget channel destination \<longleftrightarrow> destination = channel @ '':unknown'' \<or>
     length destination = length channel + 1 + 64 \<and> has_prefix destination (channel @ '':'') \<and>
     hex_decodes (drop (length channel + 1) destination)"

definition MaxNotificationChannels :: int where "MaxNotificationChannels = 12"

definition notificationChannels :: "string list" where
  "notificationChannels = [''telegram'', ''webhook'', ''feishu'', ''wecom'', ''discord'', ''slack'', ''teams'',
     ''google_chat'', ''qqbot'', ''line'', ''twilio_sms'', ''whatsapp_cloud'']"

definition notificationChannel :: "string \<Rightarrow> bool" where
  "notificationChannel channel \<longleftrightarrow> channel \<in> set notificationChannels"

definition paidOfficialChannel :: "string \<Rightarrow> bool" where
  "paidOfficialChannel channel \<longleftrightarrow> channel = ''twilio_sms'' \<or> channel = ''whatsapp_cloud''"

definition officialChannel :: "string \<Rightarrow> bool" where
  "officialChannel channel \<longleftrightarrow> channel = ''qqbot'' \<or> channel = ''line'' \<or> paidOfficialChannel channel"

section \<open>Messages\<close>

record outbox_message =
  ms_paired :: bool
  ms_ID :: string
  ms_DedupeKey :: string
  ms_Channel :: string
  ms_PrivacyMode :: string
  ms_Language :: string
  ms_Timezone :: string
  ms_Destination :: string
  ms_Body :: string
  ms_NextAttempt :: time
  ms_LogicalKind :: string
  ms_AdmissionFailure :: string
  ms_FrozenPayload :: string
  ms_EstimatedSegments :: int
  ms_Encoding :: string

definition normalizePresentation :: "outbox_message \<Rightarrow> outbox_message option" where
  "normalizePresentation m =
     (let language = (if ms_Language m = [] then ''en'' else ms_Language m) in
      if language \<noteq> ''en'' \<and> language \<noteq> ''zh'' \<or> ms_Channel m = ''webhook'' \<and> language \<noteq> ''en'' then None
      else if 256 < length (ms_Timezone m) \<or> \<not> ValidString (ms_Timezone m) \<or> list_ex control_char (ms_Timezone m) then None
      else Some (m\<lparr>ms_Language := language\<rparr>))"

definition mergeablePresentation :: "outbox_message \<Rightarrow> bool" where
  "mergeablePresentation m \<longleftrightarrow> ms_Timezone m \<noteq> [] \<and> ms_Timezone m \<noteq> ''Local'' \<and> \<not> has_prefix (ms_Timezone m) ''Local|''"

text \<open>The value of a JSON text; the decoder of \<open>encoding/json\<close> is the argument \<open>unmarshal\<close>.\<close>

datatype json = JNull | JBool bool | JNumber string | JString string | JArray "json list" | JObject "(string \<times> json) list"

text \<open>
  \<open>strings.ToLower\<close> as far as the comparison with ASCII names sees it: besides the ASCII letters
  only the Kelvin sign (to k) and the dotted capital I (to i) become ASCII letters.
\<close>

definition lower_char :: "char \<Rightarrow> char" where
  "lower_char c = (if char_in CHR ''A'' CHR ''Z'' c then char_of (of_char c + 32 :: nat) else c)"

fun lower :: "string \<Rightarrow> string" where
  "lower [] = []"
| "lower (a # b # c # s) =
    (if [a, b, c] = [CHR 0xE2, CHR 0x84, CHR 0xAA] then CHR ''k'' # lower s
     else if [a, b] = [CHR 0xC4, CHR 0xB0] then CHR ''i'' # lower (c # s) else lower_char a # lower (b # c # s))"
| "lower (a # b # s) = (if [a, b] = [CHR 0xC4, CHR 0xB0] then CHR ''i'' # lower s else lower_char a # lower (b # s))"
| "lower (a # s) = lower_char a # lower s"

definition unsafe_key :: "string \<Rightarrow> bool" where
  "unsafe_key k \<longleftrightarrow> lower (filter (\<lambda>c. c \<notin> set ''_-'') k) \<in> set [''recipient'', ''to'', ''token'', ''accesstoken'',
     ''secret'', ''authorization'', ''credential'', ''url'', ''webhookurl'', ''accountsid'', ''authtoken'', ''phonenumberid'']"

text \<open>\<open>inspect\<close> with the levels that are left: a value below depth 12 is refused.\<close>

primrec inspect :: "nat \<Rightarrow> json \<Rightarrow> bool" where
  "inspect 0 v = False"
| "inspect (Suc n) v = (case v of
     JObject members \<Rightarrow> list_all (\<lambda>(k, w). \<not> unsafe_key k \<and> inspect n w) members
   | JArray items \<Rightarrow> length items \<le> 64 \<and> list_all (inspect n) items
   | JString s \<Rightarrow> \<not> list_ex (\<lambda>c. c = CHR 0x00 \<or> c = CHR 0x1B) s
   | _ \<Rightarrow> True)"

definition validateOfficialMessage :: "(string \<Rightarrow> json option) \<Rightarrow> outbox_message \<Rightarrow> bool" where
  "validateOfficialMessage unmarshal m =
     (if \<not> officialChannel (ms_Channel m) then
        ms_FrozenPayload m = [] \<and> ms_LogicalKind m = [] \<and> ms_EstimatedSegments m = 0 \<and> ms_Encoding m = []
      else if ms_LogicalKind m \<noteq> ''event'' \<and> ms_LogicalKind m \<noteq> ''daily'' \<and> ms_LogicalKind m \<noteq> ''test'' then False
      else if ms_AdmissionFailure m \<noteq> [] then
        ms_AdmissionFailure m = ''official_render_rejected'' \<and> ms_FrozenPayload m = [] \<and> ms_EstimatedSegments m = 0 \<and> ms_Encoding m = []
      else if length (ms_FrozenPayload m) = 0 \<or> 4096 < length (ms_FrozenPayload m) \<or> \<not> ValidString (ms_FrozenPayload m) then False
      else case unmarshal (ms_FrozenPayload m) of
        Some (JObject members) \<Rightarrow> inspect 13 (JObject members) \<and>
          (if ms_Channel m = ''twilio_sms''
           then 1 \<le> ms_EstimatedSegments m \<and> ms_EstimatedSegments m \<le> 2 \<and> (ms_Encoding m = ''gsm7'' \<or> ms_Encoding m = ''ucs2'')
           else ms_EstimatedSegments m = 0 \<and> ms_Encoding m = [])
      | _ \<Rightarrow> False)"

section \<open>Admission\<close>

definition maxPendingOutboxMessages :: int where "maxPendingOutboxMessages = 10000"
definition maxPendingOutboxBytes :: int where "maxPendingOutboxBytes = 32 * 1048576"
definition maxChannelOutboxMessages :: int where "maxChannelOutboxMessages = 1250"
definition maxChannelOutboxBytes :: int where "maxChannelOutboxBytes = 4 * 1048576"
definition maxOfficialChannelMessages :: int where "maxOfficialChannelMessages = 750"
definition maxOfficialChannelBytes :: int where "maxOfficialChannelBytes = 2 * 1048576"
definition channelReservedMessages :: int where "channelReservedMessages = 64"
definition channelReservedBytes :: int where "channelReservedBytes = 256 * 1024"
definition MaxDeliveryAttempts :: int where "MaxDeliveryAttempts = 10"
definition OutboxTTL :: duration where "OutboxTTL = 7 * 24 * hour"

definition channelOutboxLimits :: "string \<Rightarrow> int \<times> int" where
  "channelOutboxLimits channel =
     (if officialChannel channel then (maxOfficialChannelMessages, maxOfficialChannelBytes)
      else (maxChannelOutboxMessages, maxChannelOutboxBytes))"

text \<open>The rows that count against the capacity, and the bytes of one of them.\<close>

definition holds_capacity :: "outbox_row \<Rightarrow> bool" where
  "holds_capacity r \<longleftrightarrow> ob_sent r = None \<and> ob_suppressed r = None"

definition row_bytes :: "outbox_db \<Rightarrow> outbox_row \<Rightarrow> int" where
  "row_bytes db r = int (length (ob_body r)) +
     (if officialChannel (ob_channel r)
      then (case dispatch_of (ob_id r) db of None \<Rightarrow> 0 | Some d \<Rightarrow> int (length (dp_payload d))) else 0)"

definition used_count :: "(string \<Rightarrow> bool) \<Rightarrow> outbox_db \<Rightarrow> int" where
  "used_count C db = int (length (filter (\<lambda>r. holds_capacity r \<and> C (ob_channel r)) (od_rows db)))"

definition used_bytes :: "(string \<Rightarrow> bool) \<Rightarrow> outbox_db \<Rightarrow> int" where
  "used_bytes C db = sum_list (map (row_bytes db) (filter (\<lambda>r. holds_capacity r \<and> C (ob_channel r)) (od_rows db)))"

record admission_usage =
  ag_count :: int
  ag_bytes :: int
  ag_channelCount :: int
  ag_channelBytes :: int
  ag_reservedCount :: int
  ag_reservedBytes :: int

definition reserving :: "string \<Rightarrow> outbox_db \<Rightarrow> target_row list" where
  "reserving channel db = filter (\<lambda>t. tg_enabled t \<and> tg_channel t \<noteq> channel \<and> notificationChannel (tg_channel t)) (od_targets db)"

definition outboxAdmissionUsage :: "string \<Rightarrow> outbox_db \<Rightarrow> admission_usage" where
  "outboxAdmissionUsage channel db = \<lparr>
     ag_count = used_count (\<lambda>_. True) db, ag_bytes = used_bytes (\<lambda>_. True) db,
     ag_channelCount = used_count (\<lambda>c. c = channel) db, ag_channelBytes = used_bytes (\<lambda>c. c = channel) db,
     ag_reservedCount = (\<Sum>t\<leftarrow>reserving channel db. max 0 (channelReservedMessages - used_count (\<lambda>c. c = tg_channel t) db)),
     ag_reservedBytes = (\<Sum>t\<leftarrow>reserving channel db. max 0 (channelReservedBytes - used_bytes (\<lambda>c. c = tg_channel t) db))\<rparr>"

definition notificationTargetMatches :: "outbox_message \<Rightarrow> outbox_db \<Rightarrow> bool" where
  "notificationTargetMatches m db \<longleftrightarrow> ms_Channel m = [] \<or>
     list_ex (\<lambda>t. tg_channel t = ms_Channel m \<and> tg_destination t = ms_Destination m \<and> tg_privacy t = ms_PrivacyMode m \<and>
       tg_destination t \<noteq> ms_Channel m @ '':unknown'') (od_targets db)"

definition new_intent :: "string \<Rightarrow> outbox_message \<Rightarrow> dispatch_row" where
  "new_intent key m = \<lparr>dp_id = ms_ID m, dp_kind = ms_LogicalKind m, dp_payload = ms_FrozenPayload m,
     dp_segments = ms_EstimatedSegments m, dp_encoding = ms_Encoding m,
     dp_state = (if ms_AdmissionFailure m \<noteq> [] then Blocked else Prepared), dp_retry_key = key, dp_first = 0, dp_last = 0,
     dp_uncertain = False, dp_attempt = 0, dp_provider_id = [], dp_accepted_at = 0, dp_budget_day = - 1,
     dp_provider_state = [], dp_platform_segments = None, dp_price = None, dp_price_unit = [], dp_poll_attempts = 0,
     dp_next_poll = 0, dp_poll_deadline = 0, dp_poll_lease = 0, dp_reason = ms_AdmissionFailure m, dp_http_status = 0,
     dp_api_error = 0\<rparr>"

text \<open>\<open>key\<close> is the random key of \<open>newLINERetryKey\<close>; other channels have none.\<close>

definition insertOfficialIntent :: "string \<Rightarrow> time \<Rightarrow> outbox_message \<Rightarrow> outbox_db \<Rightarrow> outbox_db" where
  "insertOfficialIntent key wall m db =
     (if \<not> officialChannel (ms_Channel m) then db
      else
        let db = db\<lparr>od_dispatch := od_dispatch db @ [new_intent (if ms_Channel m = ''line'' then key else []) m]\<rparr>
        in if ms_AdmissionFailure m \<noteq> []
           then update_rows (\<lambda>r. ob_id r = ms_ID m)
             (\<lambda>r. r\<lparr>ob_quarantined := Some (unix_ms wall), ob_last_error := ms_AdmissionFailure m\<rparr>) db
           else db)"

definition new_row :: "time \<Rightarrow> int option \<Rightarrow> outbox_message \<Rightarrow> outbox_row" where
  "new_row wall isolated m = \<lparr>ob_id = ms_ID m, ob_dedupe = limit (ms_DedupeKey m) 512, ob_channel = limit (ms_Channel m) 32,
     ob_destination = limit (ms_Destination m) 128, ob_body = ms_Body m, ob_attempts = 0,
     ob_next_attempt = unix_ms (ms_NextAttempt m), ob_created = unix_ms wall, ob_expires = unix_ms (wall + OutboxTTL),
     ob_sent = None, ob_quarantined = None, ob_isolated = isolated, ob_suppressed = None, ob_lease = None,
     ob_last_error = [], ob_language = ms_Language m, ob_timezone = ms_Timezone m, ob_incident = [], ob_event_kind = [],
     ob_event_phase = [], ob_merged_count = 1, ob_merge_until = 0\<rparr>"

datatype admission = Inserted | Duplicate | OutboxFull

definition over_capacity :: "outbox_message \<Rightarrow> outbox_db \<Rightarrow> bool" where
  "over_capacity m db =
     (let usage = outboxAdmissionUsage (ms_Channel m) db; (messages, bytes) = channelOutboxLimits (ms_Channel m);
          size = int (length (ms_Body m) + length (ms_FrozenPayload m))
      in maxPendingOutboxMessages - ag_reservedCount usage < ag_count usage + 1 \<or>
         maxPendingOutboxBytes - ag_reservedBytes usage < ag_bytes usage + size \<or>
         ms_Channel m \<noteq> [] \<and> (messages \<le> ag_channelCount usage \<or> bytes < ag_channelBytes usage + size))"

definition enqueue_checks :: "(string \<Rightarrow> json option) \<Rightarrow> string \<Rightarrow> time \<Rightarrow> outbox_message \<Rightarrow> outbox_error + outbox_message" where
  "enqueue_checks unmarshal fresh wall m0 = (case normalizePresentation m0 of
     None \<Rightarrow> Inl PresentationInvalid
   | Some m1 \<Rightarrow>
       if ms_paired m1 then Inl MessagePaired
       else
         let m = (if ms_ID m1 = [] then m1\<lparr>ms_ID := fresh\<rparr> else m1) in
         if ms_DedupeKey m = [] \<or> ms_Destination m = [] \<or> ms_Body m = [] then Inl MessageIncomplete
         else if 128 < length (ms_Destination m) \<or> ms_Channel m \<noteq> [] \<and>
             (\<not> notificationChannel (ms_Channel m) \<or> \<not> validNotificationTarget (ms_Channel m) (ms_Destination m)) then Inl TargetInvalid
         else if \<not> validateOfficialMessage unmarshal m then Inl OfficialInvalid
         else if 4096 < length (ms_Body m) then Inl MessageTooLong
         else Inr (if is_zero (ms_NextAttempt m) then m\<lparr>ms_NextAttempt := wall\<rparr> else m))"

definition admit_message :: "string \<Rightarrow> time \<Rightarrow> outbox_message \<Rightarrow> outbox_db \<Rightarrow> admission \<times> outbox_db" where
  "admit_message key wall m db =
     (if list_ex (\<lambda>r. ob_dedupe r = limit (ms_DedupeKey m) 512) (od_rows db) then (Duplicate, db)
      else if over_capacity m db then (OutboxFull, db\<lparr>od_rejected := min (od_rejected db) (max_int64 - 1) + 1\<rparr>)
      else if row_of (ms_ID m) db \<noteq> None then (Duplicate, db)
      else
        let isolated = (if notificationTargetMatches m db then None else Some (unix_ms wall));
            db = db\<lparr>od_rows := od_rows db @ [new_row wall isolated m]\<rparr>
        in (Inserted, insertOfficialIntent key wall m db))"

text \<open>
  \<open>enqueue\<close>: \<open>fresh\<close> is the identifier \<open>model.NewID\<close> draws, \<open>wall\<close> the clock. The insert is ignored when the
  identifier is taken; a full outbox is counted and committed.
\<close>

definition enqueue :: "(string \<Rightarrow> json option) \<Rightarrow> string \<Rightarrow> string \<Rightarrow> time \<Rightarrow> outbox_message \<Rightarrow> outbox_db \<Rightarrow>
    outbox_error + admission \<times> outbox_db" where
  "enqueue unmarshal fresh key wall m db = (case enqueue_checks unmarshal fresh wall m of
     Inl e \<Rightarrow> Inl e
   | Inr m \<Rightarrow> Inr (admit_message key wall m db))"

section \<open>Expiry\<close>

definition OfficialLINEWindow :: duration where "OfficialLINEWindow = 24 * hour - 5 * minute"
definition MaxOfficialPollAttempts :: int where "MaxOfficialPollAttempts = 8"

definition lease_free :: "int \<Rightarrow> outbox_row \<Rightarrow> bool" where
  "lease_free ms r \<longleftrightarrow> (case ob_lease r of None \<Rightarrow> True | Some t \<Rightarrow> t \<le> ms)"

definition lease_live :: "int \<Rightarrow> outbox_row \<Rightarrow> bool" where
  "lease_live ms r \<longleftrightarrow> (case ob_lease r of None \<Rightarrow> False | Some t \<Rightarrow> ms < t)"

definition has_row :: "(outbox_row \<Rightarrow> bool) \<Rightarrow> string \<Rightarrow> outbox_db \<Rightarrow> bool" where
  "has_row P i db \<longleftrightarrow> (case row_of i db of None \<Rightarrow> False | Some r \<Rightarrow> P r)"

definition has_dispatch :: "(dispatch_row \<Rightarrow> bool) \<Rightarrow> string \<Rightarrow> outbox_db \<Rightarrow> bool" where
  "has_dispatch P i db \<longleftrightarrow> (case dispatch_of i db of None \<Rightarrow> False | Some d \<Rightarrow> P d)"

definition recover_in_flight :: "time \<Rightarrow> outbox_db \<Rightarrow> outbox_db" where
  "recover_in_flight now db = update_dispatch
     (\<lambda>d. dp_state d = InFlight \<and> has_row (lease_free (unix_ms now)) (dp_id d) db)
     (\<lambda>d. d\<lparr>dp_state := (if has_row (\<lambda>r. ob_channel r = ''line'') (dp_id d) db \<and> 0 < dp_first d \<and> dp_last d \<le> unix_ms now \<and>
             unix_ms (now - OfficialLINEWindow) < dp_first d then RetryReady else DeliveryUnknown),
           dp_reason := ''official_interrupted_dispatch''\<rparr>) db"

definition close_line_window :: "time \<Rightarrow> outbox_db \<Rightarrow> outbox_db" where
  "close_line_window now db = update_dispatch
     (\<lambda>d. (dp_state d = Prepared \<or> dp_state d = RetryReady) \<and> 0 < dp_first d \<and> dp_first d \<le> unix_ms (now - OfficialLINEWindow) \<and>
        has_row (\<lambda>r. ob_channel r = ''line'') (dp_id d) db)
     (\<lambda>d. d\<lparr>dp_state := (if dp_uncertain d then DeliveryUnknown else Blocked), dp_reason := ''line_retry_window_expired''\<rparr>) db"

definition stopped_dispatch :: "dispatch_row \<Rightarrow> bool" where
  "stopped_dispatch d \<longleftrightarrow> dp_state d = DeliveryUnknown \<or> dp_state d = Blocked"

definition quarantine_stopped :: "time \<Rightarrow> outbox_db \<Rightarrow> outbox_db" where
  "quarantine_stopped now db = update_rows
     (\<lambda>r. holds_capacity r \<and> has_dispatch stopped_dispatch (ob_id r) db)
     (\<lambda>r. r\<lparr>ob_lease := None, ob_quarantined := (case ob_quarantined r of None \<Rightarrow> Some (unix_ms now) | Some t \<Rightarrow> Some t),
        ob_last_error := (case dispatch_of (ob_id r) db of None \<Rightarrow> ''official_delivery_unknown'' | Some d \<Rightarrow> dp_reason d)\<rparr>) db"

definition recoverOfficialIntents :: "time \<Rightarrow> outbox_db \<Rightarrow> outbox_db" where
  "recoverOfficialIntents now db = quarantine_stopped now (close_line_window now (recover_in_flight now db))"

definition expireOfficialPolls :: "time \<Rightarrow> outbox_db \<Rightarrow> outbox_db" where
  "expireOfficialPolls now db = update_dispatch
     (\<lambda>d. dp_state d = Accepted \<and> 0 < dp_next_poll d \<and> (dp_poll_deadline d \<le> unix_ms now \<or>
        MaxOfficialPollAttempts \<le> dp_poll_attempts d \<and> dp_poll_lease d \<le> unix_ms now))
     (\<lambda>d. d\<lparr>dp_provider_state := ''unknown'', dp_next_poll := 0, dp_poll_lease := 0, dp_reason := ''official_poll_limit''\<rparr>) db"

definition outdated :: "time \<Rightarrow> outbox_row \<Rightarrow> bool" where
  "outdated now r \<longleftrightarrow> ob_sent r = None \<and> ob_expires r \<le> unix_ms now"

text \<open>\<open>pruneRows\<close> on this table: the rows, their intents, and the entry of the retention ledger.\<close>

definition prune_outbox :: "string \<Rightarrow> (outbox_row \<Rightarrow> bool) \<Rightarrow> time \<Rightarrow> outbox_db \<Rightarrow> outbox_error + outbox_db" where
  "prune_outbox reason P now db =
     (let gone = map ob_created (filter P (od_rows db))
      in case recordRetention ''notification_outbox'' reason (int (length gone))
             (if gone = [] then 0 else fold min gone (hd gone)) (if gone = [] then 0 else fold max gone (hd gone)) now (od_retention db) of
           Inl e \<Rightarrow> Inl (OutboxRetention e)
         | Inr ret \<Rightarrow> Inr ((delete_rows P db)\<lparr>od_retention := ret\<rparr>))"

definition expire_body :: "time \<Rightarrow> outbox_db \<Rightarrow> outbox_error + unit \<times> outbox_db" where
  "expire_body now db =
     (let db = expireOfficialPolls now (recoverOfficialIntents now db);
          gone = count_rows (outdated now) db;
          db = db\<lparr>od_expired := min (od_expired db) (max_int64 - gone) + gone\<rparr>
      in case prune_outbox ''time_expiry'' (outdated now) now db of
           Inl e \<Rightarrow> Inl e
         | Inr db \<Rightarrow> Inr ((), db\<lparr>od_cooldowns := filter (\<lambda>(d, t). \<not> t \<le> unix_ms now) (od_cooldowns db)\<rparr>))"

definition ExpireNotifications :: "bool \<Rightarrow> time \<Rightarrow> outbox_db \<Rightarrow> (outbox_error + unit) \<times> outbox_db" where
  "ExpireNotifications fault now db = transact fault (expire_body now db) db"

definition Enqueue :: "bool \<Rightarrow> bool \<Rightarrow> (string \<Rightarrow> json option) \<Rightarrow> string \<Rightarrow> string \<Rightarrow> time \<Rightarrow> outbox_message \<Rightarrow> outbox_db \<Rightarrow>
    (outbox_error + admission) \<times> outbox_db" where
  "Enqueue fault fault' unmarshal fresh key wall m db = (case ExpireNotifications fault wall db of
     (Inl e, db) \<Rightarrow> (Inl e, db)
   | (Inr _, db) \<Rightarrow> transact fault' (enqueue unmarshal fresh key wall m db) db)"

end
