(* ===== verification/Alerts.thy ===== *)
theory Alerts
  imports Outbox Interfaces
begin

text \<open>
  Events and their notifications: \<open>internal/store/alerts.go\<close> decides once per event and channel whether a
  notification is queued, merged into a waiting one, silenced or rejected; \<open>silences.go\<close> keeps the
  silences; \<open>insertEvent\<close> (\<open>store.go\<close>) and \<open>InsertEventNotification\<close> (\<open>journal.go\<close>) store the event with the
  decision in one transaction. A chain of messages linked by \<open>Secondary\<close> is a list; each comes with the
  random identifier and key drawn for it.
\<close>

section \<open>Tables\<close>

datatype decision = Queued | Merged | Silenced | Ineligible | Rejected

record decision_row =
  en_event :: string
  en_channel :: string
  en_notification :: string
  en_decision :: decision
  en_silence :: string
  en_recorded :: int

record silence_row =
  sn_id :: string
  sn_incident :: string
  sn_kind :: string
  sn_reason :: string
  sn_created :: int
  sn_expires :: int
  sn_revoked :: "int option"

record event_row =
  er_id :: string
  er_incident :: string
  er_observed :: int
  er_kind :: string
  er_phase :: string
  er_severity :: string
  er_summary :: string
  er_source :: string
  er_range :: string
  er_target :: string
  er_count :: uint64
  er_geo :: string
  er_evidence :: string

record alert_db =
  al_outbox :: outbox_db
  al_events :: "event_row list"
  al_decisions :: "decision_row list"
  al_silences :: "silence_row list"

datatype alert_error =
    AlertStore | AlertOutbox outbox_error | AlertRetention retention_error | EventTooLarge | ChannelsInvalid
  | MergeExhausted | IdentityConflict | SilenceInvalid | SilenceExpiryInvalid | SilenceFull | SilenceAbsent | WindowInvalid

definition commit_alert :: "bool \<Rightarrow> alert_error + 'a \<times> alert_db \<Rightarrow> alert_db \<Rightarrow> (alert_error + 'a) \<times> alert_db" where
  "commit_alert fault r db = (if fault then (Inl AlertStore, db)
     else case r of Inl e \<Rightarrow> (Inl e, db) | Inr (x, db') \<Rightarrow> (Inr x, db'))"

text \<open>The merge window of the store.\<close>

definition ConfigureNotifications :: "duration \<Rightarrow> alert_error + duration" where
  "ConfigureNotifications window = (if window < 0 \<or> 24 * hour < window then Inl WindowInvalid else Inr window)"

section \<open>Storing an event\<close>

text \<open>The texts of an event and its JSON encodings (\<open>fmt\<close>, \<open>encoding/json\<close>) as the store receives them.\<close>

record event_codec =
  ec_text :: "gotext \<Rightarrow> string"
  ec_geo :: "geo \<Rightarrow> string"
  ec_evidence :: "(string \<times> gotext) list \<Rightarrow> string"

definition event_row_of :: "event_codec \<Rightarrow> event \<Rightarrow> event_row" where
  "event_row_of c e = \<lparr>er_id = ev_ID e, er_incident = ev_IncidentID e, er_observed = unix_ms (ev_ObservedAt e), er_kind = ev_Kind e,
     er_phase = ev_Phase e, er_severity = ev_Severity e, er_summary = limit (ec_text c (ev_Summary e)) 1024,
     er_source = limit (ev_SourceIP e) 128, er_range = limit (ev_SourceRange e) 128, er_target = limit (ec_text c (ev_Target e)) 256,
     er_count = ev_Count e, er_geo = ec_geo c (ev_Geo e), er_evidence = ec_evidence c (ev_Evidence e)\<rparr>"

definition has_event :: "string \<Rightarrow> alert_db \<Rightarrow> bool" where
  "has_event i db \<longleftrightarrow> list_ex (\<lambda>r. er_id r = i) (al_events db)"

definition insertEvent :: "event_codec \<Rightarrow> event \<Rightarrow> alert_db \<Rightarrow> alert_error + alert_db" where
  "insertEvent c e db =
     (if 16 * 1024 < length (ec_geo c (ev_Geo e)) \<or> 64 * 1024 < length (ec_evidence c (ev_Evidence e)) then Inl EventTooLarge
      else Inr (if has_event (ev_ID e) db then db else db\<lparr>al_events := al_events db @ [event_row_of c e]\<rparr>))"

section \<open>Merged bodies\<close>

definition mergeBodyReserve :: int where "mergeBodyReserve = 128"

definition digit_char :: "int \<Rightarrow> char" where
  "digit_char n = char_of (48 + nat n)"

function decimal :: "int \<Rightarrow> string" where
  "decimal n = (if n < 10 then [digit_char n] else decimal (n div 10) @ [digit_char (n mod 10)])"
  by auto
termination
  by (relation "measure nat") auto

text \<open>The UTF-8 text of the sentences around the number.\<close>

definition updates_en :: string where
  "updates_en = '' incident updates</b> '' @ [CHR 0xC2, CHR 0xB7] @
     '' latest observation below; all events retained in the timeline.'' @ [CHR 0x0A]"

definition updates_zh :: string where
  "updates_zh = '' '' @
     [CHR 0xE6, CHR 0xAC, CHR 0xA1, CHR 0xE4, CHR 0xBA, CHR 0x8B, CHR 0xE4, CHR 0xBB, CHR 0xB6, CHR 0xE6, CHR 0x9B, CHR 0xB4,
      CHR 0xE6, CHR 0x96, CHR 0xB0] @ ''</b> '' @ [CHR 0xC2, CHR 0xB7] @ '' '' @
     [CHR 0xE4, CHR 0xBB, CHR 0xA5, CHR 0xE4, CHR 0xB8, CHR 0x8B, CHR 0xE4, CHR 0xB8, CHR 0xBA, CHR 0xE6, CHR 0x9C, CHR 0x80,
      CHR 0xE6, CHR 0x96, CHR 0xB0, CHR 0xE8, CHR 0xA7, CHR 0x82, CHR 0xE5, CHR 0xAF, CHR 0x9F, CHR 0xEF, CHR 0xBC, CHR 0x8C,
      CHR 0xE6, CHR 0x89, CHR 0x80, CHR 0xE6, CHR 0x9C, CHR 0x89, CHR 0xE4, CHR 0xBA, CHR 0x8B, CHR 0xE4, CHR 0xBB, CHR 0xB6,
      CHR 0xE4, CHR 0xBF, CHR 0x9D, CHR 0xE7, CHR 0x95, CHR 0x99, CHR 0xE5, CHR 0x9C, CHR 0xA8, CHR 0xE6, CHR 0x97, CHR 0xB6,
      CHR 0xE9, CHR 0x97, CHR 0xB4, CHR 0xE7, CHR 0xBA, CHR 0xBF, CHR 0xE3, CHR 0x80, CHR 0x82, CHR 0x0A]"

definition mergedBodyLocalized :: "int \<Rightarrow> string \<Rightarrow> string \<Rightarrow> string" where
  "mergedBodyLocalized n latest language =
     ''<b>'' @ decimal n @ (if language = ''zh'' then updates_zh else updates_en) @ latest"

section \<open>One decision per event and channel\<close>

definition decided :: "string \<Rightarrow> string \<Rightarrow> alert_db \<Rightarrow> bool" where
  "decided i channel db \<longleftrightarrow> list_ex (\<lambda>r. en_event r = i \<and> en_channel r = channel) (al_decisions db)"

definition record_decision :: "event \<Rightarrow> string \<Rightarrow> time \<Rightarrow> decision \<Rightarrow> string \<Rightarrow> string \<Rightarrow> alert_db \<Rightarrow> alert_db" where
  "record_decision e channel now dec notification silence db = db\<lparr>al_decisions := al_decisions db @
     [\<lparr>en_event = ev_ID e, en_channel = channel, en_notification = notification, en_decision = dec, en_silence = silence,
       en_recorded = unix_ms now\<rparr>]\<rparr>"

definition active_silence :: "time \<Rightarrow> event \<Rightarrow> silence_row \<Rightarrow> bool" where
  "active_silence now e s \<longleftrightarrow> sn_revoked s = None \<and> unix_ms now < sn_expires s \<and>
     (sn_incident s = [] \<or> sn_incident s = ev_IncidentID e) \<and> (sn_kind s = [] \<or> sn_kind s = ev_Kind e)"

definition silence_less :: "silence_row \<Rightarrow> silence_row \<Rightarrow> bool" where
  "silence_less = then_by sn_created (<) (\<lambda>s t. string_less (sn_id s) (sn_id t))"

definition find_silence :: "time \<Rightarrow> event \<Rightarrow> outbox_message \<Rightarrow> alert_db \<Rightarrow> silence_row option" where
  "find_silence now e m db =
     (if notificationChannel (ms_Channel m) \<or> ms_Destination m = ''telegram''
      then (case sort_by silence_less (filter (active_silence now e) (al_silences db)) of [] \<Rightarrow> None | s # _ \<Rightarrow> Some s) else None)"

text \<open>A recovery releases the updates of its incident that still wait to be merged.\<close>

definition release_updates :: "time \<Rightarrow> event \<Rightarrow> outbox_message \<Rightarrow> outbox_db \<Rightarrow> outbox_db" where
  "release_updates now e m db =
     (if ev_Phase e = ''recovery'' \<and> ev_IncidentID e \<noteq> []
      then update_rows (\<lambda>r. ob_incident r = ev_IncidentID e \<and> ob_destination r = ms_Destination m \<and> ob_event_phase r = ''update'' \<and>
          ob_attempts r = 0 \<and> ob_sent r = None \<and> ob_suppressed r = None \<and> ob_lease r = None)
        (\<lambda>r. r\<lparr>ob_next_attempt := min (ob_next_attempt r) (unix_ms now), ob_merge_until := 0\<rparr>) db
      else db)"

definition mergeable :: "duration \<Rightarrow> event \<Rightarrow> outbox_message \<Rightarrow> outbox_db \<Rightarrow> bool" where
  "mergeable window e m db \<longleftrightarrow> (ms_Channel m = [] \<or> ms_Channel m = ''telegram'' \<or> ms_Channel m = ''webhook'') \<and>
     notificationTargetMatches m db \<and> mergeablePresentation m \<and> 0 < window \<and> ev_Phase e = ''update'' \<and> ev_IncidentID e \<noteq> [] \<and>
     int (length (ms_Body m)) \<le> 4096 - mergeBodyReserve"

definition merge_candidate :: "time \<Rightarrow> event \<Rightarrow> outbox_message \<Rightarrow> outbox_row \<Rightarrow> bool" where
  "merge_candidate now e m r \<longleftrightarrow> ob_incident r = ev_IncidentID e \<and> ob_event_kind r = ev_Kind e \<and> ob_destination r = ms_Destination m \<and>
     ob_language r = ms_Language m \<and> ob_timezone r = ms_Timezone m \<and> ob_event_phase r = ''update'' \<and> unix_ms now < ob_merge_until r \<and>
     ob_sent r = None \<and> ob_suppressed r = None \<and> ob_isolated r = None \<and> ob_quarantined r = None \<and> ob_lease r = None \<and>
     ob_attempts r = 0 \<and> unix_ms now < ob_expires r"

definition merge_less :: "outbox_row \<Rightarrow> outbox_row \<Rightarrow> bool" where
  "merge_less = then_by ob_merge_until (<) (\<lambda>r q. string_less (ob_id r) (ob_id q))"

definition find_merge :: "time \<Rightarrow> event \<Rightarrow> outbox_message \<Rightarrow> outbox_db \<Rightarrow> outbox_row option" where
  "find_merge now e m db = (case sort_by merge_less (filter (merge_candidate now e m) (od_rows db)) of [] \<Rightarrow> None | r # _ \<Rightarrow> Some r)"

definition count_rejected :: "outbox_db \<Rightarrow> outbox_db" where
  "count_rejected db = db\<lparr>od_rejected := min (od_rejected db) (max_int64 - 1) + 1\<rparr>"

definition merge_into :: "time \<Rightarrow> event \<Rightarrow> string \<Rightarrow> outbox_message \<Rightarrow> outbox_row \<Rightarrow> alert_db \<Rightarrow> alert_error + alert_db" where
  "merge_into now e channel m r db =
     (if ob_merged_count r = max_int64 then Inl MergeExhausted
      else
        let body = mergedBodyLocalized (ob_merged_count r + 1) (ms_Body m) (ms_Language m);
            usage = outboxAdmissionUsage (ms_Channel m) (al_outbox db);
            change = int (length body) - int (length (ob_body r))
        in if maxPendingOutboxBytes - ag_reservedBytes usage < ag_bytes usage + change \<or>
             ms_Channel m \<noteq> [] \<and> maxChannelOutboxBytes < ag_channelBytes usage + change
           then Inr (record_decision e channel now Rejected [] [] (db\<lparr>al_outbox := count_rejected (al_outbox db)\<rparr>))
           else Inr (record_decision e channel now Merged (ob_id r) [] (db\<lparr>al_outbox := update_rows (\<lambda>q. ob_id q = ob_id r)
               (\<lambda>q. q\<lparr>ob_body := body, ob_merged_count := ob_merged_count q + 1\<rparr>) (al_outbox db)\<rparr>)))"

definition admit_event :: "(string \<Rightarrow> json option) \<Rightarrow> string \<Rightarrow> string \<Rightarrow> time \<Rightarrow> time \<Rightarrow> duration \<Rightarrow> bool \<Rightarrow> event \<Rightarrow> string \<Rightarrow>
    outbox_message \<Rightarrow> alert_db \<Rightarrow> alert_error + alert_db" where
  "admit_event unmarshal fresh key wall now window merge e channel m0 db =
     (let m1 = (if ms_ID m0 = [] then m0\<lparr>ms_ID := fresh\<rparr> else m0);
          m = (if merge then m1\<lparr>ms_NextAttempt := now + window, ms_Body := mergedBodyLocalized 1 (ms_Body m1) (ms_Language m1)\<rparr> else m1);
          until = (if merge then unix_ms (now + window) else 0)
      in case enqueue unmarshal fresh key wall m (al_outbox db) of
           Inl x \<Rightarrow> Inl (AlertOutbox x)
         | Inr (OutboxFull, ob) \<Rightarrow> Inr (record_decision e channel now Rejected [] [] (db\<lparr>al_outbox := ob\<rparr>))
         | Inr (Duplicate, ob) \<Rightarrow> Inl IdentityConflict
         | Inr (Inserted, ob) \<Rightarrow> Inr (record_decision e channel now Queued (ms_ID m) [] (db\<lparr>al_outbox := update_rows (\<lambda>r. ob_id r = ms_ID m)
             (\<lambda>r. r\<lparr>ob_incident := ev_IncidentID e, ob_event_kind := ev_Kind e, ob_event_phase := ev_Phase e, ob_merge_until := until\<rparr>) ob\<rparr>)))"

definition event_channel :: "outbox_message \<Rightarrow> string" where
  "event_channel m = (if ms_Channel m = [] then ''telegram'' else ms_Channel m)"

definition recordOneEventNotification :: "(string \<Rightarrow> json option) \<Rightarrow> string \<Rightarrow> string \<Rightarrow> time \<Rightarrow> time \<Rightarrow> duration \<Rightarrow> event \<Rightarrow>
    outbox_message option \<Rightarrow> alert_db \<Rightarrow> alert_error + alert_db" where
  "recordOneEventNotification unmarshal fresh key wall now window e message db =
     (let channel = (case message of None \<Rightarrow> ''telegram'' | Some m \<Rightarrow> event_channel m) in
      if decided (ev_ID e) channel db then Inr db
      else case message of
        None \<Rightarrow> Inr (record_decision e channel now Ineligible [] [] db)
      | Some m0 \<Rightarrow> (case normalizePresentation m0 of
          None \<Rightarrow> Inl (AlertOutbox PresentationInvalid)
        | Some m \<Rightarrow> (case find (\<lambda>r. ob_dedupe r = ms_DedupeKey m) (od_rows (al_outbox db)) of
            Some r \<Rightarrow> Inr (record_decision e channel now Queued (ob_id r) [] db)
          | None \<Rightarrow> (case find_silence now e m db of
              Some s \<Rightarrow> Inr (record_decision e channel now Silenced [] (sn_id s) db)
            | None \<Rightarrow>
                let db = db\<lparr>al_outbox := release_updates now e m (al_outbox db)\<rparr>;
                    merge = mergeable window e m (al_outbox db)
                in case (if merge then find_merge now e m (al_outbox db) else None) of
                     Some r \<Rightarrow> merge_into now e channel m r db
                   | None \<Rightarrow> admit_event unmarshal fresh key wall now window merge e channel m db))))"

text \<open>The chain of messages of an event, each with the identifier and key drawn for it.\<close>

type_synonym delivery = "outbox_message \<times> string \<times> string"

definition chain_ok :: "delivery list \<Rightarrow> bool" where
  "chain_ok ds =
     (let ms = map fst ds in
      int (length ms) \<le> MaxNotificationChannels \<and> distinct (map ms_Channel ms) \<and> distinct (map ms_DedupeKey ms) \<and>
      distinct (filter (\<lambda>i. i \<noteq> []) (map ms_ID ms)) \<and>
      list_all (\<lambda>m. (ms_Channel m = [] \<or> notificationChannel (ms_Channel m)) \<and> (length ms \<le> 1 \<or> ms_Channel m \<noteq> [])) ms)"

fun record_chain :: "(string \<Rightarrow> json option) \<Rightarrow> time \<Rightarrow> time \<Rightarrow> duration \<Rightarrow> event \<Rightarrow> delivery list \<Rightarrow> alert_db \<Rightarrow> alert_error + alert_db" where
  "record_chain unmarshal wall now window e [] db = Inr db"
| "record_chain unmarshal wall now window e ((m, fresh, key) # ds) db =
    (case recordOneEventNotification unmarshal fresh key wall now window e (Some (m\<lparr>ms_paired := False\<rparr>)) db of
       Inl x \<Rightarrow> Inl x
     | Inr db \<Rightarrow> record_chain unmarshal wall now window e ds db)"

definition recordEventNotification :: "(string \<Rightarrow> json option) \<Rightarrow> time \<Rightarrow> time \<Rightarrow> duration \<Rightarrow> event \<Rightarrow> delivery list \<Rightarrow> alert_db \<Rightarrow>
    alert_error + alert_db" where
  "recordEventNotification unmarshal wall now window e ds db =
     (if ds = [] then recordOneEventNotification unmarshal [] [] wall now window e None db
      else if \<not> chain_ok ds then Inl ChannelsInvalid
      else record_chain unmarshal wall now window e ds db)"

definition InsertEventNotification :: "bool \<Rightarrow> event_codec \<Rightarrow> (string \<Rightarrow> json option) \<Rightarrow> time \<Rightarrow> time \<Rightarrow> duration \<Rightarrow> event \<Rightarrow> delivery list \<Rightarrow>
    alert_db \<Rightarrow> (alert_error + unit) \<times> alert_db" where
  "InsertEventNotification fault c unmarshal wall now window e ds db = commit_alert fault
     (case insertEvent c e db of
        Inl x \<Rightarrow> Inl x
      | Inr db1 \<Rightarrow> (case recordEventNotification unmarshal wall now window e ds db1 of Inl x \<Rightarrow> Inl x | Inr db2 \<Rightarrow> Inr ((), db2))) db"

section \<open>Silences\<close>

definition MaxSilences :: int where "MaxSilences = 128"

record silence_rule =
  sr_IncidentID :: string
  sr_Kind :: string
  sr_Reason :: string
  sr_ExpiresAt :: time

definition silence_invalid :: "silence_rule \<Rightarrow> time \<Rightarrow> bool" where
  "silence_invalid rule now \<longleftrightarrow> sr_IncidentID rule = [] \<and> sr_Kind rule = [] \<or>
     sr_IncidentID rule \<noteq> [] \<and> \<not> ValidID (sr_IncidentID rule) \<or> sr_Kind rule \<noteq> [] \<and> \<not> ValidID (sr_Kind rule) \<or>
     256 < length (sr_Reason rule) \<or> \<not> ValidString (sr_Reason rule) \<or> list_ex control_char (sr_Reason rule) \<or>
     is_zero now \<or> sr_ExpiresAt rule \<le> now \<or> 7 * 24 * hour < time_sub (sr_ExpiresAt rule) now"

text \<open>\<open>silenceMessageMatch\<close>; a message of an older daemon has no kind and is matched through its event.\<close>

definition silence_matches :: "silence_rule \<Rightarrow> event_row list \<Rightarrow> outbox_row \<Rightarrow> bool" where
  "silence_matches rule events r \<longleftrightarrow> (notificationChannel (ob_channel r) \<or> ob_destination r = ''telegram'') \<and>
     (if ob_event_kind r \<noteq> []
      then (sr_IncidentID rule = [] \<or> ob_incident r = sr_IncidentID rule) \<and> (sr_Kind rule = [] \<or> ob_event_kind r = sr_Kind rule)
      else list_ex (\<lambda>e. ob_dedupe r = ''event:'' @ er_id e @ '':telegram'' \<and> (sr_IncidentID rule = [] \<or> er_incident e = sr_IncidentID rule) \<and>
        (sr_Kind rule = [] \<or> er_kind e = sr_Kind rule)) events)"

definition silenced_rows :: "silence_rule \<Rightarrow> time \<Rightarrow> alert_db \<Rightarrow> outbox_row \<Rightarrow> bool" where
  "silenced_rows rule now db r \<longleftrightarrow> ob_sent r = None \<and> ob_suppressed r = None \<and> unix_ms now < ob_expires r \<and>
     silence_matches rule (al_events db) r"

definition least :: "int list \<Rightarrow> int" where "least xs = (case xs of [] \<Rightarrow> 0 | x # ys \<Rightarrow> fold min ys x)"
definition greatest :: "int list \<Rightarrow> int" where "greatest xs = (case xs of [] \<Rightarrow> 0 | x # ys \<Rightarrow> fold max ys x)"

definition with_retention :: "string \<Rightarrow> string \<Rightarrow> int list \<Rightarrow> int list \<Rightarrow> time \<Rightarrow> alert_db \<Rightarrow> alert_error + alert_db" where
  "with_retention dataset reason starts ends now db =
     (case recordRetention dataset reason (int (length starts)) (least starts) (greatest ends) now (od_retention (al_outbox db)) of
        Inl x \<Rightarrow> Inl (AlertRetention x)
      | Inr ret \<Rightarrow> Inr (db\<lparr>al_outbox := (al_outbox db)\<lparr>od_retention := ret\<rparr>\<rparr>))"

text \<open>\<open>pruneRows\<close> on the silences.\<close>

definition prune_silences :: "string \<Rightarrow> (silence_row \<Rightarrow> bool) \<Rightarrow> time \<Rightarrow> alert_db \<Rightarrow> alert_error + alert_db" where
  "prune_silences reason P now db = (let gone = filter P (al_silences db)
     in with_retention ''notification_silences'' reason (map sn_created gone) (map sn_expires gone) now
          (db\<lparr>al_silences := filter (\<lambda>s. \<not> P s) (al_silences db)\<rparr>))"

definition new_silence :: "string \<Rightarrow> silence_rule \<Rightarrow> time \<Rightarrow> silence_row" where
  "new_silence i rule now = \<lparr>sn_id = i, sn_incident = sr_IncidentID rule, sn_kind = sr_Kind rule, sn_reason = sr_Reason rule,
     sn_created = unix_ms now, sn_expires = unix_ms (sr_ExpiresAt rule), sn_revoked = None\<rparr>"

text \<open>The suppressed messages that are kept: live claims first, then the latest.\<close>

definition suppressed_before :: "int \<Rightarrow> outbox_row \<Rightarrow> outbox_row \<Rightarrow> bool" where
  "suppressed_before ms r q = then_by (\<lambda>r. if lease_live ms r then 0 else 1 :: int) (<)
     (then_by (\<lambda>r. case ob_suppressed r of None \<Rightarrow> 0 | Some t \<Rightarrow> t) (>) (\<lambda>r q. string_less (ob_id q) (ob_id r))) r q"

definition suppressed_unsent :: "outbox_row \<Rightarrow> bool" where
  "suppressed_unsent r \<longleftrightarrow> ob_suppressed r \<noteq> None \<and> ob_sent r = None"

definition excess_suppressed :: "time \<Rightarrow> outbox_db \<Rightarrow> outbox_row \<Rightarrow> bool" where
  "excess_suppressed now db r \<longleftrightarrow> suppressed_unsent r \<and> lease_free (unix_ms now) r \<and>
     maxPendingOutboxMessages \<le> count_rows (\<lambda>q. suppressed_unsent q \<and> suppressed_before (unix_ms now) q r) db"

text \<open>What a new silence does to the messages it matches.\<close>

definition suppress_matching :: "string \<Rightarrow> (outbox_row \<Rightarrow> bool) \<Rightarrow> time \<Rightarrow> alert_db \<Rightarrow> alert_db" where
  "suppress_matching i P now db = db\<lparr>
     al_decisions := map (\<lambda>d. if has_row P (en_notification d) (al_outbox db) then d\<lparr>en_decision := Silenced, en_silence := i\<rparr> else d)
       (al_decisions db),
     al_outbox := update_rows P (\<lambda>r. r\<lparr>ob_suppressed := Some (unix_ms now), ob_body := []\<rparr>)
       (update_dispatch (\<lambda>d. has_row P (dp_id d) (al_outbox db)) (\<lambda>d. d\<lparr>dp_payload := []\<rparr>) (al_outbox db))\<rparr>"

definition silence_body :: "string \<Rightarrow> silence_rule \<Rightarrow> time \<Rightarrow> alert_db \<Rightarrow> alert_error + (silence_row \<times> int \<times> int) \<times> alert_db" where
  "silence_body i rule now db0 = (case prune_silences ''time_expiry'' (\<lambda>s. sn_expires s \<le> unix_ms now) now db0 of
     Inl x \<Rightarrow> Inl x
   | Inr db1 \<Rightarrow> (case prune_silences ''capacity_eviction'' (\<lambda>s. sn_revoked s \<noteq> None) now db1 of
       Inl x \<Rightarrow> Inl x
     | Inr db2 \<Rightarrow>
         if MaxSilences \<le> int (length (al_silences db2)) then Inl SilenceFull
         else if list_ex (\<lambda>s. sn_id s = i) (al_silences db2) then Inl AlertStore
         else
           let db3 = db2\<lparr>al_silences := al_silences db2 @ [new_silence i rule now]\<rparr>;
               P = silenced_rows rule now db3; hit = filter P (od_rows (al_outbox db3));
               flying = int (length (filter (lease_live (unix_ms now)) hit))
           in case with_retention ''notification_outbox'' ''silence_body_discard'' (map ob_created hit) (map ob_created hit) now db3 of
                Inl x \<Rightarrow> Inl x
              | Inr db4 \<Rightarrow>
                  let db5 = suppress_matching i P now db4
                  in (case prune_outbox ''capacity_eviction'' (excess_suppressed now (al_outbox db5)) now (al_outbox db5) of
                        Inl x \<Rightarrow> Inl (AlertOutbox x)
                      | Inr ob \<Rightarrow> Inr ((new_silence i rule now, int (length hit), flying), db5\<lparr>al_outbox := ob\<rparr>))))"

definition AddSilence :: "bool \<Rightarrow> string \<Rightarrow> silence_rule \<Rightarrow> time \<Rightarrow> alert_db \<Rightarrow> (alert_error + silence_row \<times> int \<times> int) \<times> alert_db" where
  "AddSilence fault i rule now db =
     (if silence_invalid rule now then (Inl SilenceInvalid, db)
      else if unix_ms (sr_ExpiresAt rule) \<le> unix_ms now then (Inl SilenceExpiryInvalid, db)
      else commit_alert fault (silence_body i rule now db) db)"

definition Silences :: "time \<Rightarrow> alert_db \<Rightarrow> (silence_row \<times> string) list" where
  "Silences now db = map (\<lambda>s. (s, if sn_revoked s \<noteq> None then ''revoked'' else if sn_expires s \<le> unix_ms now then ''expired'' else ''active''))
     (take 128 (sort_by silence_less (al_silences db)))"

definition RemoveSilence :: "bool \<Rightarrow> string \<Rightarrow> time \<Rightarrow> alert_db \<Rightarrow> (alert_error + unit) \<times> alert_db" where
  "RemoveSilence fault i now db =
     (if \<not> ValidID i then (Inl SilenceInvalid, db)
      else commit_alert fault
        (if \<not> list_ex (\<lambda>s. sn_id s = i) (al_silences db) then Inl SilenceAbsent
         else Inr ((), db\<lparr>al_silences := map (\<lambda>s. if sn_id s = i then s\<lparr>sn_revoked :=
             (case sn_revoked s of None \<Rightarrow> Some (unix_ms now) | Some t \<Rightarrow> Some t)\<rparr> else s) (al_silences db)\<rparr>)) db)"

section \<open>The branches of a decision\<close>

lemma recordOne_cases:
  assumes "recordOneEventNotification unmarshal fresh key wall now window e (Some m0) db = Inr db'"
  obtains (decided) "decided (ev_ID e) (event_channel m0) db" "db' = db"
  | (known) m r where "\<not> decided (ev_ID e) (event_channel m0) db" "normalizePresentation m0 = Some m"
      "find (\<lambda>r. ob_dedupe r = ms_DedupeKey m) (od_rows (al_outbox db)) = Some r"
      "db' = record_decision e (event_channel m0) now Queued (ob_id r) [] db"
  | (silenced) m s where "\<not> decided (ev_ID e) (event_channel m0) db" "normalizePresentation m0 = Some m" "find_silence now e m db = Some s"
      "db' = record_decision e (event_channel m0) now Silenced [] (sn_id s) db"
  | (merged) m r where "\<not> decided (ev_ID e) (event_channel m0) db" "normalizePresentation m0 = Some m" "find_silence now e m db = None"
      "mergeable window e m (release_updates now e m (al_outbox db))" "find_merge now e m (release_updates now e m (al_outbox db)) = Some r"
      "merge_into now e (event_channel m0) m r (db\<lparr>al_outbox := release_updates now e m (al_outbox db)\<rparr>) = Inr db'"
  | (admitted) m where "\<not> decided (ev_ID e) (event_channel m0) db" "normalizePresentation m0 = Some m" "find_silence now e m db = None"
      "find (\<lambda>r. ob_dedupe r = ms_DedupeKey m) (od_rows (al_outbox db)) = None"
      "mergeable window e m (release_updates now e m (al_outbox db)) \<Longrightarrow> find_merge now e m (release_updates now e m (al_outbox db)) = None"
      "admit_event unmarshal fresh key wall now window (mergeable window e m (release_updates now e m (al_outbox db))) e (event_channel m0) m
         (db\<lparr>al_outbox := release_updates now e m (al_outbox db)\<rparr>) = Inr db'"
proof (cases "decided (ev_ID e) (event_channel m0) db")
  case True
  have "db' = db" using assms [unfolded recordOneEventNotification_def option.case Let_def if_P [OF True]] by simp
  then show ?thesis using decided True by simp
next
  case False
  note run = assms [unfolded recordOneEventNotification_def option.case Let_def if_not_P [OF False]]
  obtain m where m: "normalizePresentation m0 = Some m" using run by (cases "normalizePresentation m0") auto
  note run = run [unfolded m option.case]
  show ?thesis
  proof (cases "find (\<lambda>r. ob_dedupe r = ms_DedupeKey m) (od_rows (al_outbox db))")
    case (Some r)
    then show ?thesis using run known [OF False m Some] by simp
  next
    case None
    note run = run [unfolded None option.case]
    show ?thesis
    proof (cases "find_silence now e m db")
      case (Some s)
      then show ?thesis using run silenced [OF False m Some] by simp
    next
      case none: None
      let ?ob = "release_updates now e m (al_outbox db)"
      have outbox: "al_outbox (db\<lparr>al_outbox := ob\<rparr>) = ob" for ob by simp
      have run: "(case if mergeable window e m ?ob then find_merge now e m ?ob else None of
          Some r \<Rightarrow> merge_into now e (event_channel m0) m r (db\<lparr>al_outbox := ?ob\<rparr>)
        | None \<Rightarrow> admit_event unmarshal fresh key wall now window (mergeable window e m ?ob) e (event_channel m0) m (db\<lparr>al_outbox := ?ob\<rparr>)) = Inr db'"
        using run [unfolded none option.case outbox] .
      show ?thesis
      proof (cases "if mergeable window e m ?ob then find_merge now e m ?ob else None")
        case None
        then show ?thesis using run admitted [OF False m none \<open>find _ _ = None\<close>] by (simp split: if_splits)
      next
        case (Some r)
        then show ?thesis using run merged [OF False m none] by (simp split: if_splits)
      qed
    qed
  qed
qed

section \<open>Failing calls are rolled back\<close>

interpretation events: transactional "\<lambda>(fault, wall, now, window, e, ds). InsertEventNotification fault c unmarshal wall now window e ds"
  for c unmarshal
  by unfold_locales (auto simp: InsertEventNotification_def commit_alert_def split: if_splits sum.splits)

interpretation silencing: transactional "\<lambda>(fault, i, rule, now). AddSilence fault i rule now"
  by unfold_locales (auto simp: AddSilence_def commit_alert_def split: if_splits sum.splits)

interpretation revoking: transactional "\<lambda>(fault, i, now). RemoveSilence fault i now"
  by unfold_locales (auto simp: RemoveSilence_def commit_alert_def split: if_splits)

end
