(* ===== verification/Journal.thy ===== *)
theory Journal
  imports Alerts
begin

text \<open>
  The transactions that store observations together with their events: \<open>journal.go\<close> commits one entry of
  the SSH journal with its cursor, \<open>addAuth\<close> (\<open>store.go\<close>) counts the attempt in a bounded hourly table,
  \<open>monitor_state.go\<close> replaces the state of a monitor under its revision.
\<close>

section \<open>Hourly authentication counts\<close>

definition maxAuthKeysPerHour :: int where "maxAuthKeysPerHour = 65536"

record auth_row =
  ah_hour :: int
  ah_kind :: string
  ah_range :: string
  ah_count :: int

record journal_db =
  jd_alerts :: alert_db
  jd_auth :: "auth_row list"
  jd_cardinality :: "(int \<times> int) list"
  jd_seen :: "(int \<times> string \<times> int) list"
  jd_checkpoint :: "(string \<times> int \<times> int) option"
  jd_pending :: "bool option"
  jd_states :: "(string \<times> int \<times> int \<times> string) list"

datatype journal_error =
    JournalStore | JournalAlert alert_error | JournalRetention retention_error | AuthIncomplete | JournalInvalid
  | RecoveryUnavailable | MonitorInvalid | MonitorEventInvalid | MonitorConflict | MonitorBackwards | MonitorFull | MonitorEventExists | MonitorUnreadable

definition commit_journal :: "bool \<Rightarrow> journal_error + 'a \<times> journal_db \<Rightarrow> journal_db \<Rightarrow> (journal_error + 'a) \<times> journal_db" where
  "commit_journal fault r db = (if fault then (Inl JournalStore, db)
     else case r of Inl e \<Rightarrow> (Inl e, db) | Inr (x, db') \<Rightarrow> (Inr x, db'))"

definition same_auth :: "int \<Rightarrow> string \<Rightarrow> string \<Rightarrow> auth_row \<Rightarrow> bool" where
  "same_auth h kind source r \<longleftrightarrow> ah_hour r = h \<and> ah_kind r = kind \<and> ah_range r = source"

definition bump_auth :: "int \<Rightarrow> string \<Rightarrow> string \<Rightarrow> auth_row list \<Rightarrow> auth_row list" where
  "bump_auth h kind source rows =
     (if list_ex (same_auth h kind source) rows
      then map (\<lambda>r. if same_auth h kind source r then r\<lparr>ah_count := ah_count r + 1\<rparr> else r) rows
      else rows @ [\<lparr>ah_hour = h, ah_kind = kind, ah_range = source, ah_count = 1\<rparr>])"

definition addAuth :: "time \<Rightarrow> time \<Rightarrow> string \<Rightarrow> string \<Rightarrow> journal_db \<Rightarrow> journal_error + journal_db" where
  "addAuth wall observed kind0 source0 db =
     (if is_zero observed \<or> kind0 = [] then Inl AuthIncomplete
      else
        let h = observed div hour * 3600; kind = limit kind0 64; source = limit source0 128;
            keys = count_of (jd_cardinality db) h;
            new = \<not> list_ex (same_auth h kind source) (jd_auth db)
        in if \<not> new then Inr (db\<lparr>jd_auth := bump_auth h kind source (jd_auth db)\<rparr>)
           else if keys < maxAuthKeysPerHour
           then Inr (db\<lparr>jd_auth := bump_auth h kind source (jd_auth db), jd_cardinality := AList.update h (keys + 1) (jd_cardinality db)\<rparr>)
           else case recordRetention ''auth_hourly'' ''cardinality_compaction'' 1 (h * 1000) ((h + 3600) * 1000) wall
                (od_retention (al_outbox (jd_alerts db))) of
               Inl x \<Rightarrow> Inl (JournalRetention x)
             | Inr ret \<Rightarrow> Inr (db\<lparr>jd_auth := bump_auth h kind ''_overflow'' (jd_auth db),
                 jd_alerts := (jd_alerts db)\<lparr>al_outbox := (al_outbox (jd_alerts db))\<lparr>od_retention := ret\<rparr>\<rparr>\<rparr>))"

definition AddAuth :: "bool \<Rightarrow> time \<Rightarrow> time \<Rightarrow> string \<Rightarrow> string \<Rightarrow> journal_db \<Rightarrow> (journal_error + unit) \<times> journal_db" where
  "AddAuth fault wall observed kind source db = commit_journal fault
     (case addAuth wall observed kind source db of Inl x \<Rightarrow> Inl x | Inr db' \<Rightarrow> Inr ((), db')) db"

section \<open>The SSH journal\<close>

record journal_write =
  jw_Cursor :: string
  jw_ReceivedAt :: time
  jw_ObservedAt :: time
  jw_Kind :: string
  jw_SourceRange :: string
  jw_Event :: "event option"
  jw_Notification :: "delivery list"
  jw_Trusted :: bool

definition JournalSeen :: "(string \<Rightarrow> string) \<Rightarrow> string \<Rightarrow> journal_db \<Rightarrow> bool" where
  "JournalSeen cursorHash cursor db \<longleftrightarrow> list_ex (\<lambda>(n, x, t). x = cursorHash cursor) (jd_seen db)"

definition JournalCheckpoint :: "bool \<Rightarrow> journal_db \<Rightarrow> journal_error + string \<times> int option \<times> bool" where
  "JournalCheckpoint fault db = (case jd_pending db of
     None \<Rightarrow> Inl RecoveryUnavailable
   | Some pending \<Rightarrow>
       if fault then Inl RecoveryUnavailable
       else case jd_checkpoint db of
         None \<Rightarrow> Inr ([], None, pending)
       | Some (cursor, observed, updated) \<Rightarrow> Inr (cursor, if cursor = [] then None else Some (observed * 1000), pending))"

definition setJournalRecovery :: "bool \<Rightarrow> journal_db \<Rightarrow> journal_error + journal_db" where
  "setJournalRecovery pending db = (case jd_pending db of
     None \<Rightarrow> Inl RecoveryUnavailable | Some _ \<Rightarrow> Inr (db\<lparr>jd_pending := Some pending\<rparr>))"

definition then_alert :: "(alert_db \<Rightarrow> alert_error + alert_db) \<Rightarrow> journal_db \<Rightarrow> journal_error + journal_db" where
  "then_alert f db = (case f (jd_alerts db) of Inl x \<Rightarrow> Inl (JournalAlert x) | Inr al \<Rightarrow> Inr (db\<lparr>jd_alerts := al\<rparr>))"

definition and_then :: "('e + 'a) \<Rightarrow> ('a \<Rightarrow> 'e + 'b) \<Rightarrow> 'e + 'b" where
  "and_then r f = (case r of Inl e \<Rightarrow> Inl e | Inr x \<Rightarrow> f x)"

text \<open>\<open>enqueue\<close> of a notification without an event: a full outbox only counts the rejection.\<close>

definition enqueue_alone :: "(string \<Rightarrow> json option) \<Rightarrow> time \<Rightarrow> delivery list \<Rightarrow> alert_db \<Rightarrow> alert_error + alert_db" where
  "enqueue_alone unmarshal wall ds db = (case ds of
     [] \<Rightarrow> Inr db
   | (m, fresh, key) # rest \<Rightarrow> (case enqueue unmarshal fresh key wall (m\<lparr>ms_paired := (rest \<noteq> [])\<rparr>) (al_outbox db) of
       Inl x \<Rightarrow> Inl (AlertOutbox x)
     | Inr (adm, ob) \<Rightarrow> Inr (db\<lparr>al_outbox := ob\<rparr>)))"

definition max_rowid :: "(int \<times> string \<times> int) list \<Rightarrow> int" where
  "max_rowid seen = fold max (map fst seen) 0"

definition mark_seen :: "string \<Rightarrow> time \<Rightarrow> journal_db \<Rightarrow> journal_db" where
  "mark_seen x received db = db\<lparr>jd_seen := jd_seen db @ [(max_rowid (jd_seen db) + 1, x, unix_ms received)]\<rparr>"

text \<open>What a new entry adds, inside the transaction.\<close>

definition journal_effect :: "event_codec \<Rightarrow> (string \<Rightarrow> json option) \<Rightarrow> time \<Rightarrow> time \<Rightarrow> duration \<Rightarrow> journal_write \<Rightarrow> journal_db \<Rightarrow>
    journal_error + journal_db" where
  "journal_effect c unmarshal wall now window w db0 =
     and_then (if jw_Trusted w then setJournalRecovery False db0 else Inr db0) (\<lambda>db1.
     and_then (if jw_Kind w \<noteq> [] then addAuth wall (jw_ObservedAt w) (jw_Kind w) (jw_SourceRange w) db1 else Inr db1) (\<lambda>db2.
     case jw_Event w of
       Some e \<Rightarrow> and_then (then_alert (insertEvent c e) db2)
         (then_alert (recordEventNotification unmarshal wall now window e (jw_Notification w)))
     | None \<Rightarrow> then_alert (enqueue_alone unmarshal wall (jw_Notification w)) db2))"

definition save_checkpoint :: "journal_write \<Rightarrow> time \<Rightarrow> journal_db \<Rightarrow> journal_db" where
  "save_checkpoint w wall db = db\<lparr>jd_checkpoint := Some (jw_Cursor w,
     (case jd_checkpoint db of None \<Rightarrow> unix_us (jw_ReceivedAt w) | Some (cursor, observed, updated) \<Rightarrow> max observed (unix_us (jw_ReceivedAt w))),
     unix_ms wall)\<rparr>"

definition trim_seen :: "journal_db \<Rightarrow> journal_db" where
  "trim_seen db = db\<lparr>jd_seen := filter (\<lambda>(n, x, t). \<not> (jd_seen db \<noteq> [] \<and> n \<le> max_rowid (jd_seen db) - 10000)) (jd_seen db)\<rparr>"

definition cursor_invalid :: "journal_write \<Rightarrow> bool" where
  "cursor_invalid w \<longleftrightarrow> jw_Cursor w = [] \<or> 4096 < length (jw_Cursor w) \<or>
     list_ex (\<lambda>ch. control_char ch \<or> ch = CHR '' '') (jw_Cursor w) \<or> is_zero (jw_ReceivedAt w)"

definition CommitJournal :: "bool \<Rightarrow> (string \<Rightarrow> string) \<Rightarrow> event_codec \<Rightarrow> (string \<Rightarrow> json option) \<Rightarrow> time \<Rightarrow> time \<Rightarrow> duration \<Rightarrow> journal_write \<Rightarrow>
    journal_db \<Rightarrow> (journal_error + bool) \<times> journal_db" where
  "CommitJournal fault cursorHash c unmarshal wall now window w db =
     (if cursor_invalid w then (Inl JournalInvalid, db)
      else commit_journal fault
        (let fresh = \<not> JournalSeen cursorHash (jw_Cursor w) db
         in case (if fresh then journal_effect c unmarshal wall now window w (mark_seen (cursorHash (jw_Cursor w)) (jw_ReceivedAt w) db) else Inr db) of
              Inl x \<Rightarrow> Inl x
            | Inr db1 \<Rightarrow> Inr (fresh, trim_seen (save_checkpoint w wall db1))) db)"

section \<open>Monitor states\<close>

record monitor_state =
  mn_Key :: string
  mn_Revision :: int
  mn_UpdatedAt :: time
  mn_Data :: string

definition validMonitorKey :: "string \<Rightarrow> bool" where
  "validMonitorKey key \<longleftrightarrow> key \<in> set [''budget_month_bytes'', ''budget_month_cost'', ''budget_day_bytes'', ''budget_day_growth'',
     ''health_sensor'', ''health_interface_counter'', ''health_ssh_journal'', ''health_storage'', ''health_geoip_update'']"

text \<open>A state that is too long is read as NULL, which the reader refuses like every invalid one.\<close>

definition state_unreadable :: "(string \<Rightarrow> json option) \<Rightarrow> string \<times> int \<times> int \<times> string \<Rightarrow> bool" where
  "state_unreadable unmarshal = (\<lambda>(key, revision, updated, data). 16384 < length data \<or> \<not> validMonitorKey key \<or> revision < 1 \<or> unmarshal data = None)"

definition MonitorStates :: "bool \<Rightarrow> (string \<Rightarrow> json option) \<Rightarrow> journal_db \<Rightarrow> journal_error + monitor_state list" where
  "MonitorStates fault unmarshal db =
     (let rows = take 33 (sort_by (\<lambda>a b. string_less (fst a) (fst b)) (jd_states db)) in
      if fault then Inl JournalStore
      else if 32 < length rows \<or> list_ex (state_unreadable unmarshal) rows then Inl MonitorUnreadable
      else Inr (map (\<lambda>(key, revision, updated, data). \<lparr>mn_Key = key, mn_Revision = revision, mn_UpdatedAt = updated * millisecond, mn_Data = data\<rparr>) rows))"

definition monitor_invalid :: "(string \<Rightarrow> json option) \<Rightarrow> monitor_state \<Rightarrow> int \<Rightarrow> (event \<times> delivery list) list \<Rightarrow> bool" where
  "monitor_invalid unmarshal st expected events \<longleftrightarrow> \<not> validMonitorKey (mn_Key st) \<or> expected < 0 \<or> expected = max_int64 \<or>
     is_zero (mn_UpdatedAt st) \<or> 16384 < length (mn_Data st) \<or> unmarshal (mn_Data st) = None \<or> 2 < length events"

definition monitor_events_ok :: "monitor_state \<Rightarrow> (event \<times> delivery list) list \<Rightarrow> bool" where
  "monitor_events_ok st events \<longleftrightarrow> list_all (\<lambda>(e, ds). ValidID (ev_ID e) \<and> \<not> is_zero (ev_ObservedAt e) \<and> ev_Kind e = mn_Key st) events \<and>
     distinct (map (\<lambda>(e, ds). ev_ID e) events)"

fun monitor_events :: "event_codec \<Rightarrow> (string \<Rightarrow> json option) \<Rightarrow> time \<Rightarrow> time \<Rightarrow> duration \<Rightarrow> (event \<times> delivery list) list \<Rightarrow> journal_db \<Rightarrow>
    journal_error + journal_db" where
  "monitor_events c unmarshal wall now window [] db = Inr db"
| "monitor_events c unmarshal wall now window ((e, ds) # rest) db =
    (if has_event (ev_ID e) (jd_alerts db) then Inl MonitorEventExists
     else and_then (then_alert (insertEvent c e) db) (\<lambda>db.
       and_then (then_alert (recordEventNotification unmarshal wall now window e ds) db)
         (monitor_events c unmarshal wall now window rest)))"

definition CommitMonitorState :: "bool \<Rightarrow> event_codec \<Rightarrow> (string \<Rightarrow> json option) \<Rightarrow> time \<Rightarrow> time \<Rightarrow> duration \<Rightarrow> monitor_state \<Rightarrow> int \<Rightarrow>
    (event \<times> delivery list) list \<Rightarrow> journal_db \<Rightarrow> (journal_error + unit) \<times> journal_db" where
  "CommitMonitorState fault c unmarshal wall now window st expected events db =
     (if monitor_invalid unmarshal st expected events then (Inl MonitorInvalid, db)
      else if \<not> monitor_events_ok st events then (Inl MonitorEventInvalid, db)
      else commit_journal fault
        (let (revision, updated, data) = (case map_of (jd_states db) (mn_Key st) of None \<Rightarrow> (0, 0, []) | Some x \<Rightarrow> x)
         in if revision \<noteq> expected then Inl MonitorConflict
            else if unix_ms (mn_UpdatedAt st) < updated then Inl MonitorBackwards
            else if revision = 0 \<and> 32 \<le> length (jd_states db) then Inl MonitorFull
            else case monitor_events c unmarshal wall now window events
                (db\<lparr>jd_states := AList.update (mn_Key st) (expected + 1, unix_ms (mn_UpdatedAt st), mn_Data st) (jd_states db)\<rparr>) of
                Inl x \<Rightarrow> Inl x
              | Inr db' \<Rightarrow> Inr ((), db')) db)"

section \<open>Failing calls are rolled back\<close>

lemma CommitJournal_cases:
  assumes "CommitJournal fault cursorHash c unmarshal wall now window w db = (r, db')"
  obtains (failed) x where "r = Inl x" "db' = db"
  | (seen) "r = Inr False" "JournalSeen cursorHash (jw_Cursor w) db" "db' = trim_seen (save_checkpoint w wall db)"
  | (new) db1 where "r = Inr True" "\<not> JournalSeen cursorHash (jw_Cursor w) db"
      "journal_effect c unmarshal wall now window w (mark_seen (cursorHash (jw_Cursor w)) (jw_ReceivedAt w) db) = Inr db1"
      "db' = trim_seen (save_checkpoint w wall db1)"
proof (cases "cursor_invalid w \<or> fault")
  case True
  then show ?thesis using assms by (intro failed [of "if cursor_invalid w then JournalInvalid else JournalStore"])
    (auto simp: CommitJournal_def commit_journal_def split: if_splits)
next
  case False
  then have ok: "\<not> cursor_invalid w" "\<not> fault" by auto
  note run = assms [unfolded CommitJournal_def commit_journal_def Let_def if_not_P [OF ok(1)] if_not_P [OF ok(2)]]
  show ?thesis
  proof (cases "JournalSeen cursorHash (jw_Cursor w) db")
    case True
    then show ?thesis using run by (intro seen) auto
  next
    case False
    then show ?thesis
      using run by (cases "journal_effect c unmarshal wall now window w (mark_seen (cursorHash (jw_Cursor w)) (jw_ReceivedAt w) db)")
        (auto intro: failed new)
  qed
qed

lemma CommitMonitorState_failed:
  "CommitMonitorState fault c unmarshal wall now window st expected events db = (r, db') \<Longrightarrow> r \<noteq> Inr () \<Longrightarrow> db' = db"
  by (auto simp: CommitMonitorState_def commit_journal_def Let_def split: if_splits sum.splits prod.splits)

interpretation auths: transactional "\<lambda>(fault, wall, observed, kind, source). AddAuth fault wall observed kind source"
  by unfold_locales (auto simp: AddAuth_def commit_journal_def split: if_splits sum.splits)

interpretation entries: transactional "\<lambda>(fault, wall, now, window, w). CommitJournal fault cursorHash c unmarshal wall now window w"
  for cursorHash c unmarshal
  by unfold_locales (auto elim!: CommitJournal_cases)

interpretation monitors: transactional "\<lambda>(fault, wall, now, window, st, expected, events). CommitMonitorState fault c unmarshal wall now window st expected events"
  for c unmarshal
  by unfold_locales (auto dest: CommitMonitorState_failed)

end
