(* ===== verification/OutboxQueue.thy ===== *)
theory OutboxQueue
  imports Outbox
begin

text \<open>
  The delivery side of the outbox: claims and leases (\<open>alerts.go\<close>), outcomes, pacing and operator
  actions (\<open>queue.go\<close>, \<open>store.go\<close>), receivers (\<open>notification_targets.go\<close>) and the eligibility recheck
  (\<open>eligibility.go\<close>).
\<close>

section \<open>Holds on a destination\<close>

text \<open>An instant that is not a whole number of milliseconds is rounded up, so that a hold is never cut short.\<close>

definition hold_until :: "time \<Rightarrow> int" where
  "hold_until t = (let whole = t div millisecond * millisecond in unix_ms (if t \<noteq> whole then whole + millisecond else t))"

definition hold_destination :: "string \<Rightarrow> int \<Rightarrow> outbox_db \<Rightarrow> outbox_db" where
  "hold_destination destination ms db = db\<lparr>od_cooldowns := AList.update destination
     (case map_of (od_cooldowns db) destination of None \<Rightarrow> ms | Some t \<Rightarrow> max t ms) (od_cooldowns db)\<rparr>"

definition on_hold :: "int \<Rightarrow> string \<Rightarrow> outbox_db \<Rightarrow> bool" where
  "on_hold ms destination db \<longleftrightarrow> list_ex (\<lambda>(d, t). d = destination \<and> ms < t) (od_cooldowns db)"

definition target_enabled :: "string \<Rightarrow> string \<Rightarrow> outbox_db \<Rightarrow> bool" where
  "target_enabled channel destination db \<longleftrightarrow>
     list_ex (\<lambda>t. tg_channel t = channel \<and> tg_destination t = destination \<and> tg_enabled t) (od_targets db)"

definition reachable_target :: "outbox_row \<Rightarrow> outbox_db \<Rightarrow> bool" where
  "reachable_target r db \<longleftrightarrow> ob_channel r = [] \<or> target_enabled (ob_channel r) (ob_destination r) db"

definition open_row :: "outbox_row \<Rightarrow> bool" where
  "open_row r \<longleftrightarrow> ob_sent r = None \<and> ob_quarantined r = None \<and> ob_isolated r = None \<and> ob_suppressed r = None"

definition ready_dispatch :: "string \<Rightarrow> outbox_db \<Rightarrow> bool" where
  "ready_dispatch i db \<longleftrightarrow> \<not> list_ex (\<lambda>d. dp_id d = i \<and> dp_state d \<noteq> Prepared \<and> dp_state d \<noteq> RetryReady) (od_dispatch db)"

section \<open>Claims\<close>

definition claimable :: "time \<Rightarrow> outbox_db \<Rightarrow> outbox_row \<Rightarrow> bool" where
  "claimable now db r \<longleftrightarrow> open_row r \<and> unix_ms now < ob_expires r \<and> ob_next_attempt r \<le> unix_ms now \<and>
     reachable_target r db \<and> lease_free (unix_ms now) r \<and> \<not> on_hold (unix_ms now) (ob_destination r) db \<and>
     ready_dispatch (ob_id r) db"

definition ClaimNotification :: "bool \<Rightarrow> string \<Rightarrow> time \<Rightarrow> outbox_db \<Rightarrow>
    (outbox_error + (outbox_row \<times> dispatch_row option) option) \<times> outbox_db" where
  "ClaimNotification fault i now db =
     (if \<not> ValidID i \<or> is_zero now then (Inl RequestInvalid, db)
      else transact fault
        (let P = (\<lambda>r. ob_id r = i \<and> claimable now db r)
         in if count_rows P db = 0 then Inr (None, db)
            else
              let db' = update_rows P (\<lambda>r. r\<lparr>ob_lease := Some (unix_ms (now + 2 * minute))\<rparr>) db
              in case row_of i db' of
                   None \<Rightarrow> Inl StoreFailure
                 | Some r \<Rightarrow>
                     if officialChannel (ob_channel r) \<and> dispatch_of i db' = None then Inl StoreFailure
                     else Inr (Some (r, if officialChannel (ob_channel r) then dispatch_of i db' else None), db')) db)"

definition ReleaseNotificationClaim :: "bool \<Rightarrow> string \<Rightarrow> outbox_db \<Rightarrow> (outbox_error + unit) \<times> outbox_db" where
  "ReleaseNotificationClaim fault i db = transact fault
     (Inr ((), update_rows (\<lambda>r. ob_id r = i \<and> ob_sent r = None \<and> \<not> has_dispatch (\<lambda>d. dp_state d = InFlight) (ob_id r) db)
        (\<lambda>r. r\<lparr>ob_lease := None\<rparr>) db)) db"

definition pending_less :: "outbox_row \<Rightarrow> outbox_row \<Rightarrow> bool" where
  "pending_less = then_by ob_next_attempt (<) (then_by ob_created (<) (\<lambda>r q. string_less (ob_id r) (ob_id q)))"

definition pendingDestination :: "bool \<Rightarrow> time \<Rightarrow> int \<Rightarrow> string \<Rightarrow> outbox_db \<Rightarrow>
    (outbox_error + (outbox_row \<times> dispatch_row option) list) \<times> outbox_db" where
  "pendingDestination fault now limit_rows destination db = (case ExpireNotifications fault now db of
     (Inl e, db) \<Rightarrow> (Inl e, db)
   | (Inr _, db) \<Rightarrow>
       let n = (if limit_rows < 1 \<or> 100 < limit_rows then 20 else limit_rows);
           rows = filter (\<lambda>r. claimable now db r \<and> (destination = [] \<or> ob_destination r = destination)) (od_rows db)
       in (Inr (map (\<lambda>r. (r, dispatch_of (ob_id r) db)) (take (nat n) (sort_by pending_less rows))), db))"

definition PendingDestination :: "bool \<Rightarrow> time \<Rightarrow> int \<Rightarrow> string \<Rightarrow> outbox_db \<Rightarrow>
    (outbox_error + (outbox_row \<times> dispatch_row option) list) \<times> outbox_db" where
  "PendingDestination fault now limit_rows destination db =
     (if destination = [] \<or> 128 < length destination then (Inl RequestInvalid, db)
      else pendingDestination fault now limit_rows destination db)"

definition NotificationEligible :: "string \<Rightarrow> time \<Rightarrow> outbox_db \<Rightarrow> outbox_error + bool" where
  "NotificationEligible i now db =
     (if i = [] \<or> 128 < length i \<or> is_zero now then Inl RequestInvalid
      else Inr (list_ex (\<lambda>r. ob_id r = i \<and> ob_sent r = None \<and> ob_quarantined r = None \<and> ob_suppressed r = None \<and>
        unix_ms now < ob_expires r \<and> ob_next_attempt r \<le> unix_ms now \<and> lease_free (unix_ms now) r \<and>
        \<not> on_hold (unix_ms now) (ob_destination r) db) (od_rows db)))"

section \<open>Outcomes\<close>

definition MarkSentWithCooldown :: "bool \<Rightarrow> string \<Rightarrow> time \<Rightarrow> duration \<Rightarrow> outbox_db \<Rightarrow> (outbox_error + unit) \<times> outbox_db" where
  "MarkSentWithCooldown fault i now minimum db =
     (if is_zero now \<or> minimum < 0 \<or> 24 * hour < minimum then (Inl RequestInvalid, db)
      else transact fault
        (if dispatch_of i db \<noteq> None then Inl OfficialReceiptRequired
         else
           let P = (\<lambda>r. ob_id r = i \<and> ob_sent r = None);
               db' = update_rows P (\<lambda>r. r\<lparr>ob_sent := Some (unix_ms now), ob_last_error := [], ob_lease := None\<rparr>) db
           in if count_rows P db = 0 then Inr ((), db')
              else
                let db' = (if 0 < minimum then (case row_of i db' of None \<Rightarrow> db'
                      | Some r \<Rightarrow> hold_destination (ob_destination r) (hold_until (now + minimum)) db') else db')
                in Inr ((), db'\<lparr>od_last_sent := max (od_last_sent db') (unix_ms now)\<rparr>)) db)"

definition MarkSent :: "bool \<Rightarrow> string \<Rightarrow> time \<Rightarrow> outbox_db \<Rightarrow> (outbox_error + unit) \<times> outbox_db" where
  "MarkSent fault i now = MarkSentWithCooldown fault i now 0"

definition failed_attempt :: "time \<Rightarrow> int \<Rightarrow> string \<Rightarrow> outbox_row \<Rightarrow> outbox_row" where
  "failed_attempt wall next_ms message r = r\<lparr>ob_lease := None, ob_attempts := ob_attempts r + 1, ob_next_attempt := next_ms,
     ob_last_error := limit message 512,
     ob_quarantined := (if MaxDeliveryAttempts \<le> ob_attempts r + 1 then Some (unix_ms wall) else ob_quarantined r)\<rparr>"

definition MarkFailed :: "bool \<Rightarrow> string \<Rightarrow> time \<Rightarrow> time \<Rightarrow> string \<Rightarrow> outbox_db \<Rightarrow> (outbox_error + unit) \<times> outbox_db" where
  "MarkFailed fault i wall next_time message db = transact fault
     (Inr ((), update_rows (\<lambda>r. ob_id r = i \<and> ob_sent r = None) (failed_attempt wall (unix_ms next_time) message) db)) db"

definition reservable :: "string \<Rightarrow> string \<Rightarrow> time \<Rightarrow> outbox_db \<Rightarrow> outbox_row \<Rightarrow> bool" where
  "reservable i destination now db r \<longleftrightarrow> ob_id r = i \<and> ob_destination r = destination \<and> open_row r \<and>
     lease_live (unix_ms now) r \<and> unix_ms now < ob_expires r \<and> reachable_target r db \<and>
     \<not> on_hold (unix_ms now) (ob_destination r) db"

definition ReserveNotificationAttempt :: "bool \<Rightarrow> string \<Rightarrow> string \<Rightarrow> time \<Rightarrow> duration \<Rightarrow> outbox_db \<Rightarrow>
    (outbox_error + bool) \<times> outbox_db" where
  "ReserveNotificationAttempt fault i destination now minimum db =
     (if \<not> ValidID i \<or> destination = [] \<or> 128 < length destination \<or> is_zero now \<or> minimum < second \<or> 30 * second < minimum
      then (Inl RequestInvalid, db)
      else transact fault
        (if \<not> list_ex (reservable i destination now db) (od_rows db) then Inr (False, db)
         else Inr (True, hold_destination destination (hold_until (now + minimum)) db)) db)"

definition MarkRateLimited :: "bool \<Rightarrow> string \<Rightarrow> string \<Rightarrow> time \<Rightarrow> time \<Rightarrow> string \<Rightarrow> outbox_db \<Rightarrow> (outbox_error + unit) \<times> outbox_db" where
  "MarkRateLimited fault i destination wall until reason db =
     (if destination = [] \<or> 128 < length destination \<or> is_zero until then (Inl RequestInvalid, db)
      else transact fault
        (let ms = hold_until until
         in Inr ((), update_rows (\<lambda>r. ob_id r = i \<and> ob_destination r = destination \<and> ob_sent r = None)
              (\<lambda>r. failed_attempt wall (max (ob_next_attempt r) ms) reason r) (hold_destination destination ms db))) db)"

definition quarantine :: "bool \<Rightarrow> string \<Rightarrow> time \<Rightarrow> string \<Rightarrow> bool \<Rightarrow> outbox_db \<Rightarrow> (outbox_error + unit) \<times> outbox_db" where
  "quarantine fault i now reason attempted db = transact fault
     (let P = (\<lambda>r. ob_id r = i \<and> ob_sent r = None \<and> unix_ms now < ob_expires r)
      in if count_rows P db \<noteq> 1 then Inl NotificationAbsent
         else Inr ((), update_rows P (\<lambda>r. r\<lparr>ob_lease := (if attempted then None else ob_lease r),
             ob_attempts := ob_attempts r + (if attempted then 1 else 0), ob_quarantined := Some (unix_ms now),
             ob_last_error := limit reason 512\<rparr>) db)) db"

definition MarkQuarantined :: "bool \<Rightarrow> string \<Rightarrow> time \<Rightarrow> string \<Rightarrow> outbox_db \<Rightarrow> (outbox_error + unit) \<times> outbox_db" where
  "MarkQuarantined fault i now reason = quarantine fault i now reason True"

definition QuarantineNotification :: "bool \<Rightarrow> string \<Rightarrow> time \<Rightarrow> outbox_db \<Rightarrow> (outbox_error + unit) \<times> outbox_db" where
  "QuarantineNotification fault i now = quarantine fault i now ''manually quarantined'' False"

definition RetryNotification :: "bool \<Rightarrow> string \<Rightarrow> time \<Rightarrow> outbox_db \<Rightarrow> (outbox_error + unit) \<times> outbox_db" where
  "RetryNotification fault i now db = transact fault
     (let P = (\<lambda>r. ob_id r = i \<and> ob_sent r = None \<and> ob_isolated r = None \<and> ob_suppressed r = None \<and>
            lease_free (unix_ms now) r \<and> unix_ms now < ob_expires r \<and> ready_dispatch (ob_id r) db)
      in if count_rows P db \<noteq> 1 then Inl NotificationAbsent
         else Inr ((), update_rows P (\<lambda>r. r\<lparr>ob_attempts := 0, ob_quarantined := None, ob_lease := None, ob_merge_until := 0,
             ob_next_attempt := unix_ms now, ob_last_error := []\<rparr>) db)) db"

definition ResumeDestination :: "bool \<Rightarrow> time \<Rightarrow> string \<Rightarrow> outbox_db \<Rightarrow> (outbox_error + unit) \<times> outbox_db" where
  "ResumeDestination fault wall destination db =
     (if destination = [] \<or> 128 < length destination then (Inl RequestInvalid, db)
      else transact fault
        (Inr ((), update_rows (\<lambda>r. ob_destination r = destination \<and> ob_sent r = None \<and> ob_quarantined r = None \<and>
              ob_suppressed r = None \<and> unix_ms wall < ob_expires r)
            (\<lambda>r. r\<lparr>ob_next_attempt := max (unix_ms wall) (ob_merge_until r)\<rparr>)
            (db\<lparr>od_cooldowns := filter (\<lambda>(d, t). d \<noteq> destination) (od_cooldowns db)\<rparr>))) db)"

section \<open>Receivers\<close>

definition target_row_of :: "string \<Rightarrow> outbox_db \<Rightarrow> target_row option" where
  "target_row_of channel db = find (\<lambda>t. tg_channel t = channel) (od_targets db)"

definition ConfigureNotificationTarget :: "bool \<Rightarrow> string \<Rightarrow> string \<Rightarrow> string \<Rightarrow> bool \<Rightarrow> time \<Rightarrow> outbox_db \<Rightarrow>
    (outbox_error + unit) \<times> outbox_db" where
  "ConfigureNotificationTarget fault channel destination privacy enabled0 now db =
     (if \<not> notificationChannel channel \<or> \<not> ValidID destination \<or> \<not> validNotificationTarget channel destination \<or> is_zero now \<or>
        privacy \<noteq> ''full'' \<and> privacy \<noteq> ''prefix'' \<and> privacy \<noteq> ''hash'' then (Inl RequestInvalid, db)
      else transact fault
        (let old = (case target_row_of channel db of Some t \<Rightarrow> t
               | None \<Rightarrow> \<lparr>tg_channel = channel, tg_destination = [], tg_privacy = [], tg_enabled = False, tg_activated = 0\<rparr>);
             isolate = (tg_privacy old \<noteq> [] \<and> tg_privacy old \<noteq> privacy \<and> privacy \<noteq> ''full'');
             db' = update_rows (\<lambda>r. ob_channel r = channel \<and> ob_sent r = None \<and> ob_suppressed r = None \<and> ob_isolated r = None \<and>
                 (ob_destination r \<noteq> destination \<or> isolate))
               (\<lambda>r. r\<lparr>ob_isolated := Some (unix_ms now), ob_lease := None,
                  ob_last_error := ''notification target or privacy policy changed; retained in isolation''\<rparr>) db;
             enabled = (enabled0 \<and> destination \<noteq> channel @ '':unknown'');
             activated = (if channel \<noteq> ''telegram'' \<and> channel \<noteq> ''webhook'' \<and>
                 (tg_destination old \<noteq> destination \<or> enabled \<and> (\<not> tg_enabled old \<or> tg_activated old = 0))
               then unix_ms now else tg_activated old);
             new = \<lparr>tg_channel = channel, tg_destination = destination, tg_privacy = privacy, tg_enabled = enabled, tg_activated = activated\<rparr>
         in Inr ((), db'\<lparr>od_targets := (if target_row_of channel db = None then od_targets db @ [new]
               else map (\<lambda>t. if tg_channel t = channel then new else t) (od_targets db))\<rparr>)) db)"

definition NotificationTargetActivatedAt :: "string \<Rightarrow> string \<Rightarrow> outbox_db \<Rightarrow> outbox_error + int option" where
  "NotificationTargetActivatedAt channel destination db =
     (if \<not> notificationChannel channel \<or> \<not> validNotificationTarget channel destination then Inl RequestInvalid
      else case find (\<lambda>t. tg_channel t = channel \<and> tg_destination t = destination) (od_targets db) of
        None \<Rightarrow> Inl StoreFailure
      | Some t \<Rightarrow> Inr (if tg_activated t = 0 then None else Some (tg_activated t * millisecond)))"

definition policy_permits :: "time \<Rightarrow> string \<Rightarrow> policy_row \<Rightarrow> dispatch_row \<Rightarrow> bool" where
  "policy_permits wall channel p d \<longleftrightarrow> po_enabled p \<and> \<not> po_revoked p \<and> po_optout p = 0 \<and> \<not> po_restore_hold p \<and>
     0 < po_consented p \<and> po_consented p \<le> unix_ms wall \<and> po_basis p \<noteq> [] \<and> 0 < po_messages p \<and>
     (paidOfficialChannel channel \<longrightarrow> po_cost p) \<and> dp_kind d \<in> set (po_types p)"

definition NotificationDeliveryAllowed :: "time \<Rightarrow> string \<Rightarrow> string \<Rightarrow> outbox_db \<Rightarrow> bool" where
  "NotificationDeliveryAllowed wall i destination db \<longleftrightarrow> list_ex (\<lambda>r. ob_id r = i \<and> ob_destination r = destination \<and>
     open_row r \<and> lease_live (unix_ms wall) r \<and> unix_ms wall < ob_expires r \<and> reachable_target r db \<and>
     (officialChannel (ob_channel r) \<longrightarrow> (case (map_of (od_policies db) (ob_channel r), dispatch_of i db) of
        (Some p, Some d) \<Rightarrow> dp_state d = InFlight \<and> 0 < dp_first d \<and> policy_permits wall (ob_channel r) p d
      | _ \<Rightarrow> False))) (od_rows db)"

definition discarded :: "string \<Rightarrow> outbox_row \<Rightarrow> bool" where
  "discarded channel r \<longleftrightarrow> ob_channel r = channel \<and> ob_isolated r \<noteq> None \<and> ob_sent r = None \<and> ob_suppressed r = None"

definition DiscardIsolatedNotifications :: "bool \<Rightarrow> string \<Rightarrow> time \<Rightarrow> outbox_db \<Rightarrow> (outbox_error + int) \<times> outbox_db" where
  "DiscardIsolatedNotifications fault channel now db =
     (if \<not> notificationChannel channel \<or> is_zero now then (Inl RequestInvalid, db)
      else transact fault
        (Inr (count_rows (discarded channel) db,
           update_rows (discarded channel) (\<lambda>r. r\<lparr>ob_body := [], ob_suppressed := Some (unix_ms now),
               ob_last_error := ''isolated notification explicitly discarded''\<rparr>)
             (update_dispatch (\<lambda>d. has_row (discarded channel) (dp_id d) db) (\<lambda>d. d\<lparr>dp_payload := []\<rparr>) db))) db)"

end
