(* ===== verification/Official.thy ===== *)
theory Official
  imports OutboxQueue
begin

text \<open>
  \<open>internal/store/official_dispatch.go\<close>: deliveries through a platform's official interface. A request is
  only sent after its intent was committed; an intent whose outcome is not known is never sent
  again, except on LINE, where the platform recognises the repeated key for a day. The stored list
  of notification types is the list itself rather than its JSON text.
\<close>

section \<open>Checks\<close>

fun contains :: "string \<Rightarrow> string \<Rightarrow> bool" where
  "contains [] needle = (needle = [])"
| "contains (c # s) needle = (has_prefix (c # s) needle \<or> contains s needle)"

text \<open>\<open>unicode.IsControl\<close> on a valid UTF-8 string: the ASCII controls and U+0080 to U+009F.\<close>

fun has_control :: "string \<Rightarrow> bool" where
  "has_control [] = False"
| "has_control [c] = control_char c"
| "has_control (c # d # s) = (control_char c \<or> c = CHR 0xC2 \<and> char_in CHR 0x80 CHR 0x9F d \<or> has_control (d # s))"

definition safePolicyText :: "string \<Rightarrow> bool" where
  "safePolicyText v \<longleftrightarrow> length v \<le> 256 \<and> ValidString v \<and> \<not> contains v ''://'' \<and> \<not> has_control v"

definition controlled_reasons :: "string list" where
  "controlled_reasons = [''provider_accepted'', ''delivery_unknown'', ''authentication_rejected'', ''permission_rejected'',
     ''payload_rejected'', ''rate_limited'', ''quota_exhausted'', ''recipient_unavailable'', ''recipient_opted_out'',
     ''template_rejected'', ''template_unavailable'', ''template_language_mismatch'', ''invalid_response'',
     ''retry_window_expired'', ''poll_unknown'', ''poll_complete'', ''retry_requires_resume'', ''transport_not_sent'',
     ''official_policy_changed'', ''official_delivery_error'', ''api_accepted'', ''carrier_accepted'', ''carrier_delivered'',
     ''delivery_failed'', ''payload_invalid'', ''frozen_request_invalid'', ''message_expired'', ''clock_rollback'',
     ''credential_or_permission_rejected'', ''provider_rejected'', ''request_rejected'', ''quality_or_policy_limited'',
     ''monthly_quota_exhausted'', ''token_unavailable'', ''token_response_invalid'', ''token_request_invalid'',
     ''token_rejected'', ''token_wait_canceled'', ''unconfirmed_response'', ''unconfirmed_provider_failure'',
     ''poll_response_invalid'', ''poll_receipt_invalid'', ''poll_request_invalid'', ''poll_intent_invalid'',
     ''durable_intent_required'', ''unsupported_channel'', ''template_parameter_count_invalid'',
     ''template_missing_or_unapproved'', ''template_text_too_long'', ''template_parameter_format_invalid'',
     ''template_policy_rejected'']"

definition controlledOfficialReason :: "string \<Rightarrow> string" where
  "controlledOfficialReason reason = (if reason \<in> set controlled_reasons then reason else ''official_delivery_error'')"

record channel_policy =
  cp_Enabled :: bool
  cp_ConsentedAt :: time
  cp_Purpose :: string
  cp_EvidenceRef :: string
  cp_BasisID :: string
  cp_NotificationTypes :: "string list"
  cp_Revoked :: bool
  cp_CostConfirmed :: bool
  cp_DailyMessageLimit :: int
  cp_DailySegmentLimit :: int
  cp_MaxSegments :: int
  cp_PlatformRecoveryConfirmed :: bool

definition complete_consent :: "string \<Rightarrow> channel_policy \<Rightarrow> time \<Rightarrow> bool" where
  "complete_consent channel p now \<longleftrightarrow> \<not> is_zero (cp_ConsentedAt p) \<and> cp_ConsentedAt p \<le> now \<and> cp_Purpose p \<noteq> [] \<and>
     cp_EvidenceRef p \<noteq> [] \<and> cp_NotificationTypes p \<noteq> [] \<and> 0 < cp_DailyMessageLimit p \<and>
     (paidOfficialChannel channel \<longrightarrow> cp_CostConfirmed p) \<and>
     (channel = ''twilio_sms'' \<longrightarrow> 0 < cp_DailySegmentLimit p \<and> 0 < cp_MaxSegments p)"

definition validOfficialPolicy :: "string \<Rightarrow> channel_policy \<Rightarrow> time \<Rightarrow> bool" where
  "validOfficialPolicy channel p now \<longleftrightarrow>
     officialChannel channel \<and> \<not> is_zero now \<and> 0 < unix_ms now \<and> safePolicyText (cp_Purpose p) \<and> safePolicyText (cp_EvidenceRef p) \<and>
     0 \<le> cp_DailyMessageLimit p \<and> cp_DailyMessageLimit p \<le> 1000 \<and> 0 \<le> cp_DailySegmentLimit p \<and> cp_DailySegmentLimit p \<le> 2000 \<and>
     0 \<le> cp_MaxSegments p \<and> cp_MaxSegments p \<le> 2 \<and>
     (cp_BasisID p \<noteq> [] \<longrightarrow> length (cp_BasisID p) = 32 \<and> hex_decodes (cp_BasisID p)) \<and>
     list_all (\<lambda>k. k \<in> set [''event'', ''daily'', ''test'']) (cp_NotificationTypes p) \<and> distinct (cp_NotificationTypes p) \<and>
     (cp_Enabled p \<and> \<not> cp_Revoked p \<longrightarrow> cp_BasisID p \<noteq> [] \<and> complete_consent channel p now)"

definition validProviderID :: "string \<Rightarrow> string \<Rightarrow> bool" where
  "validProviderID channel i =
     (if i = [] \<or> 256 < length i then False
      else if \<not> list_all (\<lambda>c. char_in CHR ''a'' CHR ''z'' c \<or> char_in CHR ''A'' CHR ''Z'' c \<or> char_in CHR ''0'' CHR ''9'' c \<or>
          c \<in> set ''-_.:+/='') i then False
      else if channel = ''twilio_sms'' then length i = 34 \<and> has_prefix i ''SM'' \<and> hex_decodes (drop 2 i)
      else if channel = ''whatsapp_cloud'' \<and> \<not> has_prefix i ''wamid.'' then False
      else \<not> contains i ''://'')"

definition price_char :: "nat \<times> char \<Rightarrow> bool" where
  "price_char = (\<lambda>(k, c). char_in CHR ''0'' CHR ''9'' c \<or> c = CHR ''.'' \<or> c = CHR ''-'' \<and> k = 0)"

definition validPlatformCharge :: "int option \<Rightarrow> string option \<Rightarrow> string \<Rightarrow> bool" where
  "validPlatformCharge segments price unit \<longleftrightarrow>
     (case segments of None \<Rightarrow> True | Some n \<Rightarrow> 0 \<le> n \<and> n \<le> 100) \<and>
     (length unit = 0 \<or> length unit = 3) \<and> list_all (char_in CHR ''A'' CHR ''Z'') unit \<and>
     (case price of None \<Rightarrow> True | Some p \<Rightarrow> p \<noteq> [] \<and> length p \<le> 32 \<and> unit \<noteq> [] \<and>
        list_all price_char (zip [0..<length p] p) \<and> length (filter (\<lambda>c. c = CHR ''.'') p) \<le> 1 \<and>
        list_ex (char_in CHR ''0'' CHR ''9'') p)"

definition validPollStatus :: "string \<Rightarrow> bool" where
  "validPollStatus s \<longleftrightarrow> s \<in> set [''queued'', ''accepted'', ''sending'', ''sent'', ''delivered'', ''undelivered'', ''failed'',
     ''canceled'', ''unknown'']"

definition terminalPollStatus :: "string \<Rightarrow> bool" where
  "terminalPollStatus s \<longleftrightarrow> s \<in> set [''delivered'', ''undelivered'', ''failed'', ''canceled'', ''unknown'']"

section \<open>Consent\<close>

definition set_policy :: "string \<Rightarrow> (policy_row \<Rightarrow> policy_row) \<Rightarrow> outbox_db \<Rightarrow> outbox_db" where
  "set_policy channel f db = db\<lparr>od_policies := map (\<lambda>(c, p). (c, if c = channel then f p else p)) (od_policies db)\<rparr>"

definition suppress_channel :: "string \<Rightarrow> time \<Rightarrow> string \<Rightarrow> outbox_db \<Rightarrow> outbox_db" where
  "suppress_channel channel now reason = update_rows (\<lambda>r. ob_channel r = channel \<and> holds_capacity r)
     (\<lambda>r. r\<lparr>ob_suppressed := Some (unix_ms now), ob_lease := None, ob_last_error := reason\<rparr>)"

definition ConfigureOfficialPolicy :: "bool \<Rightarrow> string \<Rightarrow> channel_policy \<Rightarrow> time \<Rightarrow> outbox_db \<Rightarrow> (outbox_error + unit) \<times> outbox_db" where
  "ConfigureOfficialPolicy fault channel p now db =
     (if \<not> validOfficialPolicy channel p now then (Inl RequestInvalid, db)
      else transact fault
        (case map_of (od_policies db) channel of
           None \<Rightarrow> Inl StoreFailure
         | Some old \<Rightarrow>
             let consented = (if is_zero (cp_ConsentedAt p) then 0 else unix_ms (cp_ConsentedAt p));
                 new_consent = (cp_BasisID p \<noteq> [] \<and> cp_BasisID p \<noteq> po_basis old \<and>
                   po_consented old < unix_ms (cp_ConsentedAt p) \<and> \<not> cp_Revoked p);
                 clear = (new_consent \<and> complete_consent channel p now \<and> cp_PlatformRecoveryConfirmed p \<and>
                   po_optout old < unix_ms (cp_ConsentedAt p));
                 db' = set_policy channel (\<lambda>q. q\<lparr>po_enabled := cp_Enabled p, po_consented := consented, po_purpose := cp_Purpose p,
                     po_evidence := cp_EvidenceRef p, po_basis := cp_BasisID p, po_types := cp_NotificationTypes p,
                     po_revoked := cp_Revoked p, po_cost := cp_CostConfirmed p, po_messages := cp_DailyMessageLimit p,
                     po_segments := cp_DailySegmentLimit p, po_max_segments := cp_MaxSegments p,
                     po_optout := (if clear then 0 else po_optout q),
                     po_optout_basis := (if clear then [] else po_optout_basis q)\<rparr>) db
             in Inr ((), if cp_Revoked p then suppress_channel channel now ''official_subscription_revoked'' db' else db')) db)"

definition persistOfficialOptout :: "string \<Rightarrow> time \<Rightarrow> outbox_db \<Rightarrow> outbox_db" where
  "persistOfficialOptout channel now db = suppress_channel channel now ''official_subscription_opted_out''
     (set_policy channel (\<lambda>q. q\<lparr>po_optout := max (po_optout q) (unix_ms now), po_optout_basis := po_basis q\<rparr>) db)"

section \<open>Authorising a request\<close>

definition readOfficialRow :: "string \<Rightarrow> outbox_db \<Rightarrow> (outbox_row \<times> dispatch_row) option" where
  "readOfficialRow i db = (case (row_of i db, dispatch_of i db) of (Some r, Some d) \<Rightarrow> Some (r, d) | _ \<Rightarrow> None)"

definition blockOfficial :: "string \<Rightarrow> string \<Rightarrow> time \<Rightarrow> bool \<Rightarrow> outbox_db \<Rightarrow> outbox_db" where
  "blockOfficial i reason now unknown db =
     update_rows (\<lambda>r. ob_id r = i \<and> ob_sent r = None)
       (\<lambda>r. r\<lparr>ob_lease := None, ob_quarantined := Some (unix_ms now), ob_last_error := reason\<rparr>)
       (update_dispatch (\<lambda>d. dp_id d = i \<and> dp_state d \<noteq> Accepted)
         (\<lambda>d. d\<lparr>dp_state := (if unknown then DeliveryUnknown else Blocked), dp_reason := reason\<rparr>) db)"

definition utc_day :: "time \<Rightarrow> int" where
  "utc_day now = go_div (now div second) 86400"

text \<open>The checks of the subscription, each overriding the reason of those before it; empty when all pass.\<close>

definition dispatch_refusal :: "time \<Rightarrow> outbox_row \<Rightarrow> dispatch_row \<Rightarrow> policy_row \<Rightarrow> string" where
  "dispatch_refusal now r d p =
     (let channel = ob_channel r; day = utc_day now;
          reason = (if \<not> po_enabled p \<or> po_revoked p then ''official_subscription_paused'' else []);
          reason = (if 0 < po_optout p then ''official_subscription_opted_out'' else reason);
          reason = (if po_restore_hold p then ''official_restore_reconciliation_required'' else reason);
          reason = (if unix_ms now < po_clock p \<or> unix_ms now < dp_last d then ''official_clock_moved_backwards'' else reason);
          reason = (if channel = ''line'' \<and> 0 < dp_first d \<and> OfficialLINEWindow \<le> time_sub now (dp_first d * millisecond)
            then ''line_retry_window_expired'' else reason)
      in if \<not> officialChannel channel then reason
         else
           let reason = (if po_consented p \<le> 0 \<or> unix_ms now < po_consented p \<or> po_purpose p = [] \<or> po_evidence p = [] \<or>
                 po_basis p = [] \<or> paidOfficialChannel channel \<and> \<not> po_cost p \<or> po_messages p = 0 \<or> dp_kind d \<notin> set (po_types p)
               then ''official_subscription_required'' else reason);
               reason = (if day < po_day p then ''official_clock_moved_backwards'' else reason);
               reason = (if channel = ''twilio_sms'' \<and> (po_segments p = 0 \<or> po_max_segments p = 0 \<or> po_max_segments p < dp_segments d)
                 then ''official_segment_limit'' else reason)
           in if paidOfficialChannel channel \<and> 0 \<le> dp_budget_day d \<and> dp_budget_day d \<noteq> day
              then ''official_budget_day_changed'' else reason)"

definition usage_of :: "string \<Rightarrow> int \<Rightarrow> outbox_db \<Rightarrow> int \<times> int" where
  "usage_of channel day db = (case find (\<lambda>u. us_channel u = channel \<and> us_day u = day) (od_usage db) of
     None \<Rightarrow> (0, 0) | Some u \<Rightarrow> (us_messages u, us_segments u))"

definition has_usage :: "string \<Rightarrow> int \<Rightarrow> outbox_db \<Rightarrow> bool" where
  "has_usage channel day db \<longleftrightarrow> list_ex (\<lambda>u. us_channel u = channel \<and> us_day u = day) (od_usage db)"

definition put_usage :: "string \<Rightarrow> int \<Rightarrow> (usage_row \<Rightarrow> usage_row) \<Rightarrow> int \<Rightarrow> int \<Rightarrow> outbox_db \<Rightarrow> outbox_db" where
  "put_usage channel day f messages segments db = db\<lparr>od_usage :=
     (if has_usage channel day db
      then map (\<lambda>u. if us_channel u = channel \<and> us_day u = day then f u else u) (od_usage db)
      else od_usage db @ [\<lparr>us_channel = channel, us_day = day, us_messages = messages, us_segments = segments\<rparr>])\<rparr>"

definition old_usage :: "string \<Rightarrow> int \<Rightarrow> usage_row \<Rightarrow> bool" where
  "old_usage channel day u \<longleftrightarrow> us_channel u = channel \<and> us_day u < day - 399"

definition debit :: "string \<Rightarrow> int \<Rightarrow> int \<Rightarrow> outbox_db \<Rightarrow> outbox_db" where
  "debit channel day segments db =
     (let db = put_usage channel day (\<lambda>u. u\<lparr>us_messages := us_messages u + 1, us_segments := us_segments u + segments\<rparr>) 1 segments db;
          pruned = int (length (filter (old_usage channel day) (od_usage db)));
          db = set_policy channel (\<lambda>q. q\<lparr>po_pruned_days := po_pruned_days q + pruned\<rparr>) db
      in db\<lparr>od_usage := filter (\<lambda>u. \<not> old_usage channel day u) (od_usage db)\<rparr>)"

definition dispatchable :: "string \<Rightarrow> time \<Rightarrow> outbox_db \<Rightarrow> outbox_row \<Rightarrow> bool" where
  "dispatchable i now db r \<longleftrightarrow> ob_id r = i \<and> open_row r \<and> lease_live (unix_ms now) r \<and> unix_ms now < ob_expires r \<and>
     target_enabled (ob_channel r) (ob_destination r) db \<and> \<not> on_hold (unix_ms now) (ob_destination r) db"

definition start_dispatch :: "string \<Rightarrow> string \<Rightarrow> string \<Rightarrow> time \<Rightarrow> duration \<Rightarrow> int \<Rightarrow> int \<Rightarrow> outbox_db \<Rightarrow> outbox_db" where
  "start_dispatch i channel destination now minimum first budget_day db =
     (let db = update_dispatch (\<lambda>d. dp_id d = i) (\<lambda>d. d\<lparr>dp_state := InFlight, dp_uncertain := True, dp_first := first,
            dp_last := unix_ms now, dp_attempt := dp_attempt d + 1, dp_budget_day := budget_day, dp_reason := []\<rparr>) db;
          db = set_policy channel (\<lambda>q. q\<lparr>po_clock := max (po_clock q) (unix_ms now), po_day := max (po_day q) (utc_day now)\<rparr>) db
      in if 0 < minimum then hold_destination destination (hold_until (now + minimum)) db else db)"

definition begin_body :: "string \<Rightarrow> string \<Rightarrow> time \<Rightarrow> duration \<Rightarrow> outbox_db \<Rightarrow>
    outbox_error + ((outbox_row \<times> dispatch_row) \<times> bool) \<times> outbox_db" where
  "begin_body i destination now minimum db = (case readOfficialRow i db of
     None \<Rightarrow> Inl StoreFailure
   | Some (r, d) \<Rightarrow>
       if ob_destination r \<noteq> destination \<or> \<not> officialChannel (ob_channel r) then Inl TargetMismatch
       else if \<not> list_ex (dispatchable i now db) (od_rows db) \<or> dp_state d \<noteq> Prepared \<and> dp_state d \<noteq> RetryReady
       then Inr (((r, d), False), db)
       else case map_of (od_policies db) (ob_channel r) of
         None \<Rightarrow> Inl StoreFailure
       | Some p \<Rightarrow>
           let channel = ob_channel r; day = utc_day now; reason = dispatch_refusal now r d p in
           if reason \<noteq> [] then Inr (((r, d), False), blockOfficial i reason now (dp_uncertain d) db)
           else
             let (messages, segments) = usage_of channel day db; fresh = dp_budget_day d < 0 in
             if fresh \<and> (po_messages p \<le> messages \<or> channel = ''twilio_sms'' \<and> po_segments p < segments + dp_segments d)
             then Inr (((r, d), False), blockOfficial i ''official_daily_budget_exhausted'' now False db)
             else
               let db = (if fresh then debit channel day (dp_segments d) db else db);
                   budget_day = (if fresh then day else dp_budget_day d) in
               if MaxDeliveryAttempts \<le> dp_attempt d
               then Inr (((r, d), False), blockOfficial i ''official_attempt_limit'' now (dp_uncertain d) db)
               else
                 let first = (if dp_first d = 0 then unix_ms now else dp_first d)
                 in Inr (((r, d\<lparr>dp_state := InFlight, dp_attempt := dp_attempt d + 1, dp_first := first\<rparr>), True),
                      start_dispatch i channel destination now minimum first budget_day db))"

definition BeginOfficialDispatch :: "bool \<Rightarrow> string \<Rightarrow> string \<Rightarrow> time \<Rightarrow> duration \<Rightarrow> outbox_db \<Rightarrow>
    (outbox_error + (outbox_row \<times> dispatch_row) \<times> bool) \<times> outbox_db" where
  "BeginOfficialDispatch fault i destination now minimum db =
     (if \<not> ValidID i \<or> 128 < length destination \<or> destination = [] \<or> is_zero now \<or> unix_ms now \<le> 0 \<or> minimum < 0 \<or>
        30 * second < minimum \<or> 0 < minimum \<and> minimum < second then (Inl RequestInvalid, db)
      else transact fault (begin_body i destination now minimum db) db)"

section \<open>Outcomes of a request\<close>

definition OfficialPollDeadline :: duration where "OfficialPollDeadline = 24 * hour"

text \<open>The start of 31 December 9999, in milliseconds.\<close>

definition far_future :: int where "far_future = 253402214400000"

record dispatch_resolution =
  rs_HTTPStatus :: int
  rs_APIErrorCode :: int
  rs_DispatchAttempt :: int
  rs_Outcome :: string
  rs_ProviderID :: string
  rs_Reason :: string
  rs_RetryAfter :: duration
  rs_Permanent :: bool
  rs_Suspend :: bool
  rs_OptOut :: bool
  rs_PollStatus :: string
  rs_PlatformSegments :: "int option"
  rs_Price :: "string option"
  rs_PriceUnit :: string

definition savePlatformCharge :: "string \<Rightarrow> int option \<Rightarrow> string option \<Rightarrow> string \<Rightarrow> outbox_db \<Rightarrow> outbox_db" where
  "savePlatformCharge i segments price unit = update_dispatch (\<lambda>d. dp_id d = i)
     (\<lambda>d. d\<lparr>dp_platform_segments := (case segments of None \<Rightarrow> dp_platform_segments d | Some n \<Rightarrow> Some n),
        dp_price := (case price of None \<Rightarrow> dp_price d | Some p \<Rightarrow> Some p),
        dp_price_unit := (if unit \<noteq> [] then unit else dp_price_unit d)\<rparr>)"

definition save_status :: "string \<Rightarrow> int \<Rightarrow> int \<Rightarrow> outbox_db \<Rightarrow> outbox_db" where
  "save_status i http api = update_dispatch (\<lambda>d. dp_id d = i) (\<lambda>d. d\<lparr>dp_http_status := http, dp_api_error := api\<rparr>)"

definition accepted_state :: "string \<Rightarrow> string \<Rightarrow> string" where
  "accepted_state channel status =
     (if channel = ''twilio_sms'' then (if validPollStatus status then status else ''queued'')
      else if status = ''api_accepted'' \<or> status = ''accepted'' \<or> channel = ''whatsapp_cloud'' \<and> status = ''held_for_quality_assessment''
      then status else ''accepted'')"

definition resolve_accepted :: "string \<Rightarrow> time \<Rightarrow> dispatch_resolution \<Rightarrow> outbox_row \<Rightarrow> dispatch_row \<Rightarrow> outbox_db \<Rightarrow> outbox_db" where
  "resolve_accepted i now res r d db =
     (let sms = (ob_channel r = ''twilio_sms''); state = accepted_state (ob_channel r) (rs_PollStatus res);
          poll_next = (if sms \<and> \<not> terminalPollStatus state then unix_ms (now + 30 * second) else 0);
          poll_end = (if sms then unix_ms (dp_first d * millisecond + OfficialPollDeadline) else 0);
          db = update_dispatch (\<lambda>d. dp_id d = i) (\<lambda>d. d\<lparr>dp_state := Accepted, dp_uncertain := False, dp_provider_id := rs_ProviderID res,
            dp_accepted_at := unix_ms now, dp_provider_state := state, dp_next_poll := poll_next, dp_poll_deadline := poll_end,
            dp_reason := []\<rparr>) db;
          db = update_rows (\<lambda>r. ob_id r = i) (\<lambda>r. r\<lparr>ob_sent := Some (unix_ms now), ob_lease := None, ob_last_error := []\<rparr>) db
      in db\<lparr>od_last_sent := max (od_last_sent db) (unix_ms now)\<rparr>)"

definition make_ready :: "string \<Rightarrow> string \<Rightarrow> int \<Rightarrow> outbox_db \<Rightarrow> outbox_db" where
  "make_ready i reason next_ms db =
     update_rows (\<lambda>r. ob_id r = i) (\<lambda>r. r\<lparr>ob_lease := None, ob_attempts := ob_attempts r + 1, ob_next_attempt := next_ms,
         ob_last_error := reason\<rparr>)
       (update_dispatch (\<lambda>d. dp_id d = i) (\<lambda>d. d\<lparr>dp_state := RetryReady, dp_reason := reason\<rparr>) db)"

definition line_may_retry :: "time \<Rightarrow> duration \<Rightarrow> dispatch_resolution \<Rightarrow> outbox_row \<Rightarrow> dispatch_row \<Rightarrow> bool" where
  "line_may_retry now wait res r d \<longleftrightarrow> ob_channel r = ''line'' \<and> \<not> rs_Suspend res \<and> dp_last d \<le> unix_ms now \<and>
     wait < OfficialLINEWindow \<and> time_sub (now + wait) (dp_first d * millisecond) < OfficialLINEWindow"

definition resolve_unknown :: "string \<Rightarrow> time \<Rightarrow> dispatch_resolution \<Rightarrow> outbox_row \<Rightarrow> dispatch_row \<Rightarrow> outbox_db \<Rightarrow> outbox_db" where
  "resolve_unknown i now res r d db =
     (let reason = controlledOfficialReason (rs_Reason res); wait = max (rs_RetryAfter res) (30 * second);
          db = (if 0 < rs_RetryAfter res \<or> ob_channel r = ''line'' then hold_destination (ob_destination r)
              (if OutboxTTL < wait \<or> rs_Suspend res then far_future else hold_until (now + wait)) db else db)
      in if line_may_retry now wait res r d then make_ready i reason (unix_ms (now + wait)) db
         else blockOfficial i (if reason = ''official_delivery_error'' then ''official_delivery_unknown'' else reason) now True db)"

definition resolve_refused :: "string \<Rightarrow> time \<Rightarrow> dispatch_resolution \<Rightarrow> outbox_row \<Rightarrow> dispatch_row \<Rightarrow> outbox_db \<Rightarrow> outbox_db" where
  "resolve_refused i now res r d db =
     (let reason = controlledOfficialReason (rs_Reason res); wait = max (rs_RetryAfter res) second;
          db = update_dispatch (\<lambda>d. dp_id d = i) (\<lambda>d. d\<lparr>dp_uncertain := False\<rparr>) db
      in if rs_Permanent res \<or> rs_Suspend res \<or> rs_OptOut res \<or> MaxDeliveryAttempts \<le> dp_attempt d \<or> OutboxTTL < rs_RetryAfter res
         then blockOfficial i reason now False db
         else
           let db = make_ready i reason (unix_ms (now + wait)) db
           in if 0 < rs_RetryAfter res then hold_destination (ob_destination r) (unix_ms (now + wait)) db else db)"

definition resolution_valid :: "dispatch_resolution \<Rightarrow> bool" where
  "resolution_valid res \<longleftrightarrow> 1 \<le> rs_DispatchAttempt res \<and> rs_DispatchAttempt res \<le> MaxDeliveryAttempts \<and>
     (rs_Outcome res = ''accepted'' \<or> rs_Outcome res = ''not_accepted'' \<or> rs_Outcome res = ''unknown'') \<and> 0 \<le> rs_RetryAfter res \<and>
     validPlatformCharge (rs_PlatformSegments res) (rs_Price res) (rs_PriceUnit res) \<and> 0 \<le> rs_HTTPStatus res \<and> rs_HTTPStatus res \<le> 599 \<and>
     0 \<le> rs_APIErrorCode res \<and> rs_APIErrorCode res \<le> 2147483647"

definition resolve_body :: "string \<Rightarrow> time \<Rightarrow> dispatch_resolution \<Rightarrow> outbox_db \<Rightarrow> outbox_error + unit \<times> outbox_db" where
  "resolve_body i now res db = (case readOfficialRow i db of
     None \<Rightarrow> Inl StoreFailure
   | Some (r, d) \<Rightarrow>
       let late = (rs_Outcome res = ''accepted'' \<and> (dp_state d = DeliveryUnknown \<or> dp_state d = RetryReady)) in
       if dp_state d \<noteq> InFlight \<and> \<not> late \<or> dp_attempt d \<noteq> rs_DispatchAttempt res then Inl ResolutionMismatch
       else if rs_Outcome res = ''accepted'' \<and> \<not> validProviderID (ob_channel r) (rs_ProviderID res) then Inl ReceiptInvalid
       else
         let db = (if rs_Outcome res = ''accepted'' then resolve_accepted i now res r d db
               else if rs_Outcome res = ''unknown'' then resolve_unknown i now res r d db else resolve_refused i now res r d db);
             db = (if rs_OptOut res then persistOfficialOptout (ob_channel r) now db else db);
             db = (if rs_Suspend res then hold_destination (ob_destination r) far_future db else db)
         in Inr ((), savePlatformCharge i (rs_PlatformSegments res) (rs_Price res) (rs_PriceUnit res)
              (save_status i (rs_HTTPStatus res) (rs_APIErrorCode res) db)))"

definition ResolveOfficialDispatch :: "bool \<Rightarrow> string \<Rightarrow> time \<Rightarrow> dispatch_resolution \<Rightarrow> outbox_db \<Rightarrow> (outbox_error + unit) \<times> outbox_db" where
  "ResolveOfficialDispatch fault i now res db =
     (if \<not> ValidID i \<or> is_zero now \<or> \<not> resolution_valid res then (Inl RequestInvalid, db)
      else transact fault (resolve_body i now res db) db)"

section \<open>Polling a receipt\<close>

definition policy_open :: "string \<Rightarrow> outbox_db \<Rightarrow> bool" where
  "policy_open channel db \<longleftrightarrow> (case map_of (od_policies db) channel of None \<Rightarrow> False
     | Some p \<Rightarrow> po_enabled p \<and> \<not> po_revoked p \<and> po_optout p = 0 \<and> \<not> po_restore_hold p)"

definition poll_target :: "string \<Rightarrow> time \<Rightarrow> outbox_db \<Rightarrow> outbox_row \<Rightarrow> bool" where
  "poll_target destination now db r \<longleftrightarrow> ob_channel r = ''twilio_sms'' \<and> ob_destination r = destination \<and>
     target_enabled (ob_channel r) (ob_destination r) db \<and> policy_open (ob_channel r) db \<and>
     \<not> on_hold (unix_ms now) (ob_destination r) db"

definition poll_due :: "time \<Rightarrow> dispatch_row \<Rightarrow> bool" where
  "poll_due now d \<longleftrightarrow> dp_state d = Accepted \<and> dp_provider_id d \<noteq> [] \<and> 0 < dp_next_poll d \<and> dp_next_poll d \<le> unix_ms now \<and>
     unix_ms now < dp_poll_deadline d \<and> dp_poll_attempts d < MaxOfficialPollAttempts \<and> dp_poll_lease d \<le> unix_ms now"

definition poll_less :: "outbox_row \<times> dispatch_row \<Rightarrow> outbox_row \<times> dispatch_row \<Rightarrow> bool" where
  "poll_less = then_by (\<lambda>x. dp_next_poll (snd x)) (<) (\<lambda>x y. string_less (ob_id (fst x)) (ob_id (fst y)))"

definition PendingOfficialPolls :: "bool \<Rightarrow> string \<Rightarrow> time \<Rightarrow> int \<Rightarrow> outbox_db \<Rightarrow>
    (outbox_error + (outbox_row \<times> dispatch_row) list) \<times> outbox_db" where
  "PendingOfficialPolls fault destination now limit_rows db =
     (if destination = [] \<or> 128 < length destination \<or> is_zero now \<or> limit_rows < 1 \<or> 100 < limit_rows then (Inl RequestInvalid, db)
      else transact fault
        (let db = expireOfficialPolls now db;
             rows = List.map_filter (\<lambda>r. if poll_target destination now db r then (case dispatch_of (ob_id r) db of
                 Some d \<Rightarrow> if poll_due now d then Some (r, d) else None | None \<Rightarrow> None) else None) (od_rows db)
         in Inr (take (nat limit_rows) (sort_by poll_less rows), db)) db)"

definition ClaimOfficialPoll :: "bool \<Rightarrow> string \<Rightarrow> string \<Rightarrow> time \<Rightarrow> outbox_db \<Rightarrow>
    (outbox_error + (outbox_row \<times> dispatch_row) option) \<times> outbox_db" where
  "ClaimOfficialPoll fault i destination now db =
     (if \<not> ValidID i \<or> destination = [] \<or> 128 < length destination \<or> is_zero now then (Inl RequestInvalid, db)
      else transact fault
        (let db = expireOfficialPolls now db in
         if \<not> (has_dispatch (poll_due now) i db \<and> has_row (poll_target destination now db) i db) then Inr (None, db)
         else
           let db = update_dispatch (\<lambda>d. dp_id d = i) (\<lambda>d. d\<lparr>dp_poll_attempts := dp_poll_attempts d + 1,
                 dp_poll_lease := unix_ms (now + 2 * minute)\<rparr>) db
           in case readOfficialRow i db of None \<Rightarrow> Inl StoreFailure | Some x \<Rightarrow> Inr (Some x, db)) db)"

definition OfficialPollAllowed :: "string \<Rightarrow> string \<Rightarrow> int \<Rightarrow> time \<Rightarrow> outbox_db \<Rightarrow> outbox_error + bool" where
  "OfficialPollAllowed i destination attempt now db =
     (if \<not> ValidID i \<or> destination = [] \<or> 128 < length destination \<or> attempt < 1 \<or> MaxOfficialPollAttempts < attempt \<or> is_zero now
      then Inl RequestInvalid
      else Inr (has_row (poll_target destination now db) i db \<and>
        has_dispatch (\<lambda>d. dp_state d = Accepted \<and> dp_provider_id d \<noteq> [] \<and> dp_poll_attempts d = attempt \<and>
          unix_ms now < dp_poll_lease d \<and> unix_ms now < dp_poll_deadline d) i db))"

record poll_resolution =
  pr_HTTPStatus :: int
  pr_APIErrorCode :: int
  pr_PollAttempt :: int
  pr_Status :: string
  pr_Reason :: string
  pr_RetryAfter :: duration
  pr_Suspend :: bool
  pr_OptOut :: bool
  pr_PlatformSegments :: "int option"
  pr_Price :: "string option"
  pr_PriceUnit :: string

definition poll_resolution_valid :: "poll_resolution \<Rightarrow> bool" where
  "poll_resolution_valid res \<longleftrightarrow> 1 \<le> pr_PollAttempt res \<and> pr_PollAttempt res \<le> MaxOfficialPollAttempts \<and>
     (pr_Status res = [] \<or> validPollStatus (pr_Status res)) \<and> 0 \<le> pr_RetryAfter res \<and>
     validPlatformCharge (pr_PlatformSegments res) (pr_Price res) (pr_PriceUnit res) \<and> 0 \<le> pr_HTTPStatus res \<and> pr_HTTPStatus res \<le> 599 \<and>
     0 \<le> pr_APIErrorCode res \<and> pr_APIErrorCode res \<le> 2147483647"

text \<open>The observed status, the next poll (0 for none) and the reason to store.\<close>

definition poll_outcome :: "time \<Rightarrow> poll_resolution \<Rightarrow> dispatch_row \<Rightarrow> string \<times> int \<times> string" where
  "poll_outcome now res d =
     (let status = (if pr_Status res = [] then dp_provider_state d else pr_Status res);
          status = (if pr_Suspend res then ''unknown'' else status);
          terminal = (status \<noteq> ''unknown'' \<and> terminalPollStatus status); wait = max (pr_RetryAfter res) (30 * second)
      in if pr_OptOut res then (''failed'', 0, ''official_subscription_opted_out'')
         else if terminal then (status, 0, [])
         else if pr_PollAttempt res < MaxOfficialPollAttempts \<and> unix_ms now < dp_poll_deadline d then
           if wait \<le> OfficialPollDeadline \<and> unix_ms (now + wait) < dp_poll_deadline d then (status, unix_ms (now + wait), [])
           else (''unknown'', 0, ''official_poll_deadline'')
         else (''unknown'', 0, ''official_poll_limit''))"

definition poll_body :: "string \<Rightarrow> time \<Rightarrow> poll_resolution \<Rightarrow> outbox_db \<Rightarrow> outbox_error + unit \<times> outbox_db" where
  "poll_body i now res db = (case readOfficialRow i db of
     None \<Rightarrow> Inl StoreFailure
   | Some (r, d) \<Rightarrow>
       if ob_channel r \<noteq> ''twilio_sms'' \<or> dp_state d \<noteq> Accepted \<or> dp_poll_attempts d \<noteq> pr_PollAttempt res \<or> dp_poll_lease d = 0
       then Inl ResolutionMismatch
       else
         let (status, next_poll, reason) = poll_outcome now res d; wait = max (pr_RetryAfter res) (30 * second);
             db = (if pr_OptOut res then persistOfficialOptout ''twilio_sms'' now db else db);
             db = (if pr_Suspend res \<or> 0 < pr_RetryAfter res then hold_destination (ob_destination r)
                 (if pr_Suspend res \<or> OutboxTTL < wait then far_future else hold_until (now + wait)) db else db);
             reason = (if reason = [] \<and> pr_Reason res \<noteq> [] then controlledOfficialReason (pr_Reason res) else reason);
             db = update_dispatch (\<lambda>d. dp_id d = i) (\<lambda>d. d\<lparr>dp_provider_state := status, dp_next_poll := next_poll, dp_poll_lease := 0,
                 dp_reason := reason\<rparr>) db
         in Inr ((), savePlatformCharge i (pr_PlatformSegments res) (pr_Price res) (pr_PriceUnit res)
              (save_status i (pr_HTTPStatus res) (pr_APIErrorCode res) db)))"

definition ResolveOfficialPoll :: "bool \<Rightarrow> string \<Rightarrow> time \<Rightarrow> poll_resolution \<Rightarrow> outbox_db \<Rightarrow> (outbox_error + unit) \<times> outbox_db" where
  "ResolveOfficialPoll fault i now res db =
     (if \<not> ValidID i \<or> is_zero now \<or> \<not> poll_resolution_valid res then (Inl RequestInvalid, db)
      else transact fault (poll_body i now res db) db)"

section \<open>Restored databases\<close>

definition ReconcileOfficialPaidChannel :: "bool \<Rightarrow> string \<Rightarrow> string \<Rightarrow> time \<Rightarrow> outbox_db \<Rightarrow> (outbox_error + unit) \<times> outbox_db" where
  "ReconcileOfficialPaidChannel fault channel reference now db =
     (if \<not> paidOfficialChannel channel \<or> reference = [] \<or> \<not> safePolicyText reference \<or> is_zero now \<or> unix_ms now \<le> 0
      then (Inl RequestInvalid, db)
      else transact fault
        (case map_of (od_policies db) channel of
           None \<Rightarrow> Inl StoreFailure
         | Some p \<Rightarrow>
             if \<not> po_restore_hold p \<or> \<not> po_enabled p \<or> po_revoked p \<or> \<not> po_cost p \<or> po_consented p \<le> 0 \<or>
               unix_ms now < po_consented p \<or> po_basis p = [] \<or> po_purpose p = [] \<or> po_evidence p = [] \<or> po_messages p \<le> 0 \<or>
               0 < po_optout p \<or> unix_ms now < po_clock p then Inl ReconciliationRefused
             else
               let day = utc_day now;
                   unsent = (\<lambda>r. ob_channel r = channel \<and> ob_sent r = None);
                   db1 = put_usage channel day (\<lambda>u. u\<lparr>us_messages := max (us_messages u) (po_messages p),
                       us_segments := max (us_segments u) (po_segments p)\<rparr>) (po_messages p) (po_segments p) db;
                   db1 = set_policy channel (\<lambda>q. q\<lparr>po_restore_hold := False, po_reference := reference,
                       po_clock := max (po_clock q) (unix_ms now), po_day := max (po_day q) day\<rparr>) db1;
                   db1 = update_dispatch (\<lambda>d. has_row unsent (dp_id d) db) (\<lambda>d. d\<lparr>dp_state := Blocked,
                       dp_reason := ''official_restored_body_requires_reconciliation''\<rparr>) db1
               in Inr ((), update_rows unsent (\<lambda>r. r\<lparr>ob_quarantined := Some (unix_ms now), ob_lease := None,
                       ob_last_error := ''official_restored_body_requires_reconciliation''\<rparr>) db1)) db)"

definition restored_unsent :: "outbox_row \<Rightarrow> bool" where
  "restored_unsent r \<longleftrightarrow> paidOfficialChannel (ob_channel r) \<and> ob_sent r = None"

text \<open>\<open>markRestoredOfficialHold\<close> on the current schema.\<close>

definition markRestoredOfficialHold :: "bool \<Rightarrow> time \<Rightarrow> outbox_db \<Rightarrow> (outbox_error + unit) \<times> outbox_db" where
  "markRestoredOfficialHold fault wall db = transact fault
     (let db1 = db\<lparr>od_policies := map (\<lambda>(c, p). (c, if paidOfficialChannel c then p\<lparr>po_restore_hold := True\<rparr> else p)) (od_policies db)\<rparr>;
          db1 = update_dispatch (\<lambda>d. dp_state d \<noteq> Accepted \<and> has_row restored_unsent (dp_id d) db)
            (\<lambda>d. d\<lparr>dp_state := (if dp_state d = InFlight then DeliveryUnknown else Blocked),
               dp_reason := ''official_restored_body_requires_reconciliation''\<rparr>) db1;
          db1 = update_rows restored_unsent
            (\<lambda>r. r\<lparr>ob_isolated := (case ob_isolated r of None \<Rightarrow> Some (unix_ms wall) | Some t \<Rightarrow> Some t),
               ob_quarantined := (case ob_quarantined r of None \<Rightarrow> Some (unix_ms wall) | Some t \<Rightarrow> Some t), ob_lease := None,
               ob_last_error := ''official_restored_body_requires_reconciliation''\<rparr>) db1
      in Inr ((), update_dispatch (\<lambda>d. has_row (\<lambda>r. ob_channel r = ''twilio_sms'') (dp_id d) db1)
           (\<lambda>d. d\<lparr>dp_provider_state := (if 0 < dp_next_poll d then ''unknown'' else dp_provider_state d), dp_next_poll := 0,
              dp_poll_lease := 0\<rparr>) db1)) db"

end
