(* ===== verification/DispatchRun.thy ===== *)
theory DispatchRun
  imports Official Alerts
begin

text \<open>
  Runs of the outbox: any sequence of the operations of \<open>Outbox\<close>, \<open>OutboxQueue\<close>, \<open>Official\<close> and \<open>Alerts\<close>. Operations that
  neither authorise nor resolve a request are quiet: they move an intent only to a state from which
  nothing is sent. The theorems bound how often a notification may reach its platform.
\<close>

section \<open>Looking rows up\<close>

lemma find_map_id:
  "(\<And>x. K (f x) \<longleftrightarrow> K x) \<Longrightarrow> find K (map f xs) = map_option f (find K xs)"
  by (induction xs) auto

lemma row_of_update [simp]:
  "(\<And>r. ob_id (f r) = ob_id r) \<Longrightarrow> row_of i (update_rows P f db) = map_option (\<lambda>r. if P r then f r else r) (row_of i db)"
  unfolding row_of_def update_rows_def by (simp add: find_map_id)

lemma dispatch_of_update [simp]:
  "(\<And>d. dp_id (f d) = dp_id d) \<Longrightarrow>
     dispatch_of i (update_dispatch P f db) = map_option (\<lambda>d. if P d then f d else d) (dispatch_of i db)"
  unfolding dispatch_of_def update_dispatch_def by (simp add: find_map_id)

lemma update_frame [simp]:
  "od_dispatch (update_rows P f db) = od_dispatch db" "od_rows (update_dispatch Q g db) = od_rows db"
  "od_policies (update_rows P f db) = od_policies db" "od_policies (update_dispatch Q g db) = od_policies db"
  "od_usage (update_rows P f db) = od_usage db" "od_usage (update_dispatch Q g db) = od_usage db"
  "od_cooldowns (update_rows P f db) = od_cooldowns db" "od_cooldowns (update_dispatch Q g db) = od_cooldowns db"
  "od_targets (update_rows P f db) = od_targets db" "od_targets (update_dispatch Q g db) = od_targets db"
  by (simp_all add: update_rows_def update_dispatch_def)

lemma lookup_frame [simp]:
  "dispatch_of i (update_rows P f db) = dispatch_of i db" "row_of i (update_dispatch Q g db) = row_of i db"
  by (simp_all add: dispatch_of_def row_of_def)

lemma set_policy_frame [simp]:
  "od_rows (set_policy c f db) = od_rows db" "od_dispatch (set_policy c f db) = od_dispatch db"
  "od_usage (set_policy c f db) = od_usage db" "od_cooldowns (set_policy c f db) = od_cooldowns db"
  by (simp_all add: set_policy_def)

lemma put_usage_frame [simp]:
  "od_rows (put_usage c day f m s db) = od_rows db" "od_dispatch (put_usage c day f m s db) = od_dispatch db"
  "od_policies (put_usage c day f m s db) = od_policies db" "od_cooldowns (put_usage c day f m s db) = od_cooldowns db"
  by (simp_all add: put_usage_def)

lemma debit_frame [simp]:
  "od_rows (debit c day s db) = od_rows db" "od_dispatch (debit c day s db) = od_dispatch db"
  "od_cooldowns (debit c day s db) = od_cooldowns db"
  by (simp_all add: debit_def Let_def)

lemma hold_frame [simp]:
  "od_rows (hold_destination d ms db) = od_rows db" "od_dispatch (hold_destination d ms db) = od_dispatch db"
  "od_policies (hold_destination d ms db) = od_policies db" "od_usage (hold_destination d ms db) = od_usage db"
  by (simp_all add: hold_destination_def)

lemma row_of_cong: "od_rows db = od_rows db' \<Longrightarrow> row_of i db = row_of i db'"
  by (simp add: row_of_def)

lemma dispatch_of_cong: "od_dispatch db = od_dispatch db' \<Longrightarrow> dispatch_of i db = dispatch_of i db'"
  by (simp add: dispatch_of_def)

lemma find_SomeD: "find K xs = Some x \<Longrightarrow> x \<in> set xs \<and> K x"
  by (induction xs) (auto split: if_splits)

lemma find_key:
  assumes "distinct (map k xs)" "x \<in> set xs"
  shows "find (\<lambda>y. k y = k x) xs = Some x"
  using assms by (induction xs) auto

lemma row_of_Some: "row_of i db = Some r \<Longrightarrow> r \<in> set (od_rows db) \<and> ob_id r = i"
  unfolding row_of_def by (rule find_SomeD)

lemma dispatch_of_Some: "dispatch_of i db = Some d \<Longrightarrow> d \<in> set (od_dispatch db) \<and> dp_id d = i"
  unfolding dispatch_of_def by (rule find_SomeD)

lemma row_of_delete:
  assumes "distinct (map ob_id (od_rows db))" "row_of i (delete_rows P db) = Some r"
  shows "row_of i db = Some r \<and> \<not> P r"
proof -
  have r: "r \<in> set (od_rows db)" "ob_id r = i" "\<not> P r"
    using find_SomeD [OF assms(2) [unfolded row_of_def]] by (auto simp: delete_rows_def)
  then show ?thesis using find_key [OF assms(1) r(1)] by (simp add: row_of_def)
qed

lemma dispatch_of_delete:
  "dispatch_of i (delete_rows P db) = (if list_ex (\<lambda>r. ob_id r = i \<and> P r) (od_rows db) then None else dispatch_of i db)"
proof -
  have "find (\<lambda>d. dp_id d = i) (filter (\<lambda>d. \<not> K (dp_id d)) ds) = (if K i then None else find (\<lambda>d. dp_id d = i) ds)"
    for K and ds :: "dispatch_row list"
    by (induction ds) auto
  from this [of "\<lambda>i. list_ex (\<lambda>r. ob_id r = i \<and> P r) (od_rows db)"] show ?thesis
    unfolding dispatch_of_def delete_rows_def by simp
qed

section \<open>Quiet changes\<close>

definition is_line :: "string \<Rightarrow> outbox_db \<Rightarrow> bool" where
  "is_line i db \<longleftrightarrow> has_row (\<lambda>r. ob_channel r = ''line'') i db"

definition keeps_row :: "outbox_row \<Rightarrow> outbox_row \<Rightarrow> bool" where
  "keeps_row r r' \<longleftrightarrow> ob_id r' = ob_id r \<and> ob_channel r' = ob_channel r \<and> ob_destination r' = ob_destination r \<and>
     ob_dedupe r' = ob_dedupe r \<and> ob_expires r' = ob_expires r \<and> (ob_sent r \<noteq> None \<longrightarrow> ob_sent r' \<noteq> None) \<and>
     (ob_suppressed r \<noteq> None \<longrightarrow> ob_suppressed r' \<noteq> None)"

definition quiet_move :: "bool \<Rightarrow> dispatch_state \<Rightarrow> dispatch_state \<Rightarrow> bool" where
  "quiet_move line s s' \<longleftrightarrow> s' = s \<or> s \<noteq> Accepted \<and> (s' = DeliveryUnknown \<or> s' = Blocked) \<or> line \<and> s = InFlight \<and> s' = RetryReady"

definition same_request :: "dispatch_row \<Rightarrow> dispatch_row \<Rightarrow> bool" where
  "same_request d d' \<longleftrightarrow> dp_id d' = dp_id d \<and> dp_kind d' = dp_kind d \<and> dp_segments d' = dp_segments d \<and>
     dp_retry_key d' = dp_retry_key d"

definition quiet_dispatch :: "bool \<Rightarrow> dispatch_row \<Rightarrow> dispatch_row \<Rightarrow> bool" where
  "quiet_dispatch line d d' \<longleftrightarrow> same_request d d' \<and> quiet_move line (dp_state d) (dp_state d') \<and> dp_first d' = dp_first d \<and>
     dp_last d' = dp_last d \<and> dp_attempt d' = dp_attempt d \<and> dp_budget_day d' = dp_budget_day d \<and>
     dp_uncertain d' = dp_uncertain d"

definition keys_ok :: "outbox_db \<Rightarrow> bool" where
  "keys_ok db \<longleftrightarrow> distinct (map ob_id (od_rows db)) \<and> (\<forall>i. dispatch_of i db \<noteq> None \<longrightarrow> row_of i db \<noteq> None)"

definition quiet :: "outbox_db \<Rightarrow> outbox_db \<Rightarrow> bool" where
  "quiet db db' \<longleftrightarrow>
     (\<forall>i r'. row_of i db' = Some r' \<longrightarrow> (\<exists>r. row_of i db = Some r \<and> keeps_row r r')) \<and>
     (\<forall>i d'. dispatch_of i db' = Some d' \<longrightarrow> (\<exists>d. dispatch_of i db = Some d \<and> quiet_dispatch (is_line i db) d d')) \<and>
     (\<forall>i d d' r'. dispatch_of i db = Some d \<longrightarrow> dispatch_of i db' = Some d' \<longrightarrow> row_of i db' = Some r' \<longrightarrow>
        dp_payload d' = dp_payload d \<or> ob_suppressed r' \<noteq> None) \<and>
     (keys_ok db \<longrightarrow> keys_ok db')"

lemma keeps_row_refl [simp]: "keeps_row r r"
  by (simp add: keeps_row_def)

lemma keeps_row_trans: "keeps_row r s \<Longrightarrow> keeps_row s t \<Longrightarrow> keeps_row r t"
  by (auto simp: keeps_row_def)

lemma quiet_dispatch_refl [simp]: "quiet_dispatch line d d"
  by (simp add: quiet_dispatch_def same_request_def quiet_move_def)

lemma quiet_dispatch_trans:
  "quiet_dispatch line d e \<Longrightarrow> quiet_dispatch line' e f \<Longrightarrow> (line' \<longrightarrow> line) \<Longrightarrow> quiet_dispatch line d f"
  by (auto simp: quiet_dispatch_def same_request_def quiet_move_def)

lemma quiet_frame: "od_rows db' = od_rows db \<Longrightarrow> od_dispatch db' = od_dispatch db \<Longrightarrow> quiet db db'"
  using row_of_cong [of db' db] dispatch_of_cong [of db' db] by (auto simp: quiet_def keys_ok_def)

lemma quiet_refl [simp]: "quiet db db"
  by (rule quiet_frame) simp_all

lemma quiet_rowD:
  assumes "quiet db db'" "row_of i db' = Some r'"
  obtains r where "row_of i db = Some r" "keeps_row r r'"
  using assms unfolding quiet_def by blast

lemma quiet_dispatchD:
  assumes "quiet db db'" "dispatch_of i db' = Some d'"
  obtains d where "dispatch_of i db = Some d" "quiet_dispatch (is_line i db) d d'"
  using assms unfolding quiet_def by blast

lemma quiet_payload:
  assumes "quiet db db'" "dispatch_of i db = Some d" "dispatch_of i db' = Some d'" "row_of i db' = Some r'"
  shows "dp_payload d' = dp_payload d \<or> ob_suppressed r' \<noteq> None"
  using assms unfolding quiet_def by blast

lemma quiet_keys: "quiet db db' \<Longrightarrow> keys_ok db \<Longrightarrow> keys_ok db'"
  by (simp add: quiet_def)

lemma quiet_line:
  assumes "quiet db db'" "is_line i db'"
  shows "is_line i db"
proof -
  obtain r' where r': "row_of i db' = Some r'" "ob_channel r' = ''line''"
    using assms(2) by (auto simp: is_line_def has_row_def split: option.splits)
  obtain r where "row_of i db = Some r" "keeps_row r r'" using quiet_rowD [OF assms(1) r'(1)] .
  then show ?thesis using r' by (simp add: is_line_def has_row_def keeps_row_def)
qed

lemma quiet_trans:
  assumes "quiet db db1" "quiet db1 db2"
  shows "quiet db db2"
  unfolding quiet_def
proof (intro conjI allI impI)
  fix i r assume "row_of i db2 = Some r"
  then obtain r1 where r1: "row_of i db1 = Some r1" "keeps_row r1 r" using quiet_rowD [OF assms(2)] by blast
  then obtain r0 where "row_of i db = Some r0" "keeps_row r0 r1" using quiet_rowD [OF assms(1)] by blast
  then show "\<exists>r0. row_of i db = Some r0 \<and> keeps_row r0 r" using r1 keeps_row_trans by blast
next
  fix i d assume "dispatch_of i db2 = Some d"
  then obtain d1 where d1: "dispatch_of i db1 = Some d1" "quiet_dispatch (is_line i db1) d1 d" using quiet_dispatchD [OF assms(2)] by blast
  then obtain d0 where "dispatch_of i db = Some d0" "quiet_dispatch (is_line i db) d0 d1" using quiet_dispatchD [OF assms(1)] by blast
  then show "\<exists>d0. dispatch_of i db = Some d0 \<and> quiet_dispatch (is_line i db) d0 d"
    using d1 quiet_dispatch_trans quiet_line [OF assms(1)] by blast
next
  fix i d d' r' assume d: "dispatch_of i db = Some d" and d': "dispatch_of i db2 = Some d'" and r': "row_of i db2 = Some r'"
  obtain d1 where d1: "dispatch_of i db1 = Some d1" using quiet_dispatchD [OF assms(2) d'] by blast
  obtain r1 where r1: "row_of i db1 = Some r1" "keeps_row r1 r'" using quiet_rowD [OF assms(2) r'] by blast
  show "dp_payload d' = dp_payload d \<or> ob_suppressed r' \<noteq> None"
    using quiet_payload [OF assms(1) d d1 r1(1)] quiet_payload [OF assms(2) d1 d' r'] r1(2) by (auto simp: keeps_row_def)
qed (use assms quiet_keys in blast)

lemma keys_ok_update_rows: "(\<And>r. ob_id (f r) = ob_id r) \<Longrightarrow> keys_ok (update_rows P f db) = keys_ok db"
proof -
  assume ids: "\<And>r. ob_id (f r) = ob_id r"
  have "map ob_id (od_rows (update_rows P f db)) = map ob_id (od_rows db)" by (simp add: update_rows_def ids)
  then show ?thesis unfolding keys_ok_def by (simp add: ids)
qed

lemma keys_ok_update_dispatch: "(\<And>d. dp_id (f d) = dp_id d) \<Longrightarrow> keys_ok (update_dispatch P f db) = keys_ok db"
  by (auto simp: keys_ok_def)

lemma quiet_update_rows:
  assumes "\<And>r. ob_id (f r) = ob_id r" "\<And>r. P r \<Longrightarrow> keeps_row r (f r)"
  shows "quiet db (update_rows P f db)"
  using assms keys_ok_update_rows [of f P db] by (auto simp: quiet_def)

lemma quiet_update_dispatch:
  assumes "\<And>d. dp_id (f d) = dp_id d" "\<And>d. dp_payload (f d) = dp_payload d"
    and "\<And>d. P d \<Longrightarrow> dispatch_of (dp_id d) db = Some d \<Longrightarrow> quiet_dispatch (is_line (dp_id d) db) d (f d)"
  shows "quiet db (update_dispatch P f db)"
  unfolding quiet_def
proof (intro conjI allI impI)
  fix i d' assume "dispatch_of i (update_dispatch P f db) = Some d'"
  then obtain d where d: "dispatch_of i db = Some d" "d' = (if P d then f d else d)" using assms(1) by auto
  then show "\<exists>d. dispatch_of i db = Some d \<and> quiet_dispatch (is_line i db) d d'"
    using assms(3) [of d] dispatch_of_Some [OF d(1)] by auto
qed (use assms(1,2) keys_ok_update_dispatch [of f P db] in auto)

lemma keys_ok_delete: "keys_ok db \<Longrightarrow> keys_ok (delete_rows P db)"
proof -
  assume ok: "keys_ok db"
  have "row_of i (delete_rows P db) \<noteq> None" if "dispatch_of i (delete_rows P db) \<noteq> None" for i
  proof -
    have d: "dispatch_of i db \<noteq> None" "\<not> list_ex (\<lambda>r. ob_id r = i \<and> P r) (od_rows db)"
      using that by (auto simp: dispatch_of_delete split: if_splits)
    then obtain r where "row_of i db = Some r" using ok unfolding keys_ok_def by blast
    then have "r \<in> set (filter (\<lambda>r. \<not> P r) (od_rows db))" "ob_id r = i"
      using row_of_Some d(2) by (fastforce simp: list_ex_iff)+
    then show ?thesis unfolding row_of_def delete_rows_def by (auto simp: find_None_iff)
  qed
  moreover have "distinct (map ob_id (od_rows (delete_rows P db)))"
    using ok by (simp add: keys_ok_def delete_rows_def distinct_map_filter)
  ultimately show ?thesis by (simp add: keys_ok_def)
qed

lemma quiet_delete: "keys_ok db \<Longrightarrow> quiet db (delete_rows P db)"
  using keys_ok_delete [of db P]
  by (auto simp: quiet_def dispatch_of_delete keys_ok_def dest!: row_of_delete split: if_splits)

lemmas quiet_after = quiet_trans [OF _ quiet_update_rows] quiet_trans [OF _ quiet_update_dispatch]
  quiet_trans [OF _ quiet_frame]

lemma transact_cases:
  assumes "transact fault r db = (res, db')"
  obtains (failed) e where "db' = db" "res = Inl e" | (committed) x where "r = Inr (x, db')" "res = Inr x"
  using assms by (auto simp: transact_def split: if_splits sum.splits)

section \<open>The quiet operations\<close>

lemma keeps_rowI [intro]:
  assumes "ob_id r' = ob_id r" "ob_channel r' = ob_channel r" "ob_destination r' = ob_destination r" "ob_dedupe r' = ob_dedupe r"
    "ob_expires r' = ob_expires r" "ob_sent r' = ob_sent r \<or> ob_sent r' \<noteq> None" "ob_suppressed r' = ob_suppressed r \<or> ob_suppressed r' \<noteq> None"
  shows "keeps_row r r'"
  using assms by (auto simp: keeps_row_def)

lemma quiet_dispatchI:
  assumes "same_request d d'" "dp_first d' = dp_first d" "dp_last d' = dp_last d" "dp_attempt d' = dp_attempt d"
    "dp_budget_day d' = dp_budget_day d" "dp_uncertain d' = dp_uncertain d"
    "dp_state d' = dp_state d \<or> dp_state d \<noteq> Accepted \<and> (dp_state d' = DeliveryUnknown \<or> dp_state d' = Blocked)"
  shows "quiet_dispatch line d d'"
  using assms by (auto simp: quiet_dispatch_def quiet_move_def)

lemma same_requestI:
  assumes "dp_id d' = dp_id d" "dp_kind d' = dp_kind d" "dp_segments d' = dp_segments d" "dp_retry_key d' = dp_retry_key d"
  shows "same_request d d'"
  using assms by (simp add: same_request_def)

lemmas quiet_rows = quiet_update_rows [OF _ keeps_rowI]
lemmas quiet_intents = quiet_update_dispatch [OF _ _ quiet_dispatchI [OF same_requestI]]

lemma suppress_channel_quiet: "quiet db (suppress_channel c now reason db)"
  unfolding suppress_channel_def by (rule quiet_rows) simp_all

lemma persistOfficialOptout_quiet: "quiet db (persistOfficialOptout c now db)"
  unfolding persistOfficialOptout_def by (rule quiet_trans [OF quiet_frame suppress_channel_quiet]) simp_all

lemma blockOfficial_quiet: "quiet db (blockOfficial i reason now unknown db)"
  unfolding blockOfficial_def by (rule quiet_trans [OF quiet_intents quiet_rows]) simp_all

lemma save_quiet: "quiet db (savePlatformCharge i n p u (save_status i h a db))"
  unfolding savePlatformCharge_def save_status_def by (rule quiet_trans [OF quiet_intents quiet_intents]) simp_all

lemma recover_in_flight_quiet: "quiet db (recover_in_flight now db)"
  unfolding recover_in_flight_def
  by (rule quiet_update_dispatch) (auto simp: quiet_dispatch_def same_request_def quiet_move_def is_line_def)

lemma close_line_window_quiet: "quiet db (close_line_window now db)"
  unfolding close_line_window_def by (rule quiet_intents) auto

lemma quarantine_stopped_quiet: "quiet db (quarantine_stopped now db)"
  unfolding quarantine_stopped_def by (rule quiet_rows) simp_all

lemma expireOfficialPolls_quiet: "quiet db (expireOfficialPolls now db)"
  unfolding expireOfficialPolls_def by (rule quiet_intents) simp_all

lemma recoverOfficialIntents_quiet: "quiet db (recoverOfficialIntents now db)"
  unfolding recoverOfficialIntents_def
  by (rule quiet_trans [OF quiet_trans [OF recover_in_flight_quiet close_line_window_quiet] quarantine_stopped_quiet])

lemma ids_update_rows: "(\<And>r. ob_id (f r) = ob_id r) \<Longrightarrow> map ob_id (od_rows (update_rows P f db)) = map ob_id (od_rows db)"
  by (simp add: update_rows_def)

lemma recover_ids [simp]: "map ob_id (od_rows (expireOfficialPolls now (recoverOfficialIntents now db))) = map ob_id (od_rows db)"
  unfolding expireOfficialPolls_def recoverOfficialIntents_def quarantine_stopped_def close_line_window_def recover_in_flight_def update_frame
  by (subst ids_update_rows) simp_all

lemma prune_outbox_Inr:
  assumes "prune_outbox reason P now db = Inr db'"
  obtains ret where "db' = (delete_rows P db)\<lparr>od_retention := ret\<rparr>"
  using assms by (auto simp: prune_outbox_def Let_def split: sum.splits)

lemma expire_body_Inr:
  assumes "expire_body now db = Inr (x, db')"
  obtains db1 where "quiet db db1" "map ob_id (od_rows db1) = map ob_id (od_rows db)"
    "od_rows db' = od_rows (delete_rows (outdated now) db1)" "od_dispatch db' = od_dispatch (delete_rows (outdated now) db1)"
    "od_policies db' = od_policies db" "od_usage db' = od_usage db"
    "db1 = expireOfficialPolls now (recoverOfficialIntents now db)"
proof -
  define db1 where "db1 = expireOfficialPolls now (recoverOfficialIntents now db)"
  define db2 where "db2 = db1\<lparr>od_expired := min (od_expired db1) (max_int64 - count_rows (outdated now) db1) + count_rows (outdated now) db1\<rparr>"
  obtain db3 where db3: "prune_outbox ''time_expiry'' (outdated now) now db2 = Inr db3"
    and db': "db' = db3\<lparr>od_cooldowns := filter (\<lambda>(d, t). \<not> t \<le> unix_ms now) (od_cooldowns db3)\<rparr>"
    using assms unfolding expire_body_def Let_def db1_def db2_def by (auto split: sum.splits)
  obtain ret where r: "db3 = (delete_rows (outdated now) db2)\<lparr>od_retention := ret\<rparr>" using db3 by (rule prune_outbox_Inr)
  show ?thesis
  proof (rule that [of db1])
    show "quiet db db1" unfolding db1_def by (rule quiet_trans [OF recoverOfficialIntents_quiet expireOfficialPolls_quiet])
    show "od_policies db' = od_policies db" "od_usage db' = od_usage db"
      by (simp_all add: db' r db2_def db1_def delete_rows_def expireOfficialPolls_def recoverOfficialIntents_def quarantine_stopped_def
        close_line_window_def recover_in_flight_def)
  qed (simp_all add: db' r db2_def db1_def delete_rows_def)
qed

lemma ExpireNotifications_quiet:
  assumes "keys_ok db" "ExpireNotifications fault now db = (res, db')"
  shows "quiet db db'"
  using assms(2) unfolding ExpireNotifications_def
proof (cases rule: transact_cases)
  case (committed x)
  then obtain db1 where db1: "quiet db db1" "map ob_id (od_rows db1) = map ob_id (od_rows db)"
    "od_rows db' = od_rows (delete_rows (outdated now) db1)" "od_dispatch db' = od_dispatch (delete_rows (outdated now) db1)"
    by (elim expire_body_Inr)
  have "quiet db1 (delete_rows (outdated now) db1)" by (rule quiet_delete [OF quiet_keys [OF db1(1) assms(1)]])
  then show ?thesis using quiet_trans [OF db1(1) quiet_trans [OF _ quiet_frame]] db1(3,4) by metis
qed simp

lemma ClaimNotification_quiet: "ClaimNotification fault i now db = (res, db') \<Longrightarrow> quiet db db'"
  unfolding ClaimNotification_def
  by (auto simp: Let_def elim!: transact_cases split: if_splits option.splits intro!: quiet_rows)

lemma ReleaseNotificationClaim_quiet: "ReleaseNotificationClaim fault i db = (res, db') \<Longrightarrow> quiet db db'"
  unfolding ReleaseNotificationClaim_def by (auto elim!: transact_cases intro!: quiet_rows)

lemma pendingDestination_quiet:
  "keys_ok db \<Longrightarrow> pendingDestination fault now n dest db = (res, db') \<Longrightarrow> quiet db db'"
  unfolding pendingDestination_def by (auto simp: Let_def dest: ExpireNotifications_quiet split: prod.splits sum.splits)

lemma MarkSentWithCooldown_quiet:
  assumes "MarkSentWithCooldown fault i now minimum db = (res, db')"
  shows "quiet db db'"
proof -
  have q: "quiet db (update_rows P (\<lambda>r. r\<lparr>ob_sent := Some (unix_ms now), ob_last_error := [], ob_lease := None\<rparr>) db)" for P
    by (rule quiet_rows) simp_all
  have "od_rows db' = od_rows db \<and> od_dispatch db' = od_dispatch db \<or>
     (\<exists>P. od_rows db' = od_rows (update_rows P (\<lambda>r. r\<lparr>ob_sent := Some (unix_ms now), ob_last_error := [], ob_lease := None\<rparr>) db) \<and>
        od_dispatch db' = od_dispatch db)"
    using assms unfolding MarkSentWithCooldown_def
    by (auto simp: Let_def elim!: transact_cases split: if_splits option.splits)
  then show ?thesis using quiet_frame [of db' db] quiet_trans [OF q quiet_frame, of db'] by auto
qed

lemma failed_attempt_keeps [simp]: "keeps_row r (failed_attempt wall ms msg r)"
  by (rule keeps_rowI) (simp_all add: failed_attempt_def)

lemma MarkFailed_quiet: "MarkFailed fault i wall t msg db = (res, db') \<Longrightarrow> quiet db db'"
  unfolding MarkFailed_def by (auto elim!: transact_cases intro!: quiet_update_rows simp: failed_attempt_def)

lemma ReserveNotificationAttempt_quiet: "ReserveNotificationAttempt fault i dest now minimum db = (res, db') \<Longrightarrow> quiet db db'"
  unfolding ReserveNotificationAttempt_def by (auto elim!: transact_cases split: if_splits intro!: quiet_frame)

lemma MarkRateLimited_quiet: "MarkRateLimited fault i dest wall until reason db = (res, db') \<Longrightarrow> quiet db db'"
  unfolding MarkRateLimited_def
  by (auto simp: Let_def elim!: transact_cases split: if_splits intro!: quiet_trans [OF quiet_frame quiet_update_rows])
    (simp_all add: failed_attempt_def)

lemma quarantine_quiet: "quarantine fault i now reason attempted db = (res, db') \<Longrightarrow> quiet db db'"
  unfolding quarantine_def by (auto simp: Let_def elim!: transact_cases split: if_splits intro!: quiet_rows)

lemma RetryNotification_quiet: "RetryNotification fault i now db = (res, db') \<Longrightarrow> quiet db db'"
  unfolding RetryNotification_def by (auto simp: Let_def elim!: transact_cases split: if_splits intro!: quiet_rows)

lemma ResumeDestination_quiet: "ResumeDestination fault wall dest db = (res, db') \<Longrightarrow> quiet db db'"
  unfolding ResumeDestination_def
  by (auto elim!: transact_cases split: if_splits intro!: quiet_trans [OF quiet_frame quiet_rows])

lemma isolate_quiet [simp]:
  "quiet db ((update_rows P (\<lambda>r. r\<lparr>ob_isolated := t, ob_lease := None, ob_last_error := e\<rparr>) db)\<lparr>od_targets := ts\<rparr>)"
  by (rule quiet_trans [OF quiet_rows quiet_frame]) simp_all

lemma ConfigureNotificationTarget_quiet:
  assumes "ConfigureNotificationTarget fault c dest privacy enabled now db = (res, db')"
  shows "quiet db db'"
proof -
  have body: "quiet db db1" if "Inr (x, (update_rows P (\<lambda>r. r\<lparr>ob_isolated := t, ob_lease := None, ob_last_error := e\<rparr>) db)\<lparr>od_targets := ts\<rparr>)
      = (Inr (y, db1) :: outbox_error + unit \<times> outbox_db)" for db1 x y P t e ts
    using that isolate_quiet by auto
  show ?thesis
  proof (cases "\<not> notificationChannel c \<or> \<not> ValidID dest \<or> \<not> validNotificationTarget c dest \<or> is_zero now \<or>
        privacy \<noteq> ''full'' \<and> privacy \<noteq> ''prefix'' \<and> privacy \<noteq> ''hash''")
    case True
    then show ?thesis using assms unfolding ConfigureNotificationTarget_def if_P [OF True] by simp
  next
    case False
    note assms [unfolded ConfigureNotificationTarget_def if_not_P [OF False] Let_def]
    then show ?thesis by (cases rule: transact_cases) (simp, erule body)
  qed
qed

text \<open>The stored request of a message is only cleared together with the message being suppressed.\<close>

lemma clear_quiet:
  assumes "\<And>r. keeps_row r (f r)" "\<And>r. ob_suppressed (f r) \<noteq> None"
  shows "quiet db (update_rows P f (update_dispatch (\<lambda>d. has_row P (dp_id d) db) (\<lambda>d. d\<lparr>dp_payload := []\<rparr>) db))"
proof -
  have ids: "ob_id (f r) = ob_id r" for r using assms(1) by (simp add: keeps_row_def)
  show ?thesis unfolding quiet_def
  proof (intro conjI allI impI, goal_cases)
    case (3 i d d' r')
    then obtain r where r: "row_of i db = Some r" "r' = (if P r then f r else r)" by (auto simp: ids)
    then show ?case using 3 dispatch_of_Some [of i db d] assms(2) by (auto simp: has_row_def split: if_splits)
  qed (use assms(1) in \<open>auto simp: ids quiet_dispatch_def same_request_def quiet_move_def keys_ok_update_rows keys_ok_update_dispatch\<close>)
qed

lemma discard_quiet [simp]:
  "quiet db (update_rows (discarded c) (\<lambda>r. r\<lparr>ob_body := [], ob_suppressed := Some t, ob_last_error := e\<rparr>)
     (update_dispatch (\<lambda>d. has_row (discarded c) (dp_id d) db) (\<lambda>d. d\<lparr>dp_payload := []\<rparr>) db))"
  by (rule clear_quiet) (auto simp: keeps_row_def)

lemma DiscardIsolatedNotifications_quiet: "DiscardIsolatedNotifications fault c now db = (res, db') \<Longrightarrow> quiet db db'"
  unfolding DiscardIsolatedNotifications_def
  by (auto elim!: transact_cases split: if_splits)

lemma set_policy_quiet [simp]:
  "quiet db (set_policy c f db)" "quiet db (suppress_channel k now reason (set_policy c f db))"
  by (rule quiet_frame quiet_trans [OF quiet_frame suppress_channel_quiet]; simp)+

lemma ConfigureOfficialPolicy_quiet: "ConfigureOfficialPolicy fault c p now db = (res, db') \<Longrightarrow> quiet db db'"
  unfolding ConfigureOfficialPolicy_def
  by (auto simp: Let_def elim!: transact_cases split: if_splits option.splits)

lemma PendingOfficialPolls_quiet: "PendingOfficialPolls fault dest now n db = (res, db') \<Longrightarrow> quiet db db'"
  unfolding PendingOfficialPolls_def
  by (auto simp: Let_def elim!: transact_cases split: if_splits intro!: expireOfficialPolls_quiet)

lemma ClaimOfficialPoll_quiet: "ClaimOfficialPoll fault i dest now db = (res, db') \<Longrightarrow> quiet db db'"
  unfolding ClaimOfficialPoll_def
  by (auto simp: Let_def elim!: transact_cases split: if_splits option.splits
    intro!: expireOfficialPolls_quiet quiet_trans [OF expireOfficialPolls_quiet quiet_intents])

lemma readOfficialRow_Some:
  "readOfficialRow i db = Some (r, d) \<longleftrightarrow> row_of i db = Some r \<and> dispatch_of i db = Some d"
  by (auto simp: readOfficialRow_def split: option.splits)

lemma poll_body_quiet:
  assumes "poll_body i now res db = Inr (x, db')"
  shows "quiet db db'"
proof -
  obtain r d where rd: "readOfficialRow i db = Some (r, d)"
    using assms by (auto simp: poll_body_def split: option.splits)
  have guard: "\<not> (ob_channel r \<noteq> ''twilio_sms'' \<or> dp_state d \<noteq> Accepted \<or> dp_poll_attempts d \<noteq> pr_PollAttempt res \<or> dp_poll_lease d = 0)"
    by (rule ccontr) (use assms in \<open>simp add: poll_body_def rd\<close>)
  obtain status next_poll reason where out: "poll_outcome now res d = (status, next_poll, reason)" by (metis prod.exhaust)
  define db1 where "db1 = (if pr_OptOut res then persistOfficialOptout ''twilio_sms'' now db else db)"
  define db2 where "db2 = (if pr_Suspend res \<or> 0 < pr_RetryAfter res then hold_destination (ob_destination r)
      (if pr_Suspend res \<or> OutboxTTL < max (pr_RetryAfter res) (30 * second) then far_future
       else hold_until (now + max (pr_RetryAfter res) (30 * second))) db1 else db1)"
  define remark where "remark = (if reason = [] \<and> pr_Reason res \<noteq> [] then controlledOfficialReason (pr_Reason res) else reason)"
  define db3 where "db3 = update_dispatch (\<lambda>d. dp_id d = i) (\<lambda>d. d\<lparr>dp_provider_state := status, dp_next_poll := next_poll,
      dp_poll_lease := 0, dp_reason := remark\<rparr>) db2"
  have db': "db' = savePlatformCharge i (pr_PlatformSegments res) (pr_Price res) (pr_PriceUnit res)
      (save_status i (pr_HTTPStatus res) (pr_APIErrorCode res) db3)"
    using assms [unfolded poll_body_def rd option.case prod.case if_not_P [OF guard] out Let_def]
    by (simp only: db3_def db2_def db1_def remark_def sum.inject prod.inject)
  have "quiet db db1" by (simp add: db1_def persistOfficialOptout_quiet)
  moreover have "quiet db1 db2" by (rule quiet_frame) (simp_all add: db2_def)
  moreover have "quiet db2 db3" unfolding db3_def by (rule quiet_intents) simp_all
  moreover have "quiet db3 db'" unfolding db' by (rule save_quiet)
  ultimately show ?thesis using quiet_trans by blast
qed

lemma ResolveOfficialPoll_quiet: "ResolveOfficialPoll fault i now res db = (out, db') \<Longrightarrow> quiet db db'"
  unfolding ResolveOfficialPoll_def by (auto elim!: transact_cases split: if_splits dest: poll_body_quiet)

text \<open>An accepted intent belongs to a sent row.\<close>

definition accepted_sent :: "outbox_db \<Rightarrow> bool" where
  "accepted_sent db \<longleftrightarrow> (\<forall>i d. dispatch_of i db = Some d \<longrightarrow> dp_state d = Accepted \<longrightarrow> has_row (\<lambda>r. ob_sent r \<noteq> None) i db)"

lemma accepted_sentD:
  "accepted_sent db \<Longrightarrow> dispatch_of i db = Some d \<Longrightarrow> dp_state d = Accepted \<Longrightarrow> row_of i db = Some r \<Longrightarrow> ob_sent r \<noteq> None"
  unfolding accepted_sent_def has_row_def by fastforce

lemma ReconcileOfficialPaidChannel_quiet:
  assumes "accepted_sent db" "ReconcileOfficialPaidChannel fault c ref now db = (res, db')"
  shows "quiet db db'"
proof -
  define unsent :: "outbox_row \<Rightarrow> bool" where "unsent = (\<lambda>r. ob_channel r = c \<and> ob_sent r = None)"
  have q1: "quiet db (update_dispatch (\<lambda>d. has_row unsent (dp_id d) db) (\<lambda>d. d\<lparr>dp_state := Blocked, dp_reason := x\<rparr>) db1)"
    if "od_rows db1 = od_rows db" "od_dispatch db1 = od_dispatch db" for db1 x
  proof (rule quiet_trans [OF quiet_frame quiet_intents])
    show "dp_state (d\<lparr>dp_state := Blocked, dp_reason := x\<rparr>) = dp_state d \<or> dp_state d \<noteq> Accepted \<and>
        (dp_state (d\<lparr>dp_state := Blocked, dp_reason := x\<rparr>) = DeliveryUnknown \<or> dp_state (d\<lparr>dp_state := Blocked, dp_reason := x\<rparr>) = Blocked)"
      if "has_row unsent (dp_id d) db" "dispatch_of (dp_id d) db1 = Some d" for d
      using that accepted_sentD [OF assms(1)] dispatch_of_cong [OF \<open>od_dispatch db1 = od_dispatch db\<close>]
      by (fastforce simp: has_row_def unsent_def split: option.splits)
  qed (simp_all add: that)
  show ?thesis using assms(2) unfolding ReconcileOfficialPaidChannel_def unsent_def [symmetric] Let_def
    by (auto elim!: transact_cases split: if_splits option.splits intro!: quiet_trans [OF q1 quiet_rows])
qed

lemma markRestoredOfficialHold_quiet:
  assumes "markRestoredOfficialHold fault wall db = (res, db')"
  shows "quiet db db'"
  using assms unfolding markRestoredOfficialHold_def Let_def
proof (cases rule: transact_cases)
  case (committed x)
  note eq = arg_cong [OF committed(1), of "\<lambda>v. snd (projr v)", unfolded sum.sel snd_conv]
  show ?thesis unfolding eq [symmetric]
    by (rule quiet_trans [OF quiet_trans [OF quiet_trans [OF quiet_frame quiet_intents] quiet_rows] quiet_intents]; (simp split: option.split)?)
qed simp

lemma lookup_other_tables [simp]:
  "row_of i (db\<lparr>od_last_sent := t\<rparr>) = row_of i db" "dispatch_of i (db\<lparr>od_last_sent := t\<rparr>) = dispatch_of i db"
  "row_of i (hold_destination x ms db) = row_of i db" "dispatch_of i (hold_destination x ms db) = dispatch_of i db"
  "row_of i (set_policy c g db) = row_of i db" "dispatch_of i (set_policy c g db) = dispatch_of i db"
  "row_of i (debit c day n db) = row_of i db" "dispatch_of i (debit c day n db) = dispatch_of i db"
  by (simp_all add: row_of_def dispatch_of_def)

lemma blockOfficial_frame [simp]:
  "od_usage (blockOfficial i x now u db) = od_usage db" "od_policies (blockOfficial i x now u db) = od_policies db"
  "od_cooldowns (blockOfficial i x now u db) = od_cooldowns db"
  by (simp_all add: blockOfficial_def)

section \<open>Authorising a request\<close>

lemma refusal_empty:
  assumes "dispatch_refusal now r d p = []" "officialChannel (ob_channel r)"
  shows "po_enabled p \<and> \<not> po_revoked p \<and> po_optout p \<le> 0 \<and> \<not> po_restore_hold p \<and> po_clock p \<le> unix_ms now \<and> dp_last d \<le> unix_ms now"
    and "ob_channel r = ''line'' \<and> 0 < dp_first d \<Longrightarrow> time_sub now (dp_first d * millisecond) < OfficialLINEWindow"
    and "0 < po_consented p \<and> po_consented p \<le> unix_ms now \<and> po_purpose p \<noteq> [] \<and> po_evidence p \<noteq> [] \<and> po_basis p \<noteq> []"
    and "paidOfficialChannel (ob_channel r) \<Longrightarrow> po_cost p" and "dp_kind d \<in> set (po_types p)" and "po_day p \<le> utc_day now"
    and "ob_channel r = ''twilio_sms'' \<Longrightarrow> dp_segments d \<le> po_max_segments p"
    and "paidOfficialChannel (ob_channel r) \<and> 0 \<le> dp_budget_day d \<Longrightarrow> dp_budget_day d = utc_day now"
  using assms unfolding dispatch_refusal_def Let_def by (auto split: if_split_asm)

lemma begin_cases:
  assumes "BeginOfficialDispatch fault i dest now minimum db = (res, db')"
  obtains (stopped) "quiet db db'" "\<And>x. res \<noteq> Inr (x, True)"
      "od_usage db' = od_usage db \<or> (\<exists>r d p. row_of i db = Some r \<and> map_of (od_policies db) (ob_channel r) = Some p \<and>
         fst (usage_of (ob_channel r) (utc_day now) db) < po_messages p \<and>
         (ob_channel r = ''twilio_sms'' \<longrightarrow> snd (usage_of (ob_channel r) (utc_day now) db) + dp_segments d \<le> po_segments p) \<and>
         dispatch_of i db = Some d \<and> od_usage db' = od_usage (debit (ob_channel r) (utc_day now) (dp_segments d) db))"
  | (started) r d p where "row_of i db = Some r" "dispatch_of i db = Some d" "dp_state d = Prepared \<or> dp_state d = RetryReady"
      "officialChannel (ob_channel r)" "ob_destination r = dest" "list_ex (dispatchable i now db) (od_rows db)"
      "map_of (od_policies db) (ob_channel r) = Some p" "dispatch_refusal now r d p = []" "dp_attempt d < MaxDeliveryAttempts"
      "dp_budget_day d < 0 \<Longrightarrow> fst (usage_of (ob_channel r) (utc_day now) db) < po_messages p \<and>
         (ob_channel r = ''twilio_sms'' \<longrightarrow> snd (usage_of (ob_channel r) (utc_day now) db) + dp_segments d \<le> po_segments p)"
      "0 < unix_ms now"
      "res = Inr ((r, d\<lparr>dp_state := InFlight, dp_attempt := dp_attempt d + 1, dp_first := (if dp_first d = 0 then unix_ms now else dp_first d)\<rparr>), True)"
      "db' = start_dispatch i (ob_channel r) dest now minimum (if dp_first d = 0 then unix_ms now else dp_first d)
         (if dp_budget_day d < 0 then utc_day now else dp_budget_day d)
         (if dp_budget_day d < 0 then debit (ob_channel r) (utc_day now) (dp_segments d) db else db)"
proof -
  have stop: thesis if "quiet db db'" "\<And>x. res \<noteq> Inr (x, True)" "od_usage db' = od_usage db"
    using stopped that by blast
  have same: thesis if "db' = db" "\<And>x. res \<noteq> Inr (x, True)" using stop that by simp
  define bad where "bad = (\<not> ValidID i \<or> 128 < length dest \<or> dest = [] \<or> is_zero now \<or> unix_ms now \<le> 0 \<or> minimum < 0 \<or>
        30 * second < minimum \<or> 0 < minimum \<and> minimum < second)"
  note run = assms [unfolded BeginOfficialDispatch_def, folded bad_def]
  show thesis
  proof (cases "bad \<or> fault")
    case True
    then show ?thesis using run same by (auto simp: transact_def split: if_splits)
  next
    case False
    then have pos: "0 < unix_ms now" by (simp add: bad_def)
    have body: "(case begin_body i dest now minimum db of Inl e \<Rightarrow> (Inl e, db) | Inr (x, db') \<Rightarrow> (Inr x, db')) = (res, db')"
      using run False by (simp add: transact_def)
    show ?thesis
    proof (cases "readOfficialRow i db")
      case None
      then show ?thesis using body same by (auto simp: begin_body_def)
    next
      case (Some rd)
      then obtain r d where rd: "readOfficialRow i db = Some (r, d)" by (cases rd) auto
      note lookup = rd [unfolded readOfficialRow_Some]
      let ?ready = "list_ex (dispatchable i now db) (od_rows db) \<and> (dp_state d = Prepared \<or> dp_state d = RetryReady)"
      show ?thesis
      proof (cases "ob_destination r = dest \<and> officialChannel (ob_channel r) \<and> ?ready \<and> map_of (od_policies db) (ob_channel r) \<noteq> None")
        case False
        then show ?thesis using body same by (auto simp: begin_body_def rd split: if_splits option.splits)
      next
        case True
        then obtain p where p: "map_of (od_policies db) (ob_channel r) = Some p" by blast
        have g1: "\<not> (ob_destination r \<noteq> dest \<or> \<not> officialChannel (ob_channel r))"
          and g2: "\<not> (\<not> list_ex (dispatchable i now db) (od_rows db) \<or> dp_state d \<noteq> Prepared \<and> dp_state d \<noteq> RetryReady)"
          using True by blast+
        obtain messages segments where u: "usage_of (ob_channel r) (utc_day now) db = (messages, segments)" by (cases "usage_of (ob_channel r) (utc_day now) db")
        note body = body [unfolded begin_body_def rd option.case prod.case if_not_P [OF g1] if_not_P [OF g2] p Let_def u]
        let ?reason = "dispatch_refusal now r d p"
        let ?full = "dp_budget_day d < 0 \<and> (po_messages p \<le> messages \<or> ob_channel r = ''twilio_sms'' \<and> po_segments p < segments + dp_segments d)"
        define db1 where "db1 = (if dp_budget_day d < 0 then debit (ob_channel r) (utc_day now) (dp_segments d) db else db)"
        have block: "quiet db (blockOfficial i x now u db2)" if "od_rows db2 = od_rows db" "od_dispatch db2 = od_dispatch db" for x u db2
          by (rule quiet_trans [OF quiet_frame blockOfficial_quiet]) (use that in simp_all)
        consider "?reason \<noteq> []" | "?reason = []" ?full | "?reason = []" "\<not> ?full" "MaxDeliveryAttempts \<le> dp_attempt d"
          | "?reason = []" "\<not> ?full" "dp_attempt d < MaxDeliveryAttempts" by linarith
        then show ?thesis
        proof cases
          case 1
          then show ?thesis using body block [of db] by (intro stop) auto
        next
          case 2
          then have eq: "res = Inr ((r, d), False)" "db' = blockOfficial i ''official_daily_budget_exhausted'' now False db"
            using body [unfolded if_P [OF 2(2)]] by simp_all
          then show ?thesis using block [of db] by (intro stop) simp_all
        next
          case 3
          then have eq: "res = Inr ((r, d), False)" "db' = blockOfficial i ''official_attempt_limit'' now (dp_uncertain d) db1"
            using body [unfolded if_not_P [OF 3(2)]] by (simp_all add: db1_def)
          have "od_rows db1 = od_rows db" "od_dispatch db1 = od_dispatch db" by (simp_all add: db1_def)
          moreover have "od_usage db' = od_usage db1" by (simp add: eq)
          ultimately show ?thesis using block [of db1] eq lookup p 3(2) u
            by (intro stopped) (auto simp: db1_def)
        next
          case 4
          then show ?thesis
            using body [unfolded if_not_P [OF 4(2)]] lookup True p u pos by (intro started) (auto simp: db1_def)
        qed
      qed
    qed
  qed
qed

section \<open>Resolving a request\<close>

text \<open>What a resolution does to the entries: other intents stay, the resolved one keeps its request.\<close>

definition resolves :: "string \<Rightarrow> (dispatch_row \<Rightarrow> dispatch_row \<Rightarrow> bool) \<Rightarrow> outbox_db \<Rightarrow> outbox_db \<Rightarrow> bool" where
  "resolves i M db db' \<longleftrightarrow>
     (\<forall>j r'. row_of j db' = Some r' \<longrightarrow> (\<exists>r. row_of j db = Some r \<and> keeps_row r r')) \<and>
     (\<forall>j d'. dispatch_of j db' = Some d' \<longrightarrow> (\<exists>d. dispatch_of j db = Some d \<and> dp_payload d' = dp_payload d \<and>
        (if j = i then same_request d d' \<and> dp_first d' = dp_first d \<and> dp_attempt d' = dp_attempt d \<and> dp_budget_day d' = dp_budget_day d \<and> M d d'
         else d' = d))) \<and>
     (keys_ok db \<longrightarrow> keys_ok db')"

definition rows_kept :: "outbox_db \<Rightarrow> outbox_db \<Rightarrow> bool" where
  "rows_kept db db' \<longleftrightarrow> (\<forall>j r'. row_of j db' = Some r' \<longrightarrow> (\<exists>r. row_of j db = Some r \<and> keeps_row r r')) \<and> (keys_ok db \<longrightarrow> keys_ok db')"

lemma rows_kept_update: "(\<And>r. ob_id (f r) = ob_id r) \<Longrightarrow> (\<And>r. P r \<Longrightarrow> keeps_row r (f r)) \<Longrightarrow> rows_kept db (update_rows P f db)"
  using keys_ok_update_rows [of f P db] by (auto simp: rows_kept_def)

lemma rows_kept_cong: "od_rows db' = od_rows db \<Longrightarrow> od_dispatch db' = od_dispatch db \<Longrightarrow> rows_kept db db'"
  using row_of_cong [of db' db] dispatch_of_cong [of db' db] by (auto simp: rows_kept_def keys_ok_def)

lemma resolves_dispatch:
  assumes "\<And>d. same_request d (f d)" "\<And>d. dp_payload (f d) = dp_payload d \<and> dp_first (f d) = dp_first d \<and> dp_attempt (f d) = dp_attempt d \<and>
      dp_budget_day (f d) = dp_budget_day d" "\<And>d. dispatch_of i db = Some d \<Longrightarrow> M d (if Q d then f d else d)"
  shows "resolves i M db (update_dispatch (\<lambda>d. dp_id d = i \<and> Q d) f db)"
proof -
  have ids: "dp_id (f d) = dp_id d" for d using assms(1) by (simp add: same_request_def)
  have "same_request d d" for d by (simp add: same_request_def)
  then show ?thesis
    unfolding resolves_def using assms ids dispatch_of_Some [of _ db] keys_ok_update_dispatch [of f _ db] by (auto split: if_splits)
qed

lemmas resolves_all = resolves_dispatch [where Q = "\<lambda>_. True", simplified]

lemma resolves_rows:
  assumes "rows_kept db db'" "\<And>j. dispatch_of j db' = dispatch_of j db"
  shows "resolves i (\<lambda>d d'. d' = d) db db'"
  using assms by (auto simp: resolves_def rows_kept_def same_request_def)

lemma resolves_trans:
  assumes "resolves i M db db1" "resolves i N db1 db2" "\<And>a b c. M a b \<Longrightarrow> N b c \<Longrightarrow> K a c"
  shows "resolves i K db db2"
  unfolding resolves_def
proof (intro conjI allI impI)
  fix j r assume "row_of j db2 = Some r"
  then obtain r1 where r1: "row_of j db1 = Some r1" "keeps_row r1 r" using assms(2) unfolding resolves_def by blast
  then obtain r0 where "row_of j db = Some r0" "keeps_row r0 r1" using assms(1) unfolding resolves_def by blast
  then show "\<exists>r0. row_of j db = Some r0 \<and> keeps_row r0 r" using r1 keeps_row_trans by blast
next
  fix j d assume d: "dispatch_of j db2 = Some d"
  obtain d1 where d1: "dispatch_of j db1 = Some d1" and e1: "dp_payload d = dp_payload d1"
    "if j = i then same_request d1 d \<and> dp_first d = dp_first d1 \<and> dp_attempt d = dp_attempt d1 \<and> dp_budget_day d = dp_budget_day d1 \<and> N d1 d else d = d1"
    using assms(2) d unfolding resolves_def by blast
  obtain d0 where d0: "dispatch_of j db = Some d0" and e0: "dp_payload d1 = dp_payload d0"
    "if j = i then same_request d0 d1 \<and> dp_first d1 = dp_first d0 \<and> dp_attempt d1 = dp_attempt d0 \<and> dp_budget_day d1 = dp_budget_day d0 \<and> M d0 d1 else d1 = d0"
    using assms(1) d1 unfolding resolves_def by blast
  show "\<exists>d0. dispatch_of j db = Some d0 \<and> dp_payload d = dp_payload d0 \<and>
      (if j = i then same_request d0 d \<and> dp_first d = dp_first d0 \<and> dp_attempt d = dp_attempt d0 \<and> dp_budget_day d = dp_budget_day d0 \<and> K d0 d else d = d0)"
    using d0 e0 e1 assms(3) by (auto simp: same_request_def split: if_splits)
qed (use assms(1,2) in \<open>auto simp: resolves_def\<close>)

lemma resolves_mono: "resolves i M db db' \<Longrightarrow> (\<And>a b. M a b \<Longrightarrow> K a b) \<Longrightarrow> resolves i K db db'"
  by (erule resolves_trans [OF _ resolves_rows [OF rows_kept_cong]]) simp_all

lemma resolves_last_sent: "resolves i M db db1 \<Longrightarrow> resolves i M db (db1\<lparr>od_last_sent := t\<rparr>)"
  by (simp add: resolves_def keys_ok_def)

lemma resolves_sent:
  assumes "resolves i M db db1"
  shows "resolves i M db (update_rows P (\<lambda>r. r\<lparr>ob_sent := Some t, ob_lease := None, ob_last_error := []\<rparr>) db1)"
  by (rule resolves_trans [OF assms resolves_rows [OF rows_kept_update]]) (simp_all add: keeps_row_def)

lemma resolves_accepted:
  assumes "row_of i db = Some r"
  shows "resolves i (\<lambda>d d'. dp_state d' = Accepted) db (resolve_accepted i now res r d db)"
    and "has_row (\<lambda>r. ob_sent r \<noteq> None) i (resolve_accepted i now res r d db)"
proof -
  show "resolves i (\<lambda>d d'. dp_state d' = Accepted) db (resolve_accepted i now res r d db)"
    unfolding resolve_accepted_def Let_def
    by (rule resolves_last_sent, rule resolves_sent, rule resolves_all) (simp_all add: same_request_def)
  show "has_row (\<lambda>r. ob_sent r \<noteq> None) i (resolve_accepted i now res r d db)"
    using assms row_of_Some [OF assms] by (simp add: has_row_def resolve_accepted_def Let_def)
qed

lemma resolves_ready: "resolves i (\<lambda>d d'. dp_state d' = RetryReady) db (make_ready i reason ms db)"
  unfolding make_ready_def
  by (rule resolves_trans [OF resolves_all resolves_rows [OF rows_kept_update [OF _ keeps_rowI]]])
    (simp_all add: same_request_def)

lemma resolves_block: "resolves i (\<lambda>d d'. dp_state d \<noteq> Accepted \<longrightarrow> dp_state d' = (if unknown then DeliveryUnknown else Blocked))
    db (blockOfficial i reason now unknown db)"
  unfolding blockOfficial_def
  by (rule resolves_trans [OF resolves_dispatch resolves_rows [OF rows_kept_update [OF _ keeps_rowI]]])
    (simp_all add: same_request_def)

lemma resolves_hold: "resolves i (\<lambda>d d'. d' = d) db (if b then hold_destination x ms db else db)"
  by (rule resolves_rows [OF rows_kept_cong]) simp_all

lemma resolves_unknown:
  "resolves i (\<lambda>e e'. dp_state e \<noteq> Accepted \<longrightarrow> dp_state e' = DeliveryUnknown \<or> ob_channel r = ''line'' \<and> dp_state e' = RetryReady)
     db (resolve_unknown i now res r d db)"
proof (cases "line_may_retry now (max (rs_RetryAfter res) (30 * second)) res r d")
  case True
  then have "ob_channel r = ''line''" by (simp add: line_may_retry_def)
  then show ?thesis unfolding resolve_unknown_def Let_def if_P [OF True]
    by (intro resolves_trans [OF resolves_hold resolves_ready]) simp
next
  case False
  show ?thesis unfolding resolve_unknown_def Let_def if_not_P [OF False]
    by (rule resolves_trans [OF resolves_hold resolves_block]) simp
qed

lemma resolves_refused:
  "resolves i (\<lambda>e e'. dp_state e \<noteq> Accepted \<longrightarrow> dp_state e' = RetryReady \<or> dp_state e' = Blocked) db (resolve_refused i now res r d db)"
proof -
  let ?db = "update_dispatch (\<lambda>d. dp_id d = i) (\<lambda>d. d\<lparr>dp_uncertain := False\<rparr>) db"
  have certain: "resolves i (\<lambda>d d'. dp_state d' = dp_state d) db ?db"
    by (rule resolves_all) (simp_all add: same_request_def)
  show ?thesis
  proof (cases "rs_Permanent res \<or> rs_Suspend res \<or> rs_OptOut res \<or> MaxDeliveryAttempts \<le> dp_attempt d \<or> OutboxTTL < rs_RetryAfter res")
    case True
    show ?thesis unfolding resolve_refused_def Let_def if_P [OF True]
      by (rule resolves_trans [OF certain resolves_block]) simp
  next
    case False
    show ?thesis unfolding resolve_refused_def Let_def if_not_P [OF False]
      by (rule resolves_trans [OF resolves_trans [OF certain resolves_ready, where K = "\<lambda>d d'. dp_state d' = RetryReady"] resolves_hold]) auto
  qed
qed

definition outcome_state :: "string \<Rightarrow> bool \<Rightarrow> dispatch_state \<Rightarrow> bool" where
  "outcome_state outcome line s \<longleftrightarrow>
     (if outcome = ''accepted'' then s = Accepted
      else if outcome = ''unknown'' then s = DeliveryUnknown \<or> line \<and> s = RetryReady
      else s = RetryReady \<or> s = Blocked)"

lemma resolve_cases:
  assumes "ResolveOfficialDispatch fault i now res db = (out, db')"
  obtains (refused) "db' = db" "out \<noteq> Inr ()"
  | (resolved) r d db1 where "row_of i db = Some r" "dispatch_of i db = Some d" "out = Inr ()" "resolution_valid res"
      "dp_state d = InFlight \<or> rs_Outcome res = ''accepted'' \<and> (dp_state d = DeliveryUnknown \<or> dp_state d = RetryReady)"
      "dp_attempt d = rs_DispatchAttempt res"
      "resolves i (\<lambda>e e'. dp_state e \<noteq> Accepted \<longrightarrow> outcome_state (rs_Outcome res) (ob_channel r = ''line'') (dp_state e')) db db1"
      "rs_Outcome res = ''accepted'' \<Longrightarrow> has_row (\<lambda>r. ob_sent r \<noteq> None) i db1" "quiet db1 db'"
proof (cases "\<not> ValidID i \<or> is_zero now \<or> \<not> resolution_valid res")
  case True
  then show ?thesis using assms refused by (auto simp: ResolveOfficialDispatch_def)
next
  case False
  note run = assms [unfolded ResolveOfficialDispatch_def if_not_P [OF False]]
  from run show ?thesis
  proof (cases rule: transact_cases)
    case failed
    then show ?thesis using refused by simp
  next
    case (committed x)
    obtain r d where rd: "readOfficialRow i db = Some (r, d)"
      using committed(1) by (auto simp: resolve_body_def split: option.splits)
    let ?late = "rs_Outcome res = ''accepted'' \<and> (dp_state d = DeliveryUnknown \<or> dp_state d = RetryReady)"
    have g1: "\<not> (dp_state d \<noteq> InFlight \<and> \<not> ?late \<or> dp_attempt d \<noteq> rs_DispatchAttempt res)"
      by (rule ccontr) (use committed(1) in \<open>simp add: resolve_body_def rd Let_def\<close>)
    have g2: "\<not> (rs_Outcome res = ''accepted'' \<and> \<not> validProviderID (ob_channel r) (rs_ProviderID res))"
      using committed(1) [unfolded resolve_body_def rd option.case prod.case Let_def if_not_P [OF g1]]
      by (rule contrapos_pn) (simp only: if_P sum.distinct not_False_eq_True)
    define db1 where "db1 = (if rs_Outcome res = ''accepted'' then resolve_accepted i now res r d db
       else if rs_Outcome res = ''unknown'' then resolve_unknown i now res r d db else resolve_refused i now res r d db)"
    define db2 where "db2 = (if rs_OptOut res then persistOfficialOptout (ob_channel r) now db1 else db1)"
    define db3 where "db3 = (if rs_Suspend res then hold_destination (ob_destination r) far_future db2 else db2)"
    have db': "db' = savePlatformCharge i (rs_PlatformSegments res) (rs_Price res) (rs_PriceUnit res)
        (save_status i (rs_HTTPStatus res) (rs_APIErrorCode res) db3)"
      using committed(1) [unfolded resolve_body_def rd option.case prod.case Let_def if_not_P [OF g1] if_not_P [OF g2]]
      by (simp only: db3_def db2_def db1_def sum.inject prod.inject)
    have "quiet db1 db2" by (simp add: db2_def persistOfficialOptout_quiet)
    moreover have "quiet db2 db3" by (rule quiet_frame) (simp_all add: db3_def)
    moreover have "quiet db3 db'" unfolding db' by (rule save_quiet)
    ultimately have q: "quiet db1 db'" using quiet_trans by blast
    have r: "row_of i db = Some r" "dispatch_of i db = Some d" using rd by (simp_all add: readOfficialRow_Some)
    have "resolves i (\<lambda>e e'. dp_state e \<noteq> Accepted \<longrightarrow> outcome_state (rs_Outcome res) (ob_channel r = ''line'') (dp_state e')) db db1"
      unfolding db1_def outcome_state_def
      by (cases "rs_Outcome res = ''accepted''"; cases "rs_Outcome res = ''unknown''")
        (auto intro: resolves_mono [OF resolves_accepted(1) [OF r(1)]] resolves_mono [OF resolves_unknown] resolves_mono [OF resolves_refused])
    moreover have "has_row (\<lambda>r. ob_sent r \<noteq> None) i db1" if "rs_Outcome res = ''accepted''"
      using that resolves_accepted(2) [OF r(1)] by (simp add: db1_def)
    ultimately show ?thesis using resolved [OF r _ _ _ _ _ _ q] committed(2) False g1 by auto
  qed
qed

section \<open>Silences\<close>

lemma with_retention_Inr:
  assumes "with_retention dataset reason starts ends now db = Inr db'"
  obtains ret where "db' = db\<lparr>al_outbox := (al_outbox db)\<lparr>od_retention := ret\<rparr>\<rparr>"
  using assms by (auto simp: with_retention_def split: sum.splits)

lemma prune_silences_Inr:
  assumes "prune_silences reason P now db = Inr db'"
  obtains ret where "al_outbox db' = (al_outbox db)\<lparr>od_retention := ret\<rparr>" "al_silences db' = filter (\<lambda>s. \<not> P s) (al_silences db)"
    "al_events db' = al_events db" "al_decisions db' = al_decisions db"
proof -
  obtain ret where "db' = (db\<lparr>al_silences := filter (\<lambda>s. \<not> P s) (al_silences db)\<rparr>)\<lparr>al_outbox :=
      (al_outbox (db\<lparr>al_silences := filter (\<lambda>s. \<not> P s) (al_silences db)\<rparr>))\<lparr>od_retention := ret\<rparr>\<rparr>"
    using assms unfolding prune_silences_def Let_def by (rule with_retention_Inr)
  then show ?thesis by (intro that [of ret]) simp_all
qed

lemma silence_body_Inr:
  assumes "silence_body i rule now db0 = Inr (x, db')"
  obtains db3 ret ret' where "al_outbox db3 = (al_outbox db0)\<lparr>od_retention := ret\<rparr>" "al_events db3 = al_events db0"
    "al_silences db' = filter (\<lambda>s. \<not> sn_revoked s \<noteq> None) (filter (\<lambda>s. \<not> sn_expires s \<le> unix_ms now) (al_silences db0)) @ [new_silence i rule now]"
    "al_outbox db' = (delete_rows (excess_suppressed now (al_outbox (suppress_matching i (silenced_rows rule now db0) now db3)))
       (al_outbox (suppress_matching i (silenced_rows rule now db0) now db3)))\<lparr>od_retention := ret'\<rparr>"
    "al_decisions db' = al_decisions (suppress_matching i (silenced_rows rule now db0) now db3)" "al_decisions db3 = al_decisions db0"
    "fst x = new_silence i rule now" "int (length (filter (\<lambda>s. \<not> sn_revoked s \<noteq> None) (filter (\<lambda>s. \<not> sn_expires s \<le> unix_ms now) (al_silences db0)))) < MaxSilences"
proof -
  obtain db1 where 1: "prune_silences ''time_expiry'' (\<lambda>s. sn_expires s \<le> unix_ms now) now db0 = Inr db1"
    using assms by (auto simp: silence_body_def split: sum.splits)
  obtain db2 where 2: "prune_silences ''capacity_eviction'' (\<lambda>s. sn_revoked s \<noteq> None) now db1 = Inr db2"
    using assms 1 by (auto simp: silence_body_def split: sum.splits)
  define db3 where "db3 = db2\<lparr>al_silences := al_silences db2 @ [new_silence i rule now]\<rparr>"
  define P where "P = silenced_rows rule now db3"
  define hit where "hit = filter P (od_rows (al_outbox db3))"
  note body = assms [unfolded silence_body_def 1 2 sum.case Let_def, folded db3_def, folded P_def, folded hit_def]
  have guards: "\<not> MaxSilences \<le> int (length (al_silences db2))" "\<not> list_ex (\<lambda>s. sn_id s = i) (al_silences db2)"
    using body by (auto split: if_splits)
  obtain db4 where 4: "with_retention ''notification_outbox'' ''silence_body_discard'' (map ob_created hit) (map ob_created hit) now db3 = Inr db4"
    using body guards by (auto split: sum.splits)
  obtain ob where 5: "prune_outbox ''capacity_eviction'' (excess_suppressed now (al_outbox (suppress_matching i P now db4))) now
      (al_outbox (suppress_matching i P now db4)) = Inr ob" and db': "db' = (suppress_matching i P now db4)\<lparr>al_outbox := ob\<rparr>" and x: "fst x = new_silence i rule now"
    using body guards 4 by (auto split: sum.splits)
  obtain ret1 where r1: "al_outbox db1 = (al_outbox db0)\<lparr>od_retention := ret1\<rparr>" "al_silences db1 = filter (\<lambda>s. \<not> sn_expires s \<le> unix_ms now) (al_silences db0)"
    "al_events db1 = al_events db0" "al_decisions db1 = al_decisions db0" using 1 by (rule prune_silences_Inr)
  obtain ret2 where r2: "al_outbox db2 = (al_outbox db1)\<lparr>od_retention := ret2\<rparr>" "al_silences db2 = filter (\<lambda>s. \<not> sn_revoked s \<noteq> None) (al_silences db1)"
    "al_events db2 = al_events db1" "al_decisions db2 = al_decisions db1" using 2 by (rule prune_silences_Inr)
  obtain ret4 where r4: "db4 = db3\<lparr>al_outbox := (al_outbox db3)\<lparr>od_retention := ret4\<rparr>\<rparr>" using 4 by (rule with_retention_Inr)
  obtain ret5 where r5: "ob = (delete_rows (excess_suppressed now (al_outbox (suppress_matching i P now db4)))
      (al_outbox (suppress_matching i P now db4)))\<lparr>od_retention := ret5\<rparr>" using 5 by (rule prune_outbox_Inr)
  have P: "P = silenced_rows rule now db0" by (simp add: fun_eq_iff P_def silenced_rows_def db3_def r2 r1)
  show ?thesis
    by (rule that [of db4 ret4 ret5]) (use guards in \<open>simp_all add: db' r5 r4 r2 r1 P db3_def suppress_matching_def x\<close>)
qed

lemma AddSilence_quiet:
  assumes "AddSilence fault i rule now al = (silenced, al')" "keys_ok (al_outbox al)"
  shows "quiet (al_outbox al) (al_outbox al')"
proof (cases "al' = al")
  case False
  then obtain x where "silence_body i rule now al = Inr (x, al')"
    using assms(1) by (auto simp: AddSilence_def commit_alert_def split: if_splits sum.splits)
  then obtain db3 ret ret' where s: "al_outbox db3 = (al_outbox al)\<lparr>od_retention := ret\<rparr>"
    "al_outbox al' = (delete_rows (excess_suppressed now (al_outbox (suppress_matching i (silenced_rows rule now al) now db3)))
       (al_outbox (suppress_matching i (silenced_rows rule now al) now db3)))\<lparr>od_retention := ret'\<rparr>"
    by (rule silence_body_Inr)
  define ob where "ob = al_outbox (suppress_matching i (silenced_rows rule now al) now db3)"
  have "quiet (al_outbox al) (al_outbox db3)" by (rule quiet_frame) (simp_all add: s)
  moreover have "quiet (al_outbox db3) ob" unfolding ob_def suppress_matching_def
    by simp (rule clear_quiet, auto simp: keeps_row_def)
  ultimately have q: "quiet (al_outbox al) ob" by (rule quiet_trans)
  have "quiet ob (delete_rows (excess_suppressed now ob) ob)" by (rule quiet_delete [OF quiet_keys [OF q assms(2)]])
  then have "quiet ob (al_outbox al')" unfolding s(2) ob_def [symmetric]
    by (rule quiet_trans [OF _ quiet_frame]) simp_all
  then show ?thesis by (rule quiet_trans [OF q])
qed simp

section \<open>Admission\<close>

lemma find_append: "find K (xs @ ys) = (case find K xs of None \<Rightarrow> find K ys | Some x \<Rightarrow> Some x)"
  by (induction xs) auto

definition inserts :: "string \<Rightarrow> outbox_db \<Rightarrow> outbox_db \<Rightarrow> bool" where
  "inserts i db db' \<longleftrightarrow> row_of i db = None \<and> (\<forall>j. j \<noteq> i \<longrightarrow> row_of j db' = row_of j db \<and> dispatch_of j db' = dispatch_of j db) \<and>
     (\<exists>r'. row_of i db' = Some r' \<and> (\<forall>d'. dispatch_of i db = None \<longrightarrow> dispatch_of i db' = Some d' \<longrightarrow>
        officialChannel (ob_channel r') \<and> 0 \<le> dp_segments d' \<and> (ob_channel r' \<noteq> ''twilio_sms'' \<longrightarrow> dp_segments d' = 0) \<and> dp_attempt d' = 0 \<and> dp_first d' = 0 \<and> (dp_state d' = Prepared \<or> dp_state d' = Blocked))) \<and>
     (keys_ok db \<longrightarrow> keys_ok db') \<and> od_usage db' = od_usage db \<and> od_policies db' = od_policies db"

lemma limit_ascii:
  assumes "notificationChannel c"
  shows "limit c 32 = c"
  using assms unfolding notificationChannel_def notificationChannels_def by (auto; code_simp)

lemma official_is_channel: "officialChannel c \<Longrightarrow> notificationChannel c"
  by (auto simp: officialChannel_def paidOfficialChannel_def notificationChannel_def notificationChannels_def)

lemma inserts_update:
  assumes "inserts i db db1" "\<And>r. ob_id (f r) = ob_id r" "\<And>r. ob_channel (f r) = ob_channel r"
  shows "inserts i db (update_rows (\<lambda>r. ob_id r = i) f db1)"
proof -
  have "row_of j (update_rows (\<lambda>r. ob_id r = i) f db1) = row_of j db" if "j \<noteq> i" for j
    using that assms(1) row_of_Some [of j db] by (auto simp: assms(2) inserts_def map_option_case split: option.split)
  moreover obtain r where "row_of i db1 = Some r" "ob_id r = i" using assms(1) row_of_Some by (force simp: inserts_def)
  ultimately show ?thesis using assms keys_ok_update_rows [of f _ db1] unfolding inserts_def by auto
qed

lemma insert_intent_inserts:
  assumes "row_of i db = None" "ms_ID m = i" "ob_id r = i" "officialChannel (ms_Channel m) \<Longrightarrow> ob_channel r = ms_Channel m"
    "officialChannel (ms_Channel m) \<Longrightarrow> 0 \<le> ms_EstimatedSegments m \<and> (ms_Channel m \<noteq> ''twilio_sms'' \<longrightarrow> ms_EstimatedSegments m = 0)"
  shows "inserts i db (insertOfficialIntent key wall m (db\<lparr>od_rows := od_rows db @ [r]\<rparr>))"
proof -
  define db1 where "db1 = db\<lparr>od_rows := od_rows db @ [r],
    od_dispatch := od_dispatch db @ (if officialChannel (ms_Channel m) then [new_intent (if ms_Channel m = ''line'' then key else []) m] else [])\<rparr>"
  define f where "f = (\<lambda>r :: outbox_row. r\<lparr>ob_quarantined := Some (unix_ms wall), ob_last_error := ms_AdmissionFailure m\<rparr>)"
  have db': "insertOfficialIntent key wall m (db\<lparr>od_rows := od_rows db @ [r]\<rparr>) =
     (if officialChannel (ms_Channel m) \<and> ms_AdmissionFailure m \<noteq> [] then update_rows (\<lambda>r. ob_id r = i) f db1 else db1)"
    unfolding insertOfficialIntent_def db1_def f_def Let_def by (simp add: assms(2))
  have rows: "row_of j db1 = (if j = i then Some r else row_of j db)" for j
    using assms(1,3) by (auto simp: row_of_def db1_def find_append split: option.splits)
  have disp: "dispatch_of j db1 = dispatch_of j db" if "j \<noteq> i" for j
    using that assms(2) by (auto simp: dispatch_of_def db1_def find_append new_intent_def split: option.splits)
  have disp_i: "dispatch_of i db = None \<Longrightarrow> dispatch_of i db1 = Some d' \<Longrightarrow> officialChannel (ms_Channel m) \<and>
      d' = new_intent (if ms_Channel m = ''line'' then key else []) m" for d'
    using assms(2) by (auto simp: dispatch_of_def db1_def find_append new_intent_def split: if_splits)
  have "i \<notin> ob_id ` set (od_rows db)" using assms(1) by (auto simp: row_of_def find_None_iff)
  then have keys: "keys_ok db \<Longrightarrow> keys_ok db1"
    unfolding keys_ok_def rows using disp assms(3) by (auto simp: db1_def)
  have "inserts i db db1"
    unfolding inserts_def using rows disp disp_i keys assms by (auto simp: db1_def new_intent_def)
  moreover have "inserts i db (update_rows (\<lambda>r. ob_id r = i) f db1)" if "inserts i db db1"
    by (rule inserts_update [OF that]) (simp_all add: f_def)
  ultimately show ?thesis unfolding db' by auto
qed

lemma validateOfficialMessage_segments:
  assumes "validateOfficialMessage unmarshal m" "officialChannel (ms_Channel m)"
  shows "0 \<le> ms_EstimatedSegments m \<and> (ms_Channel m \<noteq> ''twilio_sms'' \<longrightarrow> ms_EstimatedSegments m = 0)"
  using assms unfolding validateOfficialMessage_def by (auto split: if_splits option.splits json.splits)

lemma enqueue_checks_Inr:
  assumes "enqueue_checks unmarshal fresh wall m = Inr m'"
  shows "ms_ID m' = (if ms_ID m = [] then fresh else ms_ID m)" "validateOfficialMessage unmarshal m'"
proof -
  have zero: "validateOfficialMessage unmarshal (m\<lparr>ms_NextAttempt := t\<rparr>) = validateOfficialMessage unmarshal m" for m t
    unfolding validateOfficialMessage_def by (simp cong: option.case_cong json.case_cong if_cong)
  show "ms_ID m' = (if ms_ID m = [] then fresh else ms_ID m)" "validateOfficialMessage unmarshal m'"
    using assms unfolding enqueue_checks_def normalizePresentation_def Let_def
    by (auto simp: zero split: option.splits if_splits)
qed

lemma Expire_tables:
  assumes "ExpireNotifications fault now db = (res, db')"
  shows "od_usage db' = od_usage db" "od_policies db' = od_policies db"
  using assms unfolding ExpireNotifications_def by (auto elim!: transact_cases expire_body_Inr)

definition message_id :: "string \<Rightarrow> outbox_message \<Rightarrow> string" where
  "message_id fresh m = (if ms_ID m = [] then fresh else ms_ID m)"

lemma enqueue_effect:
  assumes "enqueue unmarshal fresh key wall m db = Inr (adm, db')"
  shows "od_usage db' = od_usage db \<and> od_policies db' = od_policies db \<and>
    (if adm = Inserted then inserts (message_id fresh m) db db' else od_rows db' = od_rows db \<and> od_dispatch db' = od_dispatch db)"
proof -
  obtain m' where m': "enqueue_checks unmarshal fresh wall m = Inr m'" and adm: "admit_message key wall m' db = (adm, db')"
    using assms by (auto simp: enqueue_def split: sum.splits)
  show ?thesis
  proof (cases "adm = Inserted")
    case True
    then have none: "row_of (ms_ID m') db = None" and db': "db' = insertOfficialIntent key wall m' (db\<lparr>od_rows := od_rows db @
        [new_row wall (if notificationTargetMatches m' db then None else Some (unix_ms wall)) m']\<rparr>)"
      using adm by (auto simp: admit_message_def Let_def split: if_splits)
    have "inserts (ms_ID m') db db'" unfolding db'
      by (rule insert_intent_inserts [OF none])
        (use limit_ascii [OF official_is_channel] validateOfficialMessage_segments [OF enqueue_checks_Inr(2) [OF m']] in \<open>simp_all add: new_row_def\<close>)
    then show ?thesis using True enqueue_checks_Inr(1) [OF m'] by (simp add: message_id_def inserts_def)
  next
    case False
    then show ?thesis using adm by (auto simp: admit_message_def Let_def split: if_splits)
  qed
qed

text \<open>What an admission does: quiet changes, and at most one new notification.\<close>

definition admits :: "string \<Rightarrow> outbox_db \<Rightarrow> outbox_db \<Rightarrow> bool" where
  "admits i db db' \<longleftrightarrow> (\<exists>db1. quiet db db1 \<and> od_usage db1 = od_usage db \<and> od_policies db1 = od_policies db \<and> (db' = db1 \<or> inserts i db1 db'))"

lemma admits_refl [simp]: "admits i db db"
  unfolding admits_def by (intro exI [of _ db]) simp

lemma admits_cases:
  assumes "admits i db db'" "keys_ok db"
  obtains (unchanged) "quiet db db'" "od_usage db' = od_usage db" "od_policies db' = od_policies db"
  | (inserted) db1 where "quiet db db1" "keys_ok db1" "od_usage db1 = od_usage db" "od_policies db1 = od_policies db" "inserts i db1 db'"
  using assms quiet_keys unfolding admits_def by metis

lemma enqueue_admits:
  assumes "enqueue unmarshal fresh key wall m db1 = Inr (adm, db')" "quiet db db1" "od_usage db1 = od_usage db" "od_policies db1 = od_policies db"
  shows "admits (message_id fresh m) db db'"
proof (cases "adm = Inserted")
  case True
  then show ?thesis using enqueue_effect [OF assms(1)] assms(2-4) unfolding admits_def by auto
next
  case False
  then have "quiet db1 db'" using enqueue_effect [OF assms(1)] by (auto intro: quiet_frame)
  then show ?thesis using enqueue_effect [OF assms(1)] assms(2-4) quiet_trans unfolding admits_def by metis
qed

lemma Enqueue_admits:
  assumes "keys_ok db" "Enqueue fault fault' unmarshal fresh key wall m db = (res, db')"
  shows "admits (message_id fresh m) db db'"
proof -
  obtain e db1 where exp: "ExpireNotifications fault wall db = (e, db1)" by (cases "ExpireNotifications fault wall db")
  have q: "quiet db db1" "od_usage db1 = od_usage db" "od_policies db1 = od_policies db"
    using ExpireNotifications_quiet [OF assms(1) exp] Expire_tables [OF exp] by simp_all
  have "db' = db1 \<or> (\<exists>adm. enqueue unmarshal fresh key wall m db1 = Inr (adm, db'))"
    using assms(2) by (auto simp: Enqueue_def exp transact_def split: sum.splits if_splits)
  then show ?thesis using q enqueue_admits unfolding admits_def by blast
qed

lemma release_updates_quiet: "quiet db (release_updates now e m db)"
  unfolding release_updates_def by (auto intro: quiet_rows)

lemma release_updates_frame [simp]:
  "od_usage (release_updates now e m db) = od_usage db" "od_policies (release_updates now e m db) = od_policies db"
  by (simp_all add: release_updates_def)

lemma record_decision_outbox [simp]: "al_outbox (record_decision e c now dec n s db) = al_outbox db"
  by (simp add: record_decision_def)

lemma merge_quiet [simp]: "quiet db (update_rows P (\<lambda>q. q\<lparr>ob_body := b, ob_merged_count := ob_merged_count q + 1\<rparr>) db)"
  by (rule quiet_rows) simp_all

lemma merge_into_effect:
  assumes "merge_into now e channel m r db = Inr db'"
  shows "quiet (al_outbox db) (al_outbox db') \<and> od_usage (al_outbox db') = od_usage (al_outbox db) \<and> od_policies (al_outbox db') = od_policies (al_outbox db)"
  using assms unfolding merge_into_def Let_def count_rejected_def
  by (auto split: if_splits intro: quiet_frame)

lemma normalizePresentation_ID: "normalizePresentation m = Some m' \<Longrightarrow> ms_ID m' = ms_ID m"
  by (auto simp: normalizePresentation_def Let_def split: if_splits)

lemma admit_event_effect:
  assumes "admit_event unmarshal fresh key wall now window merge e channel m db = Inr db'"
    and "quiet db0 (al_outbox db)" "od_usage (al_outbox db) = od_usage db0" "od_policies (al_outbox db) = od_policies db0"
  shows "admits (message_id fresh m) db0 (al_outbox db')"
proof -
  let ?m1 = "if ms_ID m = [] then m\<lparr>ms_ID := fresh\<rparr> else m"
  define m2 where "m2 = (if merge then ?m1\<lparr>ms_NextAttempt := now + window, ms_Body := mergedBodyLocalized 1 (ms_Body ?m1) (ms_Language ?m1)\<rparr> else ?m1)"
  define f where "f = (\<lambda>r :: outbox_row. r\<lparr>ob_incident := ev_IncidentID e, ob_event_kind := ev_Kind e, ob_event_phase := ev_Phase e,
    ob_merge_until := (if merge then unix_ms (now + window) else 0)\<rparr>)"
  have id: "ms_ID m2 = message_id fresh m" "message_id fresh m2 = message_id fresh m" by (simp_all add: m2_def message_id_def)
  from assms(1) obtain adm ob where enq: "enqueue unmarshal fresh key wall m2 (al_outbox db) = Inr (adm, ob)"
    and out: "al_outbox db' = (if adm = Inserted then update_rows (\<lambda>r. ob_id r = ms_ID m2) f ob else ob)"
    unfolding admit_event_def Let_def m2_def [symmetric] f_def [symmetric]
    by (auto split: sum.splits prod.splits admission.splits)
  note eff = enqueue_effect [OF enq, unfolded id]
  show ?thesis
  proof (cases "adm = Inserted")
    case True
    then have db': "al_outbox db' = update_rows (\<lambda>r. ob_id r = message_id fresh m) f ob" using out id by simp
    have "inserts (message_id fresh m) (al_outbox db) (al_outbox db')"
      unfolding db' by (rule inserts_update) (use eff True in \<open>simp_all add: f_def\<close>)
    then show ?thesis using assms(2-4) unfolding admits_def by auto
  next
    case False
    then show ?thesis using enqueue_admits [OF enq assms(2-4)] out id by simp
  qed
qed

lemma recordOne_admits:
  assumes "recordOneEventNotification unmarshal fresh key wall now window e (Some m) db = Inr db'"
  shows "admits (message_id fresh m) (al_outbox db) (al_outbox db')"
  using assms
proof (cases rule: recordOne_cases)
  case (merged m' r)
  note effect = merge_into_effect [OF merged(6)]
  then have "quiet (al_outbox db) (al_outbox db')" using quiet_trans [OF release_updates_quiet [of "al_outbox db" now e m']] by simp
  then show ?thesis using effect unfolding admits_def by (intro exI [of _ "al_outbox db'"]) simp
next
  case (admitted m')
  have "message_id fresh m' = message_id fresh m" using normalizePresentation_ID [OF admitted(2)] by (simp add: message_id_def)
  then show ?thesis using admit_event_effect [OF admitted(6), of "al_outbox db"] release_updates_quiet by simp
qed simp_all

section \<open>Runs\<close>

datatype outbox_label =
    LEnqueue string time
  | LBegin string "(outbox_row \<times> dispatch_row) option"
  | LResolve string string
  | LExpire time
  | LResume string
  | LOther

definition authorised :: "outbox_error + (outbox_row \<times> dispatch_row) \<times> bool \<Rightarrow> (outbox_row \<times> dispatch_row) option" where
  "authorised res = (case res of Inr (x, True) \<Rightarrow> Some x | _ \<Rightarrow> None)"

text \<open>The three ways in: a message on its own, a message of an event, and a message inside another transaction.\<close>

inductive admission_step :: "outbox_db \<Rightarrow> string \<Rightarrow> time \<Rightarrow> outbox_db \<Rightarrow> bool" where
  message: "Enqueue fault fault' unmarshal fresh key wall m db = (adm, db') \<Longrightarrow> admission_step db (message_id fresh m) wall db'"
| event: "recordOneEventNotification unmarshal fresh key wall now window e (Some m) al = Inr al' \<Longrightarrow>
    admission_step (al_outbox al) (message_id fresh m) wall (al_outbox al')"
| inner: "enqueue unmarshal fresh key wall m db = Inr (adm, db') \<Longrightarrow> admission_step db (message_id fresh m) wall db'"

lemma admission_step_admits:
  assumes "admission_step db i t db'" "keys_ok db"
  shows "admits i db db'"
  using assms(1)
proof (cases rule: admission_step.cases)
  case (message fault fault' unmarshal fresh key m adm) then show ?thesis using Enqueue_admits assms(2) by blast
next
  case (event unmarshal fresh key now window e m al al') then show ?thesis using recordOne_admits by blast
next
  case (inner unmarshal fresh key m adm) then show ?thesis using enqueue_admits by simp
qed

inductive outbox_step :: "outbox_db \<Rightarrow> outbox_label \<Rightarrow> outbox_db \<Rightarrow> bool" where
  admit: "admission_step db i t db' \<Longrightarrow> outbox_step db (LEnqueue i t) db'"
| dispatch: "BeginOfficialDispatch fault i dest now minimum db = (beg, db') \<Longrightarrow> outbox_step db (LBegin i (authorised beg)) db'"
| resolve: "ResolveOfficialDispatch fault i now res db = (out, db') \<Longrightarrow> outbox_step db (LResolve i (rs_Outcome res)) db'"
| expire: "ExpireNotifications fault now db = (out, db') \<Longrightarrow> outbox_step db (LExpire now) db'"
| pending: "pendingDestination fault now n dest db = (rows, db') \<Longrightarrow> outbox_step db (LExpire now) db'"
| resume: "ResumeDestination fault wall dest db = (out, db') \<Longrightarrow> outbox_step db (LResume dest) db'"
| claim: "ClaimNotification fault i now db = (claimed, db') \<Longrightarrow> outbox_step db LOther db'"
| release_claim: "ReleaseNotificationClaim fault i db = (out, db') \<Longrightarrow> outbox_step db LOther db'"
| mark_sent: "MarkSentWithCooldown fault i now minimum db = (out, db') \<Longrightarrow> outbox_step db LOther db'"
| mark_failed: "MarkFailed fault i wall t msg db = (out, db') \<Longrightarrow> outbox_step db LOther db'"
| reserve_attempt: "ReserveNotificationAttempt fault i dest now minimum db = (reserved, db') \<Longrightarrow> outbox_step db LOther db'"
| rate_limited: "MarkRateLimited fault i dest wall until reason db = (out, db') \<Longrightarrow> outbox_step db LOther db'"
| quarantined: "quarantine fault i now reason attempted db = (out, db') \<Longrightarrow> outbox_step db LOther db'"
| retry: "RetryNotification fault i now db = (out, db') \<Longrightarrow> outbox_step db LOther db'"
| target: "ConfigureNotificationTarget fault c dest privacy enabled now db = (out, db') \<Longrightarrow> outbox_step db LOther db'"
| discard_isolated: "DiscardIsolatedNotifications fault c now db = (number, db') \<Longrightarrow> outbox_step db LOther db'"
| policy: "ConfigureOfficialPolicy fault c pol now db = (out, db') \<Longrightarrow> outbox_step db LOther db'"
| pending_polls: "PendingOfficialPolls fault dest now n db = (polls, db') \<Longrightarrow> outbox_step db LOther db'"
| claim_poll: "ClaimOfficialPoll fault i dest now db = (poll, db') \<Longrightarrow> outbox_step db LOther db'"
| resolve_poll: "ResolveOfficialPoll fault i now pres db = (out, db') \<Longrightarrow> outbox_step db LOther db'"
| reconcile: "ReconcileOfficialPaidChannel fault c ref now db = (out, db') \<Longrightarrow> outbox_step db LOther db'"
| silence: "AddSilence fault i rule now al = (silenced, al') \<Longrightarrow> outbox_step (al_outbox al) LOther (al_outbox al')"
| ledger: "outbox_step db LOther (db\<lparr>od_retention := ret\<rparr>)"
| restored: "markRestoredOfficialHold fault wall db = (out, db') \<Longrightarrow> outbox_step db LOther db'"

inductive outbox_run :: "outbox_db \<Rightarrow> outbox_label list \<Rightarrow> outbox_db \<Rightarrow> bool" for db where
  start: "outbox_run db [] db"
| step: "outbox_run db tr db1 \<Longrightarrow> outbox_step db1 l db2 \<Longrightarrow> outbox_run db (tr @ [l]) db2"

definition entry_ok :: "outbox_row \<Rightarrow> dispatch_row \<Rightarrow> bool" where
  "entry_ok r d \<longleftrightarrow> officialChannel (ob_channel r) \<and> (dp_state d = Accepted \<longrightarrow> ob_sent r \<noteq> None) \<and>
     0 \<le> dp_segments d \<and> (ob_channel r \<noteq> ''twilio_sms'' \<longrightarrow> dp_segments d = 0) \<and>
     0 \<le> dp_attempt d \<and> dp_attempt d \<le> MaxDeliveryAttempts \<and> 0 \<le> dp_first d \<and> (dp_attempt d = 0 \<longleftrightarrow> dp_first d = 0)"

definition request_inv :: "outbox_db \<Rightarrow> bool" where
  "request_inv db \<longleftrightarrow> keys_ok db \<and> (\<forall>i d r. dispatch_of i db = Some d \<longrightarrow> row_of i db = Some r \<longrightarrow> entry_ok r d)"

lemma request_inv_keys: "request_inv db \<Longrightarrow> keys_ok db"
  by (simp add: request_inv_def)

lemma request_inv_entry: "request_inv db \<Longrightarrow> dispatch_of i db = Some d \<Longrightarrow> row_of i db = Some r \<Longrightarrow> entry_ok r d"
  by (simp add: request_inv_def)

lemma request_inv_row:
  assumes "request_inv db" "dispatch_of i db = Some d"
  obtains r where "row_of i db = Some r" "entry_ok r d"
  using assms unfolding request_inv_def keys_ok_def by (metis not_Some_eq)

lemma request_inv_accepted:
  assumes "request_inv db"
  shows "accepted_sent db"
  unfolding accepted_sent_def
proof (intro allI impI)
  fix i d assume "dispatch_of i db = Some d" "dp_state d = Accepted"
  moreover obtain r where "row_of i db = Some r" "entry_ok r d" using request_inv_row [OF assms calculation(1)] .
  ultimately show "has_row (\<lambda>r. ob_sent r \<noteq> None) i db" by (simp add: has_row_def entry_ok_def)
qed

lemma quiet_entry_ok: "entry_ok r d \<Longrightarrow> keeps_row r r' \<Longrightarrow> quiet_dispatch line d d' \<Longrightarrow> entry_ok r' d'"
  by (auto simp: entry_ok_def keeps_row_def quiet_dispatch_def quiet_move_def same_request_def)

lemma quiet_request_inv:
  assumes "quiet db db'" "request_inv db"
  shows "request_inv db'"
  unfolding request_inv_def
proof (intro conjI allI impI)
  show "keys_ok db'" by (rule quiet_keys [OF assms(1) request_inv_keys [OF assms(2)]])
  fix i d' r' assume d': "dispatch_of i db' = Some d'" and r': "row_of i db' = Some r'"
  obtain d where d: "dispatch_of i db = Some d" "quiet_dispatch (is_line i db) d d'" using quiet_dispatchD [OF assms(1) d'] .
  obtain r where r: "row_of i db = Some r" "keeps_row r r'" using quiet_rowD [OF assms(1) r'] .
  show "entry_ok r' d'" by (rule quiet_entry_ok [OF request_inv_entry [OF assms(2) d(1) r(1)] r(2) d(2)])
qed

lemma start_dispatch_lookup:
  "row_of j (start_dispatch i c dest now minimum first day db) = row_of j db"
  "dispatch_of j (start_dispatch i c dest now minimum first day db) = map_option (\<lambda>d. if dp_id d = i then d\<lparr>dp_state := InFlight,
     dp_uncertain := True, dp_first := first, dp_last := unix_ms now, dp_attempt := dp_attempt d + 1, dp_budget_day := day, dp_reason := []\<rparr> else d)
     (dispatch_of j db)"
  "keys_ok (start_dispatch i c dest now minimum first day db) = keys_ok db"
  unfolding start_dispatch_def Let_def keys_ok_def by (auto simp: keys_ok_def)

lemma begin_started:
  assumes "row_of i db = Some r" "dispatch_of i db = Some d"
    and "db' = start_dispatch i c dest now minimum (if dp_first d = 0 then unix_ms now else dp_first d) day
         (if fresh then debit c day0 n db else db)"
  shows "\<And>j. row_of j db' = row_of j db" "\<And>j. j \<noteq> i \<Longrightarrow> dispatch_of j db' = dispatch_of j db"
    "dispatch_of i db' = Some (d\<lparr>dp_state := InFlight, dp_uncertain := True, dp_first := (if dp_first d = 0 then unix_ms now else dp_first d),
      dp_last := unix_ms now, dp_attempt := dp_attempt d + 1, dp_budget_day := day, dp_reason := []\<rparr>)"
    "keys_ok db' = keys_ok db"
proof -
  show "row_of j db' = row_of j db" for j by (simp add: assms(3) start_dispatch_lookup)
  show "dispatch_of j db' = dispatch_of j db" if "j \<noteq> i" for j
    using that dispatch_of_Some [of j db] by (cases "dispatch_of j db") (auto simp: assms(3) start_dispatch_lookup)
  show "dispatch_of i db' = Some (d\<lparr>dp_state := InFlight, dp_uncertain := True, dp_first := (if dp_first d = 0 then unix_ms now else dp_first d),
      dp_last := unix_ms now, dp_attempt := dp_attempt d + 1, dp_budget_day := day, dp_reason := []\<rparr>)"
    using assms(2) dispatch_of_Some [OF assms(2)] by (simp add: assms(3) start_dispatch_lookup)
  have "keys_ok (debit c day0 n db) = keys_ok db" by (simp add: keys_ok_def)
  then show "keys_ok db' = keys_ok db" by (simp add: assms(3) start_dispatch_lookup)
qed

lemma begin_request_inv:
  assumes inv: "request_inv db" and "BeginOfficialDispatch fault i dest now minimum db = (res, db')"
  shows "request_inv db'"
  using assms(2)
proof (cases rule: begin_cases)
  case stopped
  show ?thesis by (rule quiet_request_inv [OF stopped(1) inv])
next
  case (started r d p)
  note after = begin_started [OF started(1,2,13)]
  show ?thesis unfolding request_inv_def
  proof (intro conjI allI impI)
    show "keys_ok db'" using after(4) request_inv_keys [OF inv] by simp
    fix j d' r' assume d': "dispatch_of j db' = Some d'" and r': "row_of j db' = Some r'"
    show "entry_ok r' d'"
    proof (cases "j = i")
      case True
      then show ?thesis using request_inv_entry [OF inv started(2,1)] d' r' after(1,3) started(1,9,11)
        by (auto simp: entry_ok_def)
    next
      case False
      then show ?thesis using request_inv_entry [OF inv] d' r' after(1,2) by simp
    qed
  qed
qed

lemma resolve_request_inv:
  assumes inv: "request_inv db" and "ResolveOfficialDispatch fault i now res db = (out, db')"
  shows "request_inv db'"
  using assms(2)
proof (cases rule: resolve_cases)
  case refused
  then show ?thesis using inv by simp
next
  case (resolved r d db1)
  have "request_inv db1" unfolding request_inv_def
  proof (intro conjI allI impI)
    show "keys_ok db1" using resolved(7) request_inv_keys [OF inv] by (simp add: resolves_def)
    fix j d' r' assume d': "dispatch_of j db1 = Some d'" and r': "row_of j db1 = Some r'"
    obtain d0 where d0: "dispatch_of j db = Some d0" "if j = i then same_request d0 d' \<and> dp_first d' = dp_first d0 \<and> dp_attempt d' = dp_attempt d0 \<and>
        dp_budget_day d' = dp_budget_day d0 \<and> (dp_state d0 \<noteq> Accepted \<longrightarrow> outcome_state (rs_Outcome res) (ob_channel r = ''line'') (dp_state d')) else d' = d0"
      using resolved(7) d' unfolding resolves_def by blast
    obtain r0 where r0: "row_of j db = Some r0" "keeps_row r0 r'" using resolved(7) r' unfolding resolves_def by blast
    have ok: "entry_ok r0 d0" by (rule request_inv_entry [OF inv d0(1) r0(1)])
    show "entry_ok r' d'"
    proof (cases "j = i")
      case True
      have "dp_state d' = Accepted \<Longrightarrow> ob_sent r' \<noteq> None"
        using True d0 resolved(2,5,8) r' by (auto simp: outcome_state_def has_row_def split: if_splits)
      then show ?thesis using ok d0(2) r0(2) True by (auto simp: entry_ok_def keeps_row_def same_request_def)
    next
      case False
      then show ?thesis using quiet_entry_ok [OF ok r0(2) quiet_dispatch_refl] d0(2) by simp
    qed
  qed
  then show ?thesis using quiet_request_inv [OF resolved(9)] by simp
qed

lemma inserts_request_inv:
  assumes inv: "request_inv db" and ins: "inserts i db db'"
  shows "request_inv db'"
  unfolding request_inv_def
proof (intro conjI allI impI)
  show "keys_ok db'" using ins request_inv_keys [OF inv] by (simp add: inserts_def)
  fix j d' r' assume d': "dispatch_of j db' = Some d'" and r': "row_of j db' = Some r'"
  show "entry_ok r' d'"
  proof (cases "j = i")
    case True
    have "dispatch_of i db = None" using request_inv_keys [OF inv] ins by (auto simp: keys_ok_def inserts_def)
    then show ?thesis using ins d' r' True by (auto simp: inserts_def entry_ok_def MaxDeliveryAttempts_def)
  next
    case False
    then show ?thesis using request_inv_entry [OF inv] d' r' ins by (simp add: inserts_def)
  qed
qed

lemma admits_request_inv:
  assumes "admits i db db'" "request_inv db"
  shows "request_inv db'"
  using assms(1) request_inv_keys [OF assms(2)]
  by (cases rule: admits_cases) (use quiet_request_inv inserts_request_inv assms(2) in blast)+

text \<open>Every operation but admission, authorisation and resolution is quiet.\<close>

lemma step_quiet:
  assumes "outbox_step db l db'" "request_inv db" "\<And>i x. l \<noteq> LBegin i x" "\<And>i x. l \<noteq> LResolve i x" "\<And>i t. l \<noteq> LEnqueue i t"
  shows "quiet db db'"
  using assms(1)
proof (cases rule: outbox_step.cases)
  case (expire fault now out) then show ?thesis using ExpireNotifications_quiet request_inv_keys assms(2) by blast
next
  case (pending fault now n dest rows) then show ?thesis using pendingDestination_quiet request_inv_keys assms(2) by blast
next
  case (silence fault i rule now al silenced al') then show ?thesis using AddSilence_quiet request_inv_keys assms(2) by blast
next
  case (ledger ret) then show ?thesis by (simp add: quiet_frame)
next
  case (reconcile fault c ref now out) then show ?thesis using ReconcileOfficialPaidChannel_quiet request_inv_accepted assms(2) by blast
qed (use assms(3-5) in \<open>simp_all add: ResumeDestination_quiet ClaimNotification_quiet ReleaseNotificationClaim_quiet MarkSentWithCooldown_quiet
  MarkFailed_quiet ReserveNotificationAttempt_quiet MarkRateLimited_quiet quarantine_quiet RetryNotification_quiet ConfigureNotificationTarget_quiet
  DiscardIsolatedNotifications_quiet ConfigureOfficialPolicy_quiet PendingOfficialPolls_quiet ClaimOfficialPoll_quiet ResolveOfficialPoll_quiet
  markRestoredOfficialHold_quiet\<close>)

lemma step_request_inv:
  assumes "outbox_step db l db'" "request_inv db"
  shows "request_inv db'"
  using assms(1)
proof (cases rule: outbox_step.cases)
  case (admit i t)
  then show ?thesis using admits_request_inv admission_step_admits request_inv_keys assms(2) by blast
next
  case (dispatch fault i dest now minimum beg) then show ?thesis using begin_request_inv assms(2) by blast
next
  case (resolve fault i now res out) then show ?thesis using resolve_request_inv assms(2) by blast
qed (rule quiet_request_inv [OF step_quiet [OF assms] assms(2)]; simp)+

lemma run_request_inv: "outbox_run db tr db' \<Longrightarrow> request_inv db \<Longrightarrow> request_inv db'"
  by (induction rule: outbox_run.induct) (use step_request_inv in blast)+

end
