(* ===== verification/AlertSafety.thy ===== *)
theory AlertSafety
  imports Journal DispatchRun "HOL-Library.Sublist"
begin

text \<open>
  What the decisions on events, the silences, the journal and the monitor states guarantee: an event is decided
  once per channel, a silence leaves nothing open that it covers, a journal entry is accounted once and a monitor state
  changes only under its revision.
\<close>

section \<open>One decision per event and channel\<close>

definition decision_key :: "decision_row \<Rightarrow> string \<times> string" where
  "decision_key d = (en_event d, en_channel d)"

text \<open>What an event admission does to the decisions: it only adds, at most one, and only for an undecided channel.\<close>

definition decides :: "event \<Rightarrow> string \<Rightarrow> alert_db \<Rightarrow> alert_db \<Rightarrow> bool" where
  "decides e channel db db' \<longleftrightarrow> al_events db' = al_events db \<and> al_silences db' = al_silences db \<and>
     (if decided (ev_ID e) channel db then db' = db
      else \<exists>dec n s t. al_decisions db' = al_decisions db @
        [\<lparr>en_event = ev_ID e, en_channel = channel, en_notification = n, en_decision = dec, en_silence = s, en_recorded = t\<rparr>])"

lemma record_decision_tables [simp]:
  "al_events (record_decision e c now dec n s db) = al_events db" "al_silences (record_decision e c now dec n s db) = al_silences db"
  "al_decisions (record_decision e c now dec n s db) = al_decisions db @ [\<lparr>en_event = ev_ID e, en_channel = c, en_notification = n,
     en_decision = dec, en_silence = s, en_recorded = unix_ms now\<rparr>]"
  by (simp_all add: record_decision_def)

lemma admit_event_decides:
  assumes "admit_event unmarshal fresh key wall now window merge e channel m db = Inr db'"
  shows "al_events db' = al_events db \<and> al_silences db' = al_silences db \<and>
    (\<exists>dec n s t. al_decisions db' = al_decisions db @
      [\<lparr>en_event = ev_ID e, en_channel = channel, en_notification = n, en_decision = dec, en_silence = s, en_recorded = t\<rparr>])"
  using assms unfolding admit_event_def Let_def by (auto split: sum.splits prod.splits admission.splits)

lemma merge_into_decides:
  assumes "merge_into now e channel m r db = Inr db'"
  shows "al_events db' = al_events db \<and> al_silences db' = al_silences db \<and>
    (\<exists>dec n s t. al_decisions db' = al_decisions db @
      [\<lparr>en_event = ev_ID e, en_channel = channel, en_notification = n, en_decision = dec, en_silence = s, en_recorded = t\<rparr>])"
  using assms unfolding merge_into_def Let_def by (auto split: if_splits)

lemma recordOne_decides:
  assumes "recordOneEventNotification unmarshal fresh key wall now window e (Some m) db = Inr db'"
  shows "decides e (event_channel m) db db'"
  using assms
proof (cases rule: recordOne_cases)
  case (merged m' r)
  then show ?thesis using merge_into_decides [OF merged(6)] by (auto simp: decides_def)
next
  case (admitted m')
  then show ?thesis using admit_event_decides [OF admitted(6)] by (auto simp: decides_def)
qed (auto simp: decides_def)

lemma recordOne_none_decides:
  "recordOneEventNotification unmarshal fresh key wall now window e None db = Inr db' \<Longrightarrow> decides e ''telegram'' db db'"
  by (auto simp: recordOneEventNotification_def decides_def split: if_splits)

lemma decides_decided: "decides e c db db' \<Longrightarrow> decided (ev_ID e) c db'"
  by (auto simp: decides_def decided_def split: if_splits)

lemma decides_keeps: "decides e c db db' \<Longrightarrow> decided i k db \<Longrightarrow> decided i k db'"
  by (auto simp: decides_def decided_def split: if_splits)

lemma decides_distinct: "decides e c db db' \<Longrightarrow> distinct (map decision_key (al_decisions db)) \<Longrightarrow> distinct (map decision_key (al_decisions db'))"
  by (fastforce simp: decides_def decided_def decision_key_def list_ex_iff split: if_splits)

text \<open>The channels of an event, \<open>telegram\<close> when it has no message.\<close>

definition event_channels :: "delivery list \<Rightarrow> string list" where
  "event_channels ds = (if ds = [] then [''telegram''] else map (event_channel \<circ> fst) ds)"

definition decisions_grow :: "event \<Rightarrow> string list \<Rightarrow> alert_db \<Rightarrow> alert_db \<Rightarrow> bool" where
  "decisions_grow e cs db db' \<longleftrightarrow> (\<forall>c \<in> set cs. decided (ev_ID e) c db') \<and> prefix (al_decisions db) (al_decisions db') \<and>
     (distinct (map decision_key (al_decisions db)) \<longrightarrow> distinct (map decision_key (al_decisions db'))) \<and>
     al_events db' = al_events db \<and> al_silences db' = al_silences db"

lemma decides_prefix: "decides e c db db' \<Longrightarrow> prefix (al_decisions db) (al_decisions db')"
  by (auto simp: decides_def split: if_splits)

lemma decided_prefix: "prefix (al_decisions db) (al_decisions db') \<Longrightarrow> decided i c db \<Longrightarrow> decided i c db'"
  by (auto simp: decided_def prefix_def)

lemma decides_grow:
  assumes "decides e c db db'"
  shows "decisions_grow e [c] db db'"
  using decides_decided [OF assms] decides_distinct [OF assms] decides_prefix [OF assms] assms
  unfolding decisions_grow_def decides_def by simp

lemma decisions_grow_trans:
  assumes "decisions_grow e cs db db1" "decisions_grow e ks db1 db2"
  shows "decisions_grow e (cs @ ks) db db2"
  using assms decided_prefix [of db1 db2] unfolding decisions_grow_def by (auto intro: prefix_order.trans)

lemma record_chain_grow:
  "record_chain unmarshal wall now window e ds db = Inr db' \<Longrightarrow> decisions_grow e (map (event_channel \<circ> fst) ds) db db'"
proof (induction ds arbitrary: db)
  case Nil
  then show ?case by (simp add: decisions_grow_def)
next
  case (Cons d ds)
  obtain m fresh key where d: "d = (m, fresh, key)" by (cases d)
  obtain db1 where one: "recordOneEventNotification unmarshal fresh key wall now window e (Some (m\<lparr>ms_paired := False\<rparr>)) db = Inr db1"
    and follow: "record_chain unmarshal wall now window e ds db1 = Inr db'" using Cons.prems d by (auto split: sum.splits)
  have "decides e (event_channel m) db db1" using recordOne_decides [OF one] by (simp add: event_channel_def cong: if_cong)
  then have "decisions_grow e [event_channel m] db db1" by (rule decides_grow)
  then have "decisions_grow e ([event_channel m] @ map (event_channel \<circ> fst) ds) db db'"
    by (rule decisions_grow_trans) (rule Cons.IH [OF follow])
  then show ?case by (simp add: d comp_def)
qed

lemma recordEvent_grow:
  assumes "recordEventNotification unmarshal wall now window e ds db = Inr db'"
  shows "decisions_grow e (event_channels ds) db db'"
proof (cases "ds = []")
  case True
  have "decides e ''telegram'' db db'"
    by (rule recordOne_none_decides [OF assms [unfolded recordEventNotification_def if_P [OF True]]])
  then show ?thesis using True decides_grow by (simp add: event_channels_def)
next
  case False
  then show ?thesis using assms record_chain_grow by (auto simp: recordEventNotification_def event_channels_def split: if_splits)
qed

text \<open>An event is stored together with its decisions, and a repetition finds every channel decided.\<close>

lemma insertEvent_stores:
  assumes "insertEvent c e db = Inr db'"
  shows "has_event (ev_ID e) db'" "al_outbox db' = al_outbox db" "al_decisions db' = al_decisions db" "al_silences db' = al_silences db"
  using assms by (auto simp: insertEvent_def has_event_def event_row_of_def split: if_splits)

lemma insertEvent_again:
  assumes "insertEvent c e db = Inr db1" "has_event (ev_ID e) db'"
  shows "insertEvent c e db' = Inr db'"
  using assms by (auto simp: insertEvent_def split: if_splits)

lemma record_chain_decided:
  assumes "\<forall>c \<in> set (map (event_channel \<circ> fst) ds). decided (ev_ID e) c db"
  shows "record_chain unmarshal wall now window e ds db = Inr db"
  using assms
proof (induction ds)
  case (Cons d ds)
  then show ?case
    by (cases d) (simp add: recordOneEventNotification_def event_channel_def cong: if_cong)
qed simp

lemma recordEvent_decided:
  assumes "\<forall>c \<in> set (event_channels ds). decided (ev_ID e) c db" "ds \<noteq> [] \<Longrightarrow> chain_ok ds"
  shows "recordEventNotification unmarshal wall now window e ds db = Inr db"
proof (cases "ds = []")
  case True
  then show ?thesis using assms(1) by (simp add: recordEventNotification_def recordOneEventNotification_def event_channels_def)
next
  case False
  then show ?thesis using assms record_chain_decided [of ds e db] by (simp add: recordEventNotification_def event_channels_def)
qed

lemma InsertEventNotification_ok:
  assumes "InsertEventNotification fault c unmarshal wall now window e ds db = (Inr x, db')"
  obtains db1 where "insertEvent c e db = Inr db1" "recordEventNotification unmarshal wall now window e ds db1 = Inr db'"
  using assms by (auto simp: InsertEventNotification_def commit_alert_def split: if_splits sum.splits)

lemma distinct_key_once:
  assumes "distinct (map f xs)" "x \<in> set xs"
  shows "length (filter (\<lambda>y. f y = f x) xs) = 1"
  using assms by (induction xs) (auto simp: filter_empty_conv image_iff)

lemma decided_once:
  assumes "distinct (map decision_key (al_decisions db))" "decided i c db"
  shows "length (filter (\<lambda>d. decision_key d = (i, c)) (al_decisions db)) = 1"
  using assms distinct_key_once [of decision_key "al_decisions db"]
  by (auto simp: decided_def list_ex_iff decision_key_def)

text \<open>From an empty store on, whatever events are committed, no channel is decided twice.\<close>

lemma events_distinct:
  "distinct (map decision_key (al_decisions db)) \<Longrightarrow> distinct (map decision_key (al_decisions (events.call_all c unmarshal calls db)))"
  by (rule events.calls_keep) (auto elim!: InsertEventNotification_ok dest!: recordEvent_grow insertEvent_stores(3) simp: decisions_grow_def)

text \<open>
  C6: an event that is committed with its notifications is stored, has exactly one decision for each of its
  channels, keeps every earlier decision, and committing it again with the same messages, at any later time
  and with any newly drawn identifiers, succeeds and changes nothing: no second message is queued.
\<close>

theorem event_decided_once:
  assumes run: "InsertEventNotification fault c unmarshal wall now window e ds db = (Inr (), db')"
    and keys: "distinct (map decision_key (al_decisions db))"
  shows "has_event (ev_ID e) db' \<and> prefix (al_decisions db) (al_decisions db') \<and> distinct (map decision_key (al_decisions db')) \<and>
    (\<forall>channel \<in> set (event_channels ds). length (filter (\<lambda>d. decision_key d = (ev_ID e, channel)) (al_decisions db')) = 1) \<and>
    (map fst ds' = map fst ds \<longrightarrow> InsertEventNotification False c unmarshal wall' now' window' e ds' db' = (Inr (), db'))"
proof -
  obtain db1 where db1: "insertEvent c e db = Inr db1" and grow: "recordEventNotification unmarshal wall now window e ds db1 = Inr db'"
    using run by (rule InsertEventNotification_ok)
  note stored = insertEvent_stores [OF db1]
  note grown = recordEvent_grow [OF grow, unfolded decisions_grow_def stored(3)]
  have present: "has_event (ev_ID e) db'" using grown stored(1) by (simp add: has_event_def)
  have unique: "distinct (map decision_key (al_decisions db'))" using grown keys by simp
  have "InsertEventNotification False c unmarshal wall' now' window' e ds' db' = (Inr (), db')" if same: "map fst ds' = map fst ds"
  proof -
    have "ds' = [] \<longleftrightarrow> ds = []" using same by (metis map_is_Nil_conv)
    then have "event_channels ds' = event_channels ds" using arg_cong [OF same, of "map event_channel"] by (simp add: event_channels_def)
    moreover have "ds' \<noteq> [] \<Longrightarrow> chain_ok ds'"
      using grow \<open>ds' = [] \<longleftrightarrow> ds = []\<close> same by (auto simp: recordEventNotification_def chain_ok_def split: if_splits)
    ultimately have "recordEventNotification unmarshal wall' now' window' e ds' db' = Inr db'"
      using grown by (intro recordEvent_decided) auto
    then show ?thesis by (simp add: InsertEventNotification_def insertEvent_again [OF db1 present] commit_alert_def)
  qed
  then show ?thesis using present unique grown decided_once [OF unique] by simp
qed

section \<open>A silence holds\<close>

lemma silence_body_events: "silence_body i rule now db = Inr (x, db') \<Longrightarrow> al_events db' = al_events db"
  unfolding silence_body_def Let_def suppress_matching_def
  by (auto elim!: prune_silences_Inr with_retention_Inr split: if_splits sum.splits)

lemma find_silence_some:
  assumes "notificationChannel (ms_Channel m) \<or> ms_Destination m = ''telegram''" "s \<in> set (al_silences db)" "active_silence now e s"
  obtains s' where "find_silence now e m db = Some s'"
proof (cases "sort_by silence_less (filter (active_silence now e) (al_silences db))")
  case Nil
  then have "set (filter (active_silence now e) (al_silences db)) = {}" by (metis set_sort_by set_empty)
  then show ?thesis using assms by auto
next
  case (Cons s' ss)
  then show ?thesis using assms(1) by (intro that [of s']) (simp add: find_silence_def)
qed

lemma suppressed_rows:
  assumes "r \<in> set (od_rows (al_outbox (suppress_matching i P now db)))"
  obtains "ob_suppressed r = Some (unix_ms now)" "ob_body r = []" | "r \<in> set (od_rows (al_outbox db))" "\<not> P r"
  using assms by (auto simp: suppress_matching_def update_rows_def update_dispatch_def split: if_splits)

lemma silence_leaves_none:
  assumes "silence_body i rule now db = Inr (x, db')" "r \<in> set (od_rows (al_outbox db'))"
  shows "\<not> silenced_rows rule now db' r"
proof -
  obtain db3 where rows: "r \<in> set (od_rows (al_outbox (suppress_matching i (silenced_rows rule now db) now db3)))"
    using assms by (auto elim!: silence_body_Inr simp: delete_rows_def)
  have "silenced_rows rule now db' = silenced_rows rule now db"
    by (simp add: fun_eq_iff silenced_rows_def silence_body_events [OF assms(1)])
  with rows show ?thesis by (auto elim!: suppressed_rows simp: silenced_rows_def)
qed

text \<open>However many silences are added, their number stays within the limit.\<close>

lemma silences_bounded:
  "int (length (al_silences db)) \<le> MaxSilences \<Longrightarrow> int (length (al_silences (silencing.call_all calls db))) \<le> MaxSilences"
  by (rule silencing.calls_keep)
    (auto simp: AddSilence_def commit_alert_def elim!: silence_body_Inr split: if_splits sum.splits)


section \<open>Journal entries are accounted once\<close>

text \<open>Calls of \<open>CommitJournal\<close> one after the other, with what each finds: a failing disk, the clocks and the merge window.\<close>

fun journal_run :: "(string \<Rightarrow> string) \<Rightarrow> event_codec \<Rightarrow> (string \<Rightarrow> json option) \<Rightarrow>
    (bool \<times> time \<times> time \<times> duration \<times> journal_write) list \<Rightarrow> journal_db \<Rightarrow> journal_db" where
  "journal_run cursorHash c unmarshal [] db = db"
| "journal_run cursorHash c unmarshal ((fault, wall, now, window, w) # calls) db =
    journal_run cursorHash c unmarshal calls (snd (CommitJournal fault cursorHash c unmarshal wall now window w db))"

lemma fold_max_le: "fold max xs (a :: int) \<le> k \<longleftrightarrow> a \<le> k \<and> (\<forall>x \<in> set xs. x \<le> k)"
  by (induction xs arbitrary: a) auto

lemma max_rowid_le: "max_rowid seen \<le> k \<longleftrightarrow> 0 \<le> k \<and> (\<forall>e \<in> set seen. fst e \<le> k)"
  by (simp add: max_rowid_def fold_max_le)

lemma max_rowid_ge: "e \<in> set seen \<Longrightarrow> fst e \<le> max_rowid seen" "0 \<le> max_rowid seen"
  using max_rowid_le [of seen "max_rowid seen"] by auto

lemma max_rowid_append: "max_rowid (seen @ [(max_rowid seen + 1, x, t)]) = max_rowid seen + 1"
  using max_rowid_ge(2) [of seen] by (simp add: max_rowid_def)

lemma and_then_Inr: "and_then r f = Inr y \<longleftrightarrow> (\<exists>x. r = Inr x \<and> f x = Inr y)"
  by (cases r) (simp_all add: and_then_def)

lemma then_alert_frame:
  assumes "then_alert f db = Inr db'"
  obtains al where "f (jd_alerts db) = Inr al" "db' = db\<lparr>jd_alerts := al\<rparr>"
  using assms by (auto simp: then_alert_def split: sum.splits)

lemma addAuth_seen: "addAuth wall observed kind source db = Inr db' \<Longrightarrow> jd_seen db' = jd_seen db"
  by (auto simp: addAuth_def Let_def split: if_splits sum.splits)

lemma setRecovery_seen: "setJournalRecovery pending db = Inr db' \<Longrightarrow> jd_seen db' = jd_seen db"
  by (auto simp: setJournalRecovery_def split: option.splits)

lemma journal_effect_seen:
  assumes "journal_effect c unmarshal wall now window w db = Inr db'"
  shows "jd_seen db' = jd_seen db"
  using assms unfolding journal_effect_def and_then_Inr
  by (auto simp: and_then_Inr split: if_splits option.splits elim!: then_alert_frame dest!: addAuth_seen setRecovery_seen)

lemma trim_save_seen:
  "jd_seen (trim_seen (save_checkpoint w wall db)) = filter (\<lambda>e. max_rowid (jd_seen db) - 10000 < fst e) (jd_seen db)"
  unfolding trim_seen_def save_checkpoint_def split_beta by (cases "jd_seen db") (auto simp: not_le)

text \<open>The table after a commit: perhaps one row more, the rows of the last ten thousand numbers.\<close>

lemma commit_seen:
  assumes "CommitJournal fault cursorHash c unmarshal wall now window w db = (r, db')"
  obtains "jd_seen db' = jd_seen db" "r \<noteq> Inr True"
  | "jd_seen db' = filter (\<lambda>e. max_rowid (jd_seen db) - 10000 < fst e) (jd_seen db)" "r = Inr False"
  | t where "jd_seen db' = filter (\<lambda>e. max_rowid (jd_seen db) + 1 - 10000 < fst e)
      (jd_seen db @ [(max_rowid (jd_seen db) + 1, cursorHash (jw_Cursor w), t)])" "r = Inr True"
  using assms
proof (cases rule: CommitJournal_cases)
  case (new db1)
  then have "jd_seen db1 = jd_seen db @ [(max_rowid (jd_seen db) + 1, cursorHash (jw_Cursor w), unix_ms (jw_ReceivedAt w))]"
    by (simp add: journal_effect_seen mark_seen_def)
  then show ?thesis using new that(3) by (simp add: trim_save_seen max_rowid_append)
qed (auto simp: trim_save_seen that(1,2))

definition remembers :: "int \<Rightarrow> int \<Rightarrow> string \<Rightarrow> journal_db \<Rightarrow> bool" where
  "remembers n k x db \<longleftrightarrow> (\<exists>t. (n, x, t) \<in> set (jd_seen db)) \<and> max_rowid (jd_seen db) \<le> n + k"

lemma max_rowid_filter: "max_rowid (filter P seen) \<le> max_rowid seen"
  using max_rowid_ge(1) [of _ seen] max_rowid_ge(2) [of seen] by (auto simp: max_rowid_le)

lemma remembers_trim:
  assumes "jd_seen db' = filter (\<lambda>e. max_rowid seen - 10000 < fst e) seen" "(n, x, t) \<in> set seen" "max_rowid seen \<le> n + k" "k \<le> 9999"
  shows "remembers n k x db'"
proof -
  have "(n, x, t) \<in> set (jd_seen db')" using assms by simp
  moreover have "max_rowid (jd_seen db') \<le> n + k"
    unfolding assms(1) by (rule order_trans [OF max_rowid_filter assms(3)])
  ultimately show ?thesis unfolding remembers_def by blast
qed

lemma commit_remembers:
  assumes "CommitJournal fault cursorHash c unmarshal wall now window w db = (r, db')" "remembers n k x db" "k < 9999"
  shows "remembers n (k + 1) x db'"
proof -
  obtain t0 where row: "(n, x, t0) \<in> set (jd_seen db)" and top: "max_rowid (jd_seen db) \<le> n + k" using assms(2) by (auto simp: remembers_def)
  from assms(1) show ?thesis
  proof (cases rule: commit_seen)
    case 1
    then show ?thesis using row top by (auto simp: remembers_def)
  next
    case 2
    show ?thesis by (rule remembers_trim [OF 2(1) row]) (use top assms(3) in auto)
  next
    case (3 t)
    show ?thesis
      by (rule remembers_trim [where seen = "jd_seen db @ [(max_rowid (jd_seen db) + 1, cursorHash (jw_Cursor w), t)]" and t = t0])
        (use 3 row top assms(3) in \<open>simp_all add: max_rowid_append\<close>)
  qed
qed

lemma run_remembers:
  assumes "remembers n k x db" "k + int (length calls) \<le> 9999"
  shows "remembers n (k + int (length calls)) x (journal_run cursorHash c unmarshal calls db)"
  using assms
proof (induction cursorHash c unmarshal calls db arbitrary: k rule: journal_run.induct)
  case (2 cursorHash c unmarshal fault wall now window w calls db)
  then have "remembers n (k + 1) x (snd (CommitJournal fault cursorHash c unmarshal wall now window w db))"
    using commit_remembers [of fault cursorHash c unmarshal wall now window w db _ _ n k x] by (simp add: prod_eq_iff)
  from "2.IH" [OF this] "2.prems"(2) show ?case by (simp add: algebra_simps)
qed simp

text \<open>The row numbers are distinct and the last ten thousand.\<close>

definition seen_ok :: "journal_db \<Rightarrow> bool" where
  "seen_ok db \<longleftrightarrow> distinct (map fst (jd_seen db)) \<and> (\<forall>e \<in> set (jd_seen db). max_rowid (jd_seen db) - 10000 < fst e)"

lemma trimmed_ok:
  assumes "jd_seen db' = filter (\<lambda>e. max_rowid seen - 10000 < fst e) seen" "distinct (map fst seen)"
  shows "seen_ok db'"
  unfolding seen_ok_def assms(1)
  using assms(2) max_rowid_filter [of "\<lambda>e. max_rowid seen - 10000 < fst e" seen] by (fastforce simp: distinct_map_filter)

lemma commit_seen_ok:
  assumes "CommitJournal fault cursorHash c unmarshal wall now window w db = (r, db')" "seen_ok db"
  shows "seen_ok db'"
  using assms(1)
proof (cases rule: commit_seen)
  case 1
  then show ?thesis using assms(2) by (simp add: seen_ok_def)
next
  case 2
  then show ?thesis using assms(2) by (intro trimmed_ok [OF 2(1)]) (simp add: seen_ok_def)
next
  case (3 t)
  let ?seen = "jd_seen db @ [(max_rowid (jd_seen db) + 1, cursorHash (jw_Cursor w), t)]"
  have "distinct (map fst ?seen)" using assms(2) max_rowid_ge(1) [of _ "jd_seen db"] by (fastforce simp: seen_ok_def)
  then show ?thesis using 3 by (intro trimmed_ok [of _ ?seen]) (simp_all add: max_rowid_append)
qed

lemma journal_run_calls: "journal_run cursorHash c unmarshal calls db = entries.call_all cursorHash c unmarshal calls db"
  by (induction cursorHash c unmarshal calls db rule: journal_run.induct) simp_all

lemma run_seen_ok: "seen_ok db \<Longrightarrow> seen_ok (journal_run cursorHash c unmarshal calls db)"
  unfolding journal_run_calls by (rule entries.calls_keep) (auto intro: commit_seen_ok)

lemma seen_ok_bound:
  assumes "seen_ok db"
  shows "length (jd_seen db) \<le> 10000"
proof -
  have "fst ` set (jd_seen db) \<subseteq> {max_rowid (jd_seen db) - 9999 .. max_rowid (jd_seen db)}"
    using assms max_rowid_ge(1) [of _ "jd_seen db"] by (force simp: seen_ok_def)
  then have "card (set (map fst (jd_seen db))) \<le> card {max_rowid (jd_seen db) - 9999 .. max_rowid (jd_seen db)}"
    by (intro card_mono) auto
  then show ?thesis using assms distinct_card [of "map fst (jd_seen db)"] by (simp add: seen_ok_def)
qed

lemma remembers_seen: "remembers n k (cursorHash x) db \<Longrightarrow> JournalSeen cursorHash x db"
  by (auto simp: remembers_def JournalSeen_def list_ex_iff)

text \<open>
  C7: an entry of the journal is accounted once. After a commit that accounted the entry, a commit of an entry with the same cursor,
  after any fewer than ten thousand other calls, failing ones included, never accounts it again: it fails and changes nothing, or
  it moves only the checkpoint and leaves the events, the counts, the outbox and the monitor states as they are.
  The memory of cursors stays within ten thousand rows.
\<close>

theorem journal_entry_once:
  assumes "CommitJournal fault cursorHash c unmarshal wall now window w db = (Inr True, db1)" and "length calls < 10000"
    and "jw_Cursor w' = jw_Cursor w" and "db2 = journal_run cursorHash c unmarshal calls db1"
    and "CommitJournal fault' cursorHash c unmarshal wall' now' window' w' db2 = (r, db3)"
  shows "r \<noteq> Inr True \<and> jd_alerts db3 = jd_alerts db2 \<and> jd_auth db3 = jd_auth db2 \<and> jd_cardinality db3 = jd_cardinality db2 \<and>
    jd_pending db3 = jd_pending db2 \<and> jd_states db3 = jd_states db2 \<and> (r \<noteq> Inr False \<longrightarrow> db3 = db2) \<and>
    (seen_ok db \<longrightarrow> length (jd_seen db3) \<le> 10000)"
proof -
  have "remembers (max_rowid (jd_seen db) + 1) 0 (cursorHash (jw_Cursor w)) db1"
    using assms(1)
  proof (cases rule: commit_seen)
    case (3 t)
    show ?thesis
      by (rule remembers_trim [where seen = "jd_seen db @ [(max_rowid (jd_seen db) + 1, cursorHash (jw_Cursor w), t)]" and t = t])
        (use 3 in \<open>simp_all add: max_rowid_append\<close>)
  qed simp_all
  then have "remembers (max_rowid (jd_seen db) + 1) (0 + int (length calls)) (cursorHash (jw_Cursor w)) db2"
    unfolding assms(4) by (rule run_remembers) (use assms(2) in simp)
  then have seen: "JournalSeen cursorHash (jw_Cursor w') db2" unfolding assms(3) by (rule remembers_seen)
  have "seen_ok db \<longrightarrow> length (jd_seen db3) \<le> 10000"
    using commit_seen_ok [OF assms(1)] run_seen_ok [of db1 cursorHash c unmarshal calls] commit_seen_ok [OF assms(5)] seen_ok_bound [of db3]
    by (simp add: assms(4))
  moreover from assms(5) have "r \<noteq> Inr True \<and> jd_alerts db3 = jd_alerts db2 \<and> jd_auth db3 = jd_auth db2 \<and>
    jd_cardinality db3 = jd_cardinality db2 \<and> jd_pending db3 = jd_pending db2 \<and> jd_states db3 = jd_states db2 \<and> (r \<noteq> Inr False \<longrightarrow> db3 = db2)"
    by (cases rule: CommitJournal_cases) (use seen in \<open>simp_all add: trim_seen_def save_checkpoint_def\<close>)
  ultimately show ?thesis by blast
qed

section \<open>Monitor states change under their revision\<close>

definition revision_of :: "string \<Rightarrow> journal_db \<Rightarrow> int" where
  "revision_of k db = (case map_of (jd_states db) k of None \<Rightarrow> 0 | Some (revision, updated, data) \<Rightarrow> revision)"

lemma monitor_events_frame:
  assumes "monitor_events c unmarshal wall now window events db = Inr db'"
  shows "jd_states db' = jd_states db \<and> (\<forall>i. has_event i (jd_alerts db) \<longrightarrow> has_event i (jd_alerts db')) \<and>
    (\<forall>i k. decided i k (jd_alerts db) \<longrightarrow> decided i k (jd_alerts db')) \<and>
    (\<forall>(e, ds) \<in> set events. has_event (ev_ID e) (jd_alerts db') \<and> (\<forall>k \<in> set (event_channels ds). decided (ev_ID e) k (jd_alerts db')))"
  using assms
proof (induction events arbitrary: db)
  case (Cons x rest)
  obtain e ds where x: "x = (e, ds)" by (cases x)
  obtain al1 al2 where 1: "insertEvent c e (jd_alerts db) = Inr al1" and 2: "recordEventNotification unmarshal wall now window e ds al1 = Inr al2"
    and follow: "monitor_events c unmarshal wall now window rest (db\<lparr>jd_alerts := al2\<rparr>) = Inr db'"
    using Cons.prems by (auto simp: x and_then_Inr split: if_splits elim!: then_alert_frame)
  note stored = insertEvent_stores [OF 1] and grown = recordEvent_grow [OF 2, unfolded decisions_grow_def]
  have events: "has_event i al2 = has_event i al1" for i using grown by (simp add: has_event_def)
  have kept: "has_event i (jd_alerts db) \<Longrightarrow> has_event i al2" for i
    using 1 by (auto simp: insertEvent_def has_event_def grown split: if_splits)
  have decs: "decided i k (jd_alerts db) \<Longrightarrow> decided i k al2" for i k
    using grown decided_prefix [of al1 al2] stored(3) by (simp add: decided_def)
  show ?case using Cons.IH [OF follow] kept decs stored(1) grown events by (auto simp: x)
qed simp

lemma CommitMonitorState_ok:
  assumes "CommitMonitorState fault c unmarshal wall now window st expected events db = (Inr (), db')"
  shows "revision_of (mn_Key st) db = expected" "monitor_events_ok st events" "\<not> monitor_invalid unmarshal st expected events"
    "monitor_events c unmarshal wall now window events
      (db\<lparr>jd_states := AList.update (mn_Key st) (expected + 1, unix_ms (mn_UpdatedAt st), mn_Data st) (jd_states db)\<rparr>) = Inr db'"
  using assms by (auto simp: CommitMonitorState_def commit_journal_def revision_of_def Let_def split: if_splits sum.splits prod.splits option.splits)

text \<open>
  C17: a monitor state is replaced under its revision. A commit that succeeds found the expected revision, leaves the next
  one with the new data and touches no other key, and its events are stored with a decision for each of their channels; a second commit
  that expects the same revision, a repetition included, fails and changes nothing, so no event is sent twice.
\<close>

theorem monitor_revision_guards:
  assumes "CommitMonitorState fault c unmarshal wall now window st expected events db = (Inr (), db')"
  shows "revision_of (mn_Key st) db = expected \<and>
    map_of (jd_states db') = (map_of (jd_states db))(mn_Key st \<mapsto> (expected + 1, unix_ms (mn_UpdatedAt st), mn_Data st)) \<and>
    list_all (\<lambda>(e, ds). has_event (ev_ID e) (jd_alerts db') \<and> list_all (\<lambda>k. decided (ev_ID e) k (jd_alerts db')) (event_channels ds)) events \<and>
    (mn_Key st' = mn_Key st \<longrightarrow> fst (CommitMonitorState fault' c unmarshal wall' now' window' st' expected events' db') \<noteq> Inr () \<and>
       snd (CommitMonitorState fault' c unmarshal wall' now' window' st' expected events' db') = db')"
proof -
  note ok = CommitMonitorState_ok [OF assms]
  note frame = monitor_events_frame [OF ok(4)]
  have states: "map_of (jd_states db') = (map_of (jd_states db))(mn_Key st \<mapsto> (expected + 1, unix_ms (mn_UpdatedAt st), mn_Data st))"
    using frame by (simp add: update_conv')
  then have next_revision: "revision_of (mn_Key st) db' = expected + 1" by (simp add: revision_of_def)
  have "r \<noteq> Inr ()" if "mn_Key st' = mn_Key st" "CommitMonitorState fault' c unmarshal wall' now' window' st' expected events' db' = (r, db2)" for r db2
    using CommitMonitorState_ok(1) [of fault' c unmarshal wall' now' window' st' expected events' db' db2] that next_revision by auto
  then have "mn_Key st' = mn_Key st \<longrightarrow> fst (CommitMonitorState fault' c unmarshal wall' now' window' st' expected events' db') \<noteq> Inr () \<and>
       snd (CommitMonitorState fault' c unmarshal wall' now' window' st' expected events' db') = db'"
    using CommitMonitorState_failed by (metis prod.collapse)
  then show ?thesis using ok(1) states frame by (auto simp: list_all_iff)
qed

section \<open>Applications\<close>

text \<open>A port scan reported to Telegram.\<close>

definition sample_codec :: event_codec where
  "sample_codec = \<lparr>ec_text = (\<lambda>t. ''text''), ec_geo = (\<lambda>g. ''{}''), ec_evidence = (\<lambda>x. ''{}'')\<rparr>"

definition sample_time :: time where "sample_time = 1700000000 * second"

definition sample_event :: event where
  "sample_event = \<lparr>ev_ID = ''e1'', ev_IncidentID = ''i1'', ev_ObservedAt = sample_time, ev_Kind = ''port_scan'', ev_Phase = ''start'',
     ev_Severity = ''high'', ev_Summary = Fmt ''scan'' [], ev_SourceIP = [], ev_SourceRange = [], ev_Target = Fmt [] [], ev_Count = 9,
     ev_Geo = no_geo, ev_Evidence = []\<rparr>"

definition sample_notice :: outbox_message where
  "sample_notice = \<lparr>ms_paired = False, ms_ID = [], ms_DedupeKey = ''k2'', ms_Channel = [], ms_PrivacyMode = ''full'',
     ms_Language = ''en'', ms_Timezone = ''UTC'', ms_Destination = ''telegram'', ms_Body = ''scan'', ms_NextAttempt = 0,
     ms_LogicalKind = [], ms_AdmissionFailure = [], ms_FrozenPayload = [], ms_EstimatedSegments = 0, ms_Encoding = []\<rparr>"

definition sample_alerts :: alert_db where
  "sample_alerts = \<lparr>al_outbox = \<lparr>od_rows = [], od_dispatch = [], od_targets = [], od_cooldowns = [], od_policies = [], od_usage = [],
       od_rejected = 0, od_expired = 0, od_last_sent = 0, od_retention = empty_retention\<rparr>,
     al_events = [], al_decisions = [], al_silences = []\<rparr>"

definition succeeds :: "('e + unit) \<times> 'a \<Rightarrow> bool" where
  "succeeds x \<longleftrightarrow> (case fst x of Inl _ \<Rightarrow> False | Inr _ \<Rightarrow> True)"

lemma succeeds_Inr: "succeeds x \<Longrightarrow> x = (Inr (), snd x)"
  by (cases x; cases "fst x") (auto simp: succeeds_def)

definition sample_stored :: alert_db where
  "sample_stored = sample_alerts\<lparr>al_events := [event_row_of sample_codec sample_event]\<rparr>"

lemma sample_stores: "insertEvent sample_codec sample_event sample_alerts = Inr sample_stored"
  by (simp add: insertEvent_def sample_codec_def sample_stored_def has_event_def sample_alerts_def)

lemma sample_notified: "succeeds (InsertEventNotification False sample_codec (\<lambda>_. None) sample_time sample_time 0 sample_event [(sample_notice, ''n9'', ''k'')] sample_alerts)"
  unfolding InsertEventNotification_def sample_stores sum.case by code_simp

definition sample_queued :: alert_db where
  "sample_queued = snd (InsertEventNotification False sample_codec (\<lambda>_. None) sample_time sample_time 0 sample_event [(sample_notice, ''n9'', ''k'')] sample_alerts)"

theorem event_decided_once_witness:
  "length (filter (\<lambda>d. decision_key d = (ev_ID sample_event, ''telegram'')) (al_decisions sample_queued)) = 1 \<and>
   InsertEventNotification False sample_codec (\<lambda>_. None) (sample_time + hour) (sample_time + hour) minute sample_event [(sample_notice, ''n10'', ''k'')]
     sample_queued = (Inr (), sample_queued)"
  using event_decided_once [OF succeeds_Inr [OF sample_notified], of "[(sample_notice, ''n10'', ''k'')]" "sample_time + hour" "sample_time + hour" minute]
  by (simp add: sample_queued_def sample_alerts_def event_channels_def event_channel_def sample_notice_def)

definition sample_rule :: silence_rule where
  "sample_rule = \<lparr>sr_IncidentID = [], sr_Kind = ''port_scan'', sr_Reason = ''drill'', sr_ExpiresAt = sample_time + 2 * hour\<rparr>"

text \<open>The store with a message of that kind, claimed for sending.\<close>

definition sample_open :: alert_db where
  "sample_open = sample_alerts\<lparr>al_outbox := (al_outbox sample_alerts)\<lparr>od_rows := [(new_row sample_time None (sample_notice\<lparr>ms_ID := ''n1''\<rparr>))
     \<lparr>ob_incident := ''i1'', ob_event_kind := ''port_scan'', ob_lease := Some 1700000120000\<rparr>]\<rparr>\<rparr>"

definition sample_silencing :: "(alert_error + silence_row \<times> int \<times> int) \<times> alert_db" where
  "sample_silencing = AddSilence False ''s1'' sample_rule (sample_time + second) sample_open"

definition sample_second :: event where
  "sample_second = sample_event\<lparr>ev_ID := ''e2'', ev_IncidentID := ''i2''\<rparr>"

definition sample_second_notice :: outbox_message where
  "sample_second_notice = sample_notice\<lparr>ms_DedupeKey := ''k3''\<rparr>"

definition silences_one :: "event \<Rightarrow> outbox_message \<Rightarrow> (alert_error + silence_row \<times> int \<times> int) \<times> alert_db \<Rightarrow> bool" where
  "silences_one e m x \<longleftrightarrow> (case fst x of Inr (s, hits, flying) \<Rightarrow> hits = 1 | Inl _ \<Rightarrow> False) \<and> \<not> decided (ev_ID e) (event_channel m) (snd x) \<and>
     normalizePresentation m \<noteq> None \<and> find (\<lambda>r. ob_dedupe r = ms_DedupeKey m) (od_rows (al_outbox (snd x))) = None"

lemma sample_silences: "silences_one sample_second sample_second_notice sample_silencing"
  by code_simp

lemma silences_one_run:
  assumes "silences_one e m x"
  obtains s flying where "x = (Inr (s, 1, flying), snd x)"
  using assms by (cases x; cases "fst x") (auto simp: silences_one_def)


text \<open>A failed login, read again after the journal was reopened.\<close>

definition sample_entry :: "string \<Rightarrow> journal_write" where
  "sample_entry cursor = \<lparr>jw_Cursor = cursor, jw_ReceivedAt = sample_time, jw_ObservedAt = sample_time, jw_Kind = ''ssh_failed'',
     jw_SourceRange = ''192.0.2.0/24'', jw_Event = None, jw_Notification = [], jw_Trusted = True\<rparr>"

definition sample_journal :: journal_db where
  "sample_journal = \<lparr>jd_alerts = sample_alerts, jd_auth = [], jd_cardinality = [], jd_seen = [], jd_checkpoint = None, jd_pending = Some True, jd_states = []\<rparr>"

definition sample_read :: "string \<Rightarrow> journal_db \<Rightarrow> (journal_error + bool) \<times> journal_db" where
  "sample_read cursor db = CommitJournal False (\<lambda>x. x) sample_codec (\<lambda>_. None) sample_time sample_time 0 (sample_entry cursor) db"

lemma sample_reads: "fst (sample_read ''a'' sample_journal) = Inr True" "seen_ok sample_journal"
  by code_simp+

theorem journal_entry_once_witness:
  "fst (sample_read ''a'' (snd (sample_read ''b'' (snd (sample_read ''a'' sample_journal))))) \<noteq> Inr True \<and>
   jd_auth (snd (sample_read ''a'' (snd (sample_read ''b'' (snd (sample_read ''a'' sample_journal)))))) =
   jd_auth (snd (sample_read ''b'' (snd (sample_read ''a'' sample_journal))))"
proof -
  let ?db1 = "snd (sample_read ''a'' sample_journal)"
  let ?calls = "[(False, sample_time, sample_time, 0, sample_entry ''b'')]"
  have 1: "CommitJournal False (\<lambda>x. x) sample_codec (\<lambda>_. None) sample_time sample_time 0 (sample_entry ''a'') sample_journal = (Inr True, ?db1)"
    using sample_reads(1) by (simp add: sample_read_def prod_eq_iff)
  have 2: "snd (sample_read ''b'' ?db1) = journal_run (\<lambda>x. x) sample_codec (\<lambda>_. None) ?calls ?db1" by (simp add: sample_read_def)
  have 3: "CommitJournal False (\<lambda>x. x) sample_codec (\<lambda>_. None) sample_time sample_time 0 (sample_entry ''a'') (snd (sample_read ''b'' ?db1)) =
      (fst (sample_read ''a'' (snd (sample_read ''b'' ?db1))), snd (sample_read ''a'' (snd (sample_read ''b'' ?db1))))"
    by (simp add: sample_read_def)
  show ?thesis using journal_entry_once [OF 1 _ refl 2 3] by simp
qed

text \<open>The sensor is reported unhealthy.\<close>

definition sample_state :: monitor_state where
  "sample_state = \<lparr>mn_Key = ''health_sensor'', mn_Revision = 0, mn_UpdatedAt = sample_time, mn_Data = ''{}''\<rparr>"

definition sample_monitored :: "(journal_error + unit) \<times> journal_db" where
  "sample_monitored = CommitMonitorState False sample_codec (\<lambda>_. Some (JObject [])) sample_time sample_time 0 sample_state 0
     [(sample_event\<lparr>ev_Kind := ''health_sensor''\<rparr>, [])] sample_journal"

lemma sample_monitors: "succeeds sample_monitored"
proof -
  have "insertEvent sample_codec (sample_event\<lparr>ev_Kind := ''health_sensor''\<rparr>) sample_alerts =
      Inr (sample_alerts\<lparr>al_events := [event_row_of sample_codec (sample_event\<lparr>ev_Kind := ''health_sensor''\<rparr>)]\<rparr>)"
    by (simp add: insertEvent_def sample_codec_def has_event_def sample_alerts_def)
  moreover have "\<not> monitor_invalid (\<lambda>_. Some (JObject [])) sample_state 0 [(sample_event\<lparr>ev_Kind := ''health_sensor''\<rparr>, [])]"
    "monitor_events_ok sample_state [(sample_event\<lparr>ev_Kind := ''health_sensor''\<rparr>, [])]" "\<not> unix_ms (mn_UpdatedAt sample_state) < 0" by code_simp+
  ultimately show ?thesis
    by (simp add: sample_monitored_def CommitMonitorState_def commit_journal_def sample_journal_def and_then_def then_alert_def
      recordEventNotification_def recordOneEventNotification_def decided_def has_event_def succeeds_def)
      (simp add: sample_alerts_def)
qed

theorem monitor_revision_guards_witness:
  "revision_of ''health_sensor'' sample_journal = 0 \<and>
   fst (CommitMonitorState False sample_codec (\<lambda>_. Some (JObject [])) sample_time sample_time 0 sample_state 0 [] (snd sample_monitored)) \<noteq> Inr ()"
  using monitor_revision_guards [OF succeeds_Inr [OF sample_monitors, unfolded sample_monitored_def], of sample_state False sample_time sample_time 0 "[]"]
  by (simp add: sample_monitored_def sample_state_def)

end
