(* ===== verification/DispatchSafety.thy ===== *)
theory DispatchSafety
  imports DispatchRun
begin

text \<open>
  What a run of the outbox guarantees for the notifications that leave through an official interface: a
  request is not repeated unless the platform refused it, a repeated one is recognisable, their
  number is bounded, and nothing is sent without consent or past a hold.
\<close>

section \<open>A request is not repeated\<close>

text \<open>An intent nothing will be sent for: it is not on LINE and not ready.\<close>

definition shut :: "string \<Rightarrow> outbox_db \<Rightarrow> bool" where
  "shut i db \<longleftrightarrow> \<not> is_line i db \<and> (\<forall>d. dispatch_of i db = Some d \<longrightarrow> dp_state d \<noteq> Prepared \<and> dp_state d \<noteq> RetryReady)"

lemma quiet_shut:
  assumes "quiet db db'" "shut i db"
  shows "shut i db'"
  unfolding shut_def
proof (intro conjI allI impI)
  show "\<not> is_line i db'" using quiet_line [OF assms(1)] assms(2) by (auto simp: shut_def)
  fix d' assume "dispatch_of i db' = Some d'"
  then obtain d where "dispatch_of i db = Some d" "quiet_dispatch (is_line i db) d d'" by (rule quiet_dispatchD [OF assms(1)])
  then show "dp_state d' \<noteq> Prepared" "dp_state d' \<noteq> RetryReady"
    using assms(2) by (auto simp: shut_def quiet_dispatch_def quiet_move_def)
qed

lemma is_line_cong: "row_of i db' = row_of i db \<Longrightarrow> is_line i db' = is_line i db"
  by (simp add: is_line_def has_row_def)

lemma resolves_line: "resolves i M db db' \<Longrightarrow> is_line j db' \<Longrightarrow> is_line j db"
  unfolding resolves_def is_line_def has_row_def keeps_row_def by (auto split: option.splits) (metis option.inject option.distinct(1))+

lemma admits_shut:
  assumes "admits j db db'" "request_inv db" "shut i db" "i \<noteq> j"
  shows "shut i db'"
  using assms(1) request_inv_keys [OF assms(2)]
proof (cases rule: admits_cases)
  case unchanged
  then show ?thesis using quiet_shut assms(3) by blast
next
  case (inserted db1)
  have "shut i db1" by (rule quiet_shut [OF inserted(1) assms(3)])
  then show ?thesis using inserted(5) assms(4) is_line_cong [of i db' db1] by (simp add: inserts_def shut_def)
qed

lemma step_shut:
  assumes step: "outbox_step db l db'" and inv: "request_inv db" and shut: "shut i db"
    and ops: "\<And>t. l \<noteq> LEnqueue i t" "l \<noteq> LResolve i ''not_accepted''"
  shows "shut i db' \<and> (\<forall>x. l \<noteq> LBegin i (Some x))"
  using step
proof (cases rule: outbox_step.cases)
  case (admit j t)
  have "i \<noteq> j" using ops(1) admit(1) by blast
  then show ?thesis using admits_shut [OF admission_step_admits [OF admit(2) request_inv_keys [OF inv]] inv shut] admit(1) by simp
next
  case (dispatch fault j dest now minimum beg)
  from dispatch(2) show ?thesis
  proof (cases rule: begin_cases)
    case stopped
    then show ?thesis using quiet_shut [OF _ shut] dispatch(1) by (auto simp: authorised_def split: sum.splits bool.splits prod.splits)
  next
    case (started r d p)
    note after = begin_started [OF started(1,2,13)]
    have "j \<noteq> i" using started(2,3) shut by (auto simp: shut_def)
    then show ?thesis using shut after(1,2) is_line_cong [of i db' db] dispatch(1) by (simp add: shut_def)
  qed
next
  case (resolve fault j now res out)
  from resolve(2) have "shut i db'"
  proof (cases rule: resolve_cases)
    case refused
    then show ?thesis using shut by simp
  next
    case (resolved r d db1)
    have "shut i db1" unfolding shut_def
    proof (intro conjI allI impI)
      show "\<not> is_line i db1" using resolves_line [OF resolved(7)] shut by (auto simp: shut_def)
      fix d' assume "dispatch_of i db1 = Some d'"
      then obtain d0 where d0: "dispatch_of i db = Some d0" "if i = j then same_request d0 d' \<and> dp_first d' = dp_first d0 \<and> dp_attempt d' = dp_attempt d0 \<and>
          dp_budget_day d' = dp_budget_day d0 \<and> (dp_state d0 \<noteq> Accepted \<longrightarrow> outcome_state (rs_Outcome res) (ob_channel r = ''line'') (dp_state d')) else d' = d0"
        using resolved(7) unfolding resolves_def by blast
      have "dp_state d' \<noteq> Prepared \<and> dp_state d' \<noteq> RetryReady"
      proof (cases "i = j")
        case True
        then have "ob_channel r \<noteq> ''line''" using shut resolved(1) by (auto simp: shut_def is_line_def has_row_def)
        moreover have "rs_Outcome res = ''accepted'' \<or> rs_Outcome res = ''unknown''"
          using ops(2) resolve(1) True resolved(4) by (auto simp: resolution_valid_def)
        moreover have "dp_state d0 \<noteq> Accepted" using True d0(1) resolved(2,5) by auto
        ultimately show ?thesis using d0(2) True by (auto simp: outcome_state_def split: if_splits)
      next
        case False
        then show ?thesis using d0 shut by (simp add: shut_def)
      qed
      then show "dp_state d' \<noteq> Prepared" "dp_state d' \<noteq> RetryReady" by blast+
    qed
    then show ?thesis by (rule quiet_shut [OF resolved(9)])
  qed
  then show ?thesis using resolve(1) by simp
qed (use quiet_shut [OF step_quiet [OF step inv] shut] in simp_all)

lemma run_shut:
  assumes "outbox_run db tr db'" "request_inv db" "shut i db" "\<And>t. LEnqueue i t \<notin> set tr" "LResolve i ''not_accepted'' \<notin> set tr"
  shows "shut i db' \<and> (\<forall>x. LBegin i (Some x) \<notin> set tr)"
  using assms
proof (induction rule: outbox_run.induct)
  case (step tr db1 l db2)
  have "shut i db1 \<and> (\<forall>x. LBegin i (Some x) \<notin> set tr)" using step by simp
  moreover have "shut i db2 \<and> (\<forall>x. l \<noteq> LBegin i (Some x))"
    by (rule step_shut [OF step.hyps(2) run_request_inv [OF step.hyps(1) step.prems(1)]]) (use calculation step.prems in auto)
  ultimately show ?case by auto
qed simp


section \<open>A notification along a run\<close>

definition begins :: "string \<Rightarrow> outbox_label \<Rightarrow> bool" where
  "begins i l \<longleftrightarrow> (case l of LBegin j (Some x) \<Rightarrow> j = i | _ \<Rightarrow> False)"

definition posts :: "string \<Rightarrow> outbox_label list \<Rightarrow> int" where
  "posts i tr = int (length (filter (begins i) tr))"

text \<open>The state of a notification after \<open>n\<close> authorisations, compared with its state \<open>r0\<close>, \<open>d0\<close> at the start.\<close>

definition follows :: "string \<Rightarrow> outbox_row \<Rightarrow> dispatch_row \<Rightarrow> int \<Rightarrow> outbox_db \<Rightarrow> bool" where
  "follows i r0 d0 n db \<longleftrightarrow> (\<forall>d. dispatch_of i db = Some d \<longrightarrow> same_request d0 d \<and> (dp_first d0 \<noteq> 0 \<longrightarrow> dp_first d = dp_first d0) \<and>
     dp_attempt d = dp_attempt d0 + n \<and> (dp_state d0 = Accepted \<longrightarrow> dp_state d = Accepted) \<and>
     (\<forall>r. row_of i db = Some r \<longrightarrow> ob_channel r = ob_channel r0 \<and> ob_destination r = ob_destination r0 \<and>
        (dp_payload d = dp_payload d0 \<or> ob_suppressed r \<noteq> None)))"

lemma follows_start: "row_of i db = Some r \<Longrightarrow> dispatch_of i db = Some d \<Longrightarrow> follows i r d 0 db"
  by (auto simp: follows_def same_request_def)

lemma same_request_trans: "same_request d e \<Longrightarrow> same_request e f \<Longrightarrow> same_request d f"
  by (simp add: same_request_def)

lemma quiet_follows:
  assumes "quiet db db'" "keys_ok db'" "follows i r0 d0 n db"
  shows "follows i r0 d0 n db'"
  unfolding follows_def
proof (intro allI impI)
  fix d' assume d': "dispatch_of i db' = Some d'"
  obtain d where d: "dispatch_of i db = Some d" "quiet_dispatch (is_line i db) d d'" using quiet_dispatchD [OF assms(1) d'] .
  have f: "same_request d0 d" "dp_first d0 \<noteq> 0 \<longrightarrow> dp_first d = dp_first d0" "dp_attempt d = dp_attempt d0 + n"
    "dp_state d0 = Accepted \<longrightarrow> dp_state d = Accepted" "\<forall>r. row_of i db = Some r \<longrightarrow> ob_channel r = ob_channel r0 \<and> ob_destination r = ob_destination r0 \<and>
        (dp_payload d = dp_payload d0 \<or> ob_suppressed r \<noteq> None)"
    using assms(3) d(1) unfolding follows_def by blast+
  have "ob_channel r' = ob_channel r0 \<and> ob_destination r' = ob_destination r0 \<and> (dp_payload d' = dp_payload d0 \<or> ob_suppressed r' \<noteq> None)"
    if r': "row_of i db' = Some r'" for r'
  proof -
    obtain r where r: "row_of i db = Some r" "keeps_row r r'" using quiet_rowD [OF assms(1) r'] .
    then show ?thesis using f(5) quiet_payload [OF assms(1) d(1) d' r'] by (auto simp: keeps_row_def)
  qed
  then show "same_request d0 d' \<and> (dp_first d0 \<noteq> 0 \<longrightarrow> dp_first d' = dp_first d0) \<and> dp_attempt d' = dp_attempt d0 + n \<and>
      (dp_state d0 = Accepted \<longrightarrow> dp_state d' = Accepted) \<and> (\<forall>r. row_of i db' = Some r \<longrightarrow> ob_channel r = ob_channel r0 \<and>
        ob_destination r = ob_destination r0 \<and> (dp_payload d' = dp_payload d0 \<or> ob_suppressed r \<noteq> None))"
    using f(1-4) d(2) same_request_trans by (auto simp: quiet_dispatch_def quiet_move_def)
qed

lemma follows_cong:
  assumes "row_of i db' = row_of i db" "dispatch_of i db' = dispatch_of i db"
  shows "follows i r0 d0 n db' = follows i r0 d0 n db"
  by (simp add: follows_def assms)

lemma admits_follows:
  assumes "admits j db db'" "request_inv db" "follows i r0 d0 n db" "i \<noteq> j"
  shows "follows i r0 d0 n db'"
  using assms(1) request_inv_keys [OF assms(2)]
proof (cases rule: admits_cases)
  case unchanged
  then show ?thesis using quiet_follows quiet_keys request_inv_keys assms(2,3) by blast
next
  case (inserted db1)
  have "follows i r0 d0 n db1" using quiet_follows inserted(1,2) assms(3) by blast
  then show ?thesis using follows_cong [of i db' db1] inserted(5) assms(4) by (simp add: inserts_def)
qed

lemma step_follows:
  assumes step: "outbox_step db l db'" and inv: "request_inv db" and f: "follows i r0 d0 n db" and "\<And>t. l \<noteq> LEnqueue i t"
  shows "follows i r0 d0 (n + (if begins i l then 1 else 0)) db' \<and>
    (begins i l \<longrightarrow> dp_attempt d0 + n < MaxDeliveryAttempts \<and> dp_state d0 \<noteq> Accepted)"
  using step
proof (cases rule: outbox_step.cases)
  case (admit j t)
  have "i \<noteq> j" using assms(4) admit(1) by blast
  then show ?thesis using admits_follows [OF admission_step_admits [OF admit(2) request_inv_keys [OF inv]] inv f] admit(1)
    by (simp add: begins_def)
next
  case (dispatch fault j dest now minimum beg)
  from dispatch(2) show ?thesis
  proof (cases rule: begin_cases)
    case stopped
    then have "\<not> begins i l" using dispatch(1) by (auto simp: begins_def authorised_def split: sum.splits bool.splits prod.splits)
    then show ?thesis using quiet_follows [OF stopped(1) quiet_keys [OF stopped(1) request_inv_keys [OF inv]] f] by simp
  next
    case (started r d p)
    note after = begin_started [OF started(1,2,13)]
    have b: "begins i l \<longleftrightarrow> j = i" using dispatch(1) started(12) by (simp add: begins_def authorised_def)
    show ?thesis
    proof (cases "j = i")
      case True
      have "same_request d0 d" "dp_first d0 \<noteq> 0 \<longrightarrow> dp_first d = dp_first d0" "dp_attempt d = dp_attempt d0 + n"
        "dp_state d0 = Accepted \<longrightarrow> dp_state d = Accepted"
        "ob_channel r = ob_channel r0 \<and> ob_destination r = ob_destination r0 \<and> (dp_payload d = dp_payload d0 \<or> ob_suppressed r \<noteq> None)"
        using f started(1,2) True unfolding follows_def by blast+
      then show ?thesis using True b after(1,3) started(1,3,9) by (auto simp: follows_def same_request_def)
    next
      case False
      then show ?thesis using b f follows_cong [of i db' db] after(1,2) by simp
    qed
  qed
next
  case (resolve fault j now res out)
  from resolve(2) have "follows i r0 d0 n db'"
  proof (cases rule: resolve_cases)
    case refused
    then show ?thesis using f by simp
  next
    case (resolved r d db1)
    have "follows i r0 d0 n db1" unfolding follows_def
    proof (intro allI impI)
      fix d' assume "dispatch_of i db1 = Some d'"
      then obtain e where e: "dispatch_of i db = Some e" "dp_payload d' = dp_payload e" "if i = j then same_request e d' \<and> dp_first d' = dp_first e \<and> dp_attempt d' = dp_attempt e \<and>
          dp_budget_day d' = dp_budget_day e \<and> (dp_state e \<noteq> Accepted \<longrightarrow> outcome_state (rs_Outcome res) (ob_channel r = ''line'') (dp_state d')) else d' = e"
        using resolved(7) unfolding resolves_def by blast
      have "same_request e d' \<and> dp_first d' = dp_first e \<and> dp_attempt d' = dp_attempt e \<and> (dp_state e = Accepted \<longrightarrow> dp_state d' = Accepted)"
        using e(1,3) resolved(2,5) by (cases "i = j") (auto simp: same_request_def)
      moreover have "\<exists>r. row_of i db = Some r \<and> keeps_row r r'" if "row_of i db1 = Some r'" for r'
        using resolved(7) that unfolding resolves_def by blast
      moreover have "same_request d0 e \<and> (dp_first d0 \<noteq> 0 \<longrightarrow> dp_first e = dp_first d0) \<and> dp_attempt e = dp_attempt d0 + n \<and>
          (dp_state d0 = Accepted \<longrightarrow> dp_state e = Accepted)"
        "\<forall>r. row_of i db = Some r \<longrightarrow> ob_channel r = ob_channel r0 \<and> ob_destination r = ob_destination r0 \<and> (dp_payload e = dp_payload d0 \<or> ob_suppressed r \<noteq> None)"
        using f e(1) unfolding follows_def by blast+
      ultimately show "same_request d0 d' \<and> (dp_first d0 \<noteq> 0 \<longrightarrow> dp_first d' = dp_first d0) \<and> dp_attempt d' = dp_attempt d0 + n \<and>
        (dp_state d0 = Accepted \<longrightarrow> dp_state d' = Accepted) \<and> (\<forall>r. row_of i db1 = Some r \<longrightarrow> ob_channel r = ob_channel r0 \<and>
          ob_destination r = ob_destination r0 \<and> (dp_payload d' = dp_payload d0 \<or> ob_suppressed r \<noteq> None))"
        using e(2) by (fastforce simp: same_request_def keeps_row_def)
    qed
    moreover have "keys_ok db1" using resolved(7) request_inv_keys [OF inv] by (simp add: resolves_def)
    ultimately show ?thesis using quiet_follows [OF resolved(9)] quiet_keys [OF resolved(9)] by blast
  qed
  then show ?thesis using resolve(1) by (simp add: begins_def)
qed (use quiet_follows [OF step_quiet [OF step inv] quiet_keys [OF step_quiet [OF step inv] request_inv_keys [OF inv]] f] in \<open>simp_all add: begins_def\<close>)

lemma run_follows:
  assumes "outbox_run db tr db'" "request_inv db" "row_of i db = Some r" "dispatch_of i db = Some d" "\<And>t. LEnqueue i t \<notin> set tr"
  shows "follows i r d (posts i tr) db' \<and> dp_attempt d + posts i tr \<le> MaxDeliveryAttempts \<and> (dp_state d = Accepted \<longrightarrow> posts i tr = 0)"
  using assms
proof (induction rule: outbox_run.induct)
  case start
  then show ?case using follows_start request_inv_entry by (auto simp: posts_def entry_ok_def)
next
  case (step tr db1 l db2)
  have ih: "follows i r d (posts i tr) db1" "dp_attempt d + posts i tr \<le> MaxDeliveryAttempts" "dp_state d = Accepted \<longrightarrow> posts i tr = 0"
    using step by simp_all
  have "follows i r d (posts i tr + (if begins i l then 1 else 0)) db2 \<and>
      (begins i l \<longrightarrow> dp_attempt d + posts i tr < MaxDeliveryAttempts \<and> dp_state d \<noteq> Accepted)"
    by (rule step_follows [OF step.hyps(2) run_request_inv [OF step.hyps(1) step.prems(1)] ih(1)]) (use step.prems in auto)
  then show ?case using ih by (auto simp: posts_def)
qed

text \<open>C13: retries end. However the operations are interleaved, one admitted notification is authorised to be
  sent at most ten times, counting the attempts it starts with.\<close>

theorem posts_bounded:
  assumes "request_inv db" "row_of i db = Some r" "dispatch_of i db = Some d" "outbox_run db tr db'" "\<And>t. LEnqueue i t \<notin> set tr"
  shows "dp_attempt d + posts i tr \<le> MaxDeliveryAttempts"
  using run_follows [OF assms(4,1,2,3,5)] by blast

text \<open>C12: acceptance is final. Once the platform accepted a notification, no operation authorises it again and
  its intent stays accepted for as long as it is kept.\<close>

theorem accepted_is_final:
  assumes "request_inv db" "row_of i db = Some r" "dispatch_of i db = Some d" "dp_state d = Accepted"
    and "outbox_run db tr db'" "\<And>t. LEnqueue i t \<notin> set tr"
  shows "posts i tr = 0 \<and> (\<forall>d'. dispatch_of i db' = Some d' \<longrightarrow> dp_state d' = Accepted)"
  using run_follows [OF assms(5,1,2,3,6)] assms(4) by (auto simp: follows_def)

lemma begin_authorised:
  assumes "request_inv db" "BeginOfficialDispatch fault i dest now minimum db = (Inr ((r, d'), True), db')"
  obtains d p where "row_of i db = Some r" "dispatch_of i db = Some d" "dp_state d = Prepared \<or> dp_state d = RetryReady"
      "officialChannel (ob_channel r)" "ob_destination r = dest" "dispatchable i now db r"
      "map_of (od_policies db) (ob_channel r) = Some p" "dispatch_refusal now r d p = []" "dp_attempt d < MaxDeliveryAttempts"
      "d' = d\<lparr>dp_state := InFlight, dp_attempt := dp_attempt d + 1, dp_first := (if dp_first d = 0 then unix_ms now else dp_first d)\<rparr>"
      "0 < unix_ms now"
      "db' = start_dispatch i (ob_channel r) dest now minimum (dp_first d') (if dp_budget_day d < 0 then utc_day now else dp_budget_day d)
         (if dp_budget_day d < 0 then debit (ob_channel r) (utc_day now) (dp_segments d) db else db)"
      "dp_budget_day d < 0 \<Longrightarrow> fst (usage_of (ob_channel r) (utc_day now) db) < po_messages p \<and>
         (ob_channel r = ''twilio_sms'' \<longrightarrow> snd (usage_of (ob_channel r) (utc_day now) db) + dp_segments d \<le> po_segments p)"
  using assms(2)
proof (cases rule: begin_cases)
  case (started r0 d p)
  have r0: "r0 = r" and d': "d' = d\<lparr>dp_state := InFlight, dp_attempt := dp_attempt d + 1, dp_first := (if dp_first d = 0 then unix_ms now else dp_first d)\<rparr>"
    using started(12) by auto
  obtain q where q: "q \<in> set (od_rows db)" "dispatchable i now db q" using started(6) by (auto simp: list_ex_iff)
  have "row_of (ob_id q) db = Some q"
    unfolding row_of_def by (rule find_key [OF _ q(1)]) (use request_inv_keys [OF assms(1)] in \<open>simp add: keys_ok_def\<close>)
  then have "q = r0" using q(2) started(1) by (simp add: dispatchable_def)
  then show ?thesis using that [of d p] started q(2) r0 d' by simp
qed blast

lemma begin_after:
  assumes "request_inv db" "BeginOfficialDispatch fault i dest now minimum db = (Inr ((r, d'), True), db')"
  obtains e where "row_of i db' = Some r" "dispatch_of i db' = Some e" "dp_state e = InFlight" "same_request d' e" "dp_payload e = dp_payload d'"
    "dp_first e = dp_first d'" "dp_first e \<noteq> 0" "dp_attempt e = dp_attempt d'" "request_inv db'"
  using assms
proof (cases rule: begin_authorised)
  case (1 d p)
  have first: "dp_first d' = (if dp_first d = 0 then unix_ms now else dp_first d)" by (simp add: 1(10))
  note after = begin_started [OF 1(1,2) 1(12) [unfolded first]]
  show ?thesis by (rule that [OF _ after(3)]) (use after(1) 1(1,10,11) begin_request_inv [OF assms] in \<open>auto simp: same_request_def\<close>)
qed

text \<open>C11: a repeated request is recognisable. Every later authorisation of a notification carries the same key,
  the same text and the same first attempt to the same receiver, and on LINE it happens within the
  day in which the platform recognises the key.\<close>

theorem repeats_identical:
  assumes "request_inv db"
    and first: "BeginOfficialDispatch fault i dest now minimum db = (Inr ((r, d), True), db1)"
    and run: "outbox_run db1 tr db2" "\<And>t. LEnqueue i t \<notin> set tr"
    and second: "BeginOfficialDispatch fault' i dest' now' minimum' db2 = (Inr ((r', d'), True), db3)"
  shows "dp_retry_key d' = dp_retry_key d \<and> dp_payload d' = dp_payload d \<and> dp_first d' = dp_first d \<and> dp_attempt d < dp_attempt d' \<and>
    ob_destination r' = ob_destination r \<and>
    (ob_channel r = ''line'' \<longrightarrow> time_sub now' (dp_first d * millisecond) < OfficialLINEWindow)"
proof -
  obtain e where e: "row_of i db1 = Some r" "dispatch_of i db1 = Some e" "same_request d e" "dp_payload e = dp_payload d" "dp_first e = dp_first d"
    "dp_first e \<noteq> 0" "dp_attempt e = dp_attempt d" "request_inv db1"
    using begin_after [OF assms(1) first] by metis
  have f: "follows i r e (posts i tr) db2" using run_follows [OF run(1) e(8,1,2) run(2)] by blast
  have inv2: "request_inv db2" by (rule run_request_inv [OF run(1) e(8)])
  have nonneg: "0 \<le> posts i tr" by (simp add: posts_def)
  from inv2 second show ?thesis
  proof (cases rule: begin_authorised)
    case (1 d2 p)
    have g: "same_request e d2" "dp_first d2 = dp_first e" "dp_attempt d2 = dp_attempt e + posts i tr"
      "ob_channel r' = ob_channel r" "ob_destination r' = ob_destination r" "dp_payload d2 = dp_payload e \<or> ob_suppressed r' \<noteq> None"
      using f 1(1,2) e(6) unfolding follows_def by auto
    have open': "ob_suppressed r' = None" using 1(6) by (simp add: dispatchable_def open_row_def)
    have pos: "0 < dp_first d2" using request_inv_entry [OF inv2 1(2,1)] g(2) e(6) by (simp add: entry_ok_def)
    have "ob_channel r = ''line'' \<longrightarrow> time_sub now' (dp_first d * millisecond) < OfficialLINEWindow"
      using refusal_empty(2) [OF 1(8,4)] pos g(2,4) e(5) by simp
    then show ?thesis using g open' e 1(10) nonneg by (simp add: same_request_def)
  qed
qed

end
