(* ===== verification/DispatchLife.thy ===== *)
theory DispatchLife
  imports DispatchSafety
begin

text \<open>
  The abstract life of a request and the refinement of it by the outbox, the consent and the daily
  budget behind every authorisation, and the recovery of requests whose sender disappeared.
\<close>

section \<open>The life of a request\<close>

text \<open>
  The abstract view of one notification: absent, or the state of its intent and the number of times it was
  authorised.
\<close>

type_synonym life = "(dispatch_state \<times> int) option"

inductive lifecycle :: "life \<Rightarrow> life \<Rightarrow> bool" where
  admitted: "s = Prepared \<or> s = Blocked \<Longrightarrow> lifecycle None (Some (s, 0))"
| forgotten: "lifecycle (Some x) None"
| authorised: "s = Prepared \<or> s = RetryReady \<Longrightarrow> 0 \<le> n \<Longrightarrow> n < MaxDeliveryAttempts \<Longrightarrow> lifecycle (Some (s, n)) (Some (InFlight, n + 1))"
| confirmed: "s = InFlight \<or> s = DeliveryUnknown \<or> s = RetryReady \<Longrightarrow> lifecycle (Some (s, n)) (Some (Accepted, n))"
| refused: "lifecycle (Some (InFlight, n)) (Some (RetryReady, n))"
| stopped: "s \<noteq> Accepted \<Longrightarrow> t = DeliveryUnknown \<or> t = Blocked \<Longrightarrow> lifecycle (Some (s, n)) (Some (t, n))"

definition life_of :: "string \<Rightarrow> outbox_db \<Rightarrow> life" where
  "life_of i db = map_option (\<lambda>d. (dp_state d, dp_attempt d)) (dispatch_of i db)"

lemmas life_steps = lifecycle.intros [THEN r_into_rtranclp [where r = lifecycle]]

lemma quiet_life:
  assumes "quiet db db'"
  shows "lifecycle\<^sup>*\<^sup>* (life_of i db) (life_of i db')"
proof (cases "dispatch_of i db'")
  case None
  then show ?thesis by (cases "dispatch_of i db") (auto simp: life_of_def intro: life_steps)
next
  case (Some d')
  then obtain d where "dispatch_of i db = Some d" "quiet_dispatch (is_line i db) d d'" using quiet_dispatchD [OF assms] by blast
  then show ?thesis using Some
    by (auto simp: life_of_def quiet_dispatch_def quiet_move_def intro: life_steps)
qed

lemma resolved_life:
  assumes "resolves i M db db1" "dispatch_of i db = Some d"
    and M: "\<And>e'. M d e' \<Longrightarrow> outcome_state outcome l (dp_state e')"
    and "dp_state d = InFlight \<or> outcome = ''accepted'' \<and> (dp_state d = DeliveryUnknown \<or> dp_state d = RetryReady)"
  shows "lifecycle\<^sup>*\<^sup>* (life_of j db) (life_of j db1)"
proof (cases "dispatch_of j db1")
  case None
  then show ?thesis by (cases "dispatch_of j db") (auto simp: life_of_def intro: life_steps)
next
  case (Some e')
  then obtain e where e: "dispatch_of j db = Some e" "if j = i then dp_attempt e' = dp_attempt e \<and> M e e' else e' = e"
    using assms(1) unfolding resolves_def by (metis (full_types))
  show ?thesis
  proof (cases "j = i")
    case True
    then have "outcome_state outcome l (dp_state e')" "e = d" "dp_attempt e' = dp_attempt d" using e assms(2) M by auto
    then show ?thesis using Some e assms(4)
      by (auto simp: life_of_def outcome_state_def intro: life_steps split: if_splits)
  qed (use Some e in \<open>simp add: life_of_def\<close>)
qed

lemma inserted_life:
  assumes "inserts i db db'" "keys_ok db"
  shows "lifecycle\<^sup>*\<^sup>* (life_of j db) (life_of j db')"
proof (cases "j = i")
  case True
  have none: "dispatch_of i db = None" using assms by (auto simp: inserts_def keys_ok_def)
  show ?thesis
  proof (cases "dispatch_of i db'")
    case (Some d')
    then have "(dp_state d' = Prepared \<or> dp_state d' = Blocked) \<and> dp_attempt d' = 0" using assms(1) none by (auto simp: inserts_def)
    then show ?thesis using Some none True by (auto simp: life_of_def intro!: r_into_rtranclp lifecycle.admitted)
  qed (simp add: True life_of_def none)
qed (use assms(1) in \<open>simp add: inserts_def life_of_def\<close>)

lemma step_life:
  assumes step: "outbox_step db l db'" and inv: "request_inv db"
  shows "lifecycle\<^sup>*\<^sup>* (life_of i db) (life_of i db')"
  using step
proof (cases rule: outbox_step.cases)
  case (admit j t)
  show ?thesis using admission_step_admits [OF admit(2) request_inv_keys [OF inv]] request_inv_keys [OF inv]
  proof (cases rule: admits_cases)
    case unchanged
    then show ?thesis using quiet_life by blast
  next
    case (inserted db1)
    show ?thesis by (rule rtranclp_trans [OF quiet_life [OF inserted(1)] inserted_life [OF inserted(5,2)]])
  qed
next
  case (dispatch fault j dest now minimum beg)
  from dispatch(2) show ?thesis
  proof (cases rule: begin_cases)
    case stopped
    then show ?thesis using quiet_life by blast
  next
    case (started r d p)
    note after = begin_started [OF started(1,2,13)]
    show ?thesis
    proof (cases "i = j")
      case True
      have "0 \<le> dp_attempt d" using request_inv_entry [OF inv started(2,1)] by (simp add: entry_ok_def)
      then show ?thesis using True started(2,3,9) after(3) lifecycle.authorised [of "dp_state d" "dp_attempt d"]
        by (simp add: life_of_def r_into_rtranclp)
    qed (use after(2) in \<open>simp add: life_of_def\<close>)
  qed
next
  case (resolve fault j now res out)
  from resolve(2) show ?thesis
  proof (cases rule: resolve_cases)
    case (resolved r d db1)
    have "lifecycle\<^sup>*\<^sup>* (life_of i db) (life_of i db1)"
      by (rule resolved_life [OF resolved(7,2) _ resolved(5)]) (use resolved(5) in auto)
    then show ?thesis using rtranclp_trans quiet_life [OF resolved(9)] by metis
  qed simp
qed (rule quiet_life [OF step_quiet [OF step inv]]; simp)+


section \<open>Consent\<close>

text \<open>C15: nothing is sent without consent. An authorised request has a live subscription that covers its
  kind, an enabled receiver that is not on hold, a claim that is still valid, and its intent is stored as
  in flight before anything leaves the host.\<close>

theorem begin_consented:
  assumes "request_inv db" "BeginOfficialDispatch fault i dest now minimum db = (Inr ((r, d), True), db')"
  shows "(\<exists>p. map_of (od_policies db) (ob_channel r) = Some p \<and> po_enabled p \<and> \<not> po_revoked p \<and> po_optout p \<le> 0 \<and> \<not> po_restore_hold p \<and>
      0 < po_consented p \<and> po_consented p \<le> unix_ms now \<and> po_purpose p \<noteq> [] \<and> po_evidence p \<noteq> [] \<and> dp_kind d \<in> set (po_types p) \<and>
      (paidOfficialChannel (ob_channel r) \<longrightarrow> po_cost p)) \<and>
    open_row r \<and> lease_live (unix_ms now) r \<and> unix_ms now < ob_expires r \<and>
    target_enabled (ob_channel r) dest db \<and> \<not> on_hold (unix_ms now) dest db \<and>
    has_dispatch (\<lambda>e. dp_state e = InFlight \<and> dp_attempt e = dp_attempt d \<and> dp_payload e = dp_payload d) i db'"
  using assms
proof (cases rule: begin_authorised)
  case (1 d0 p)
  have kind: "dp_kind d = dp_kind d0" by (simp add: 1(10))
  have "has_dispatch (\<lambda>e. dp_state e = InFlight \<and> dp_attempt e = dp_attempt d \<and> dp_payload e = dp_payload d) i db'"
    by (rule begin_after [OF assms]) (simp add: has_dispatch_def)
  moreover have "open_row r \<and> lease_live (unix_ms now) r \<and> unix_ms now < ob_expires r \<and>
      target_enabled (ob_channel r) dest db \<and> \<not> on_hold (unix_ms now) dest db"
    using 1(5,6) by (simp add: dispatchable_def)
  ultimately show ?thesis using 1(7) refusal_empty(1,3,4,5) [OF 1(8,4)] kind by auto
qed

section \<open>Recovery\<close>

text \<open>An intent is settled when its sender still holds the claim, or when nothing will be sent for it and the
  operator sees that.\<close>

definition settled :: "time \<Rightarrow> outbox_row \<Rightarrow> dispatch_row \<Rightarrow> bool" where
  "settled now r d \<longleftrightarrow> (dp_state d = InFlight \<longrightarrow> lease_live (unix_ms now) r) \<and>
     (stopped_dispatch d \<and> holds_capacity r \<longrightarrow> ob_quarantined r \<noteq> None \<and> ob_lease r = None)"

lemma recover_flight:
  assumes "dispatch_of i (close_line_window now (recover_in_flight now db)) = Some d" "dp_state d = InFlight" "row_of i db = Some r"
  shows "lease_live (unix_ms now) r"
proof -
  obtain d0 where d0: "dispatch_of i db = Some d0" "dp_id d0 = i"
    using assms(1) dispatch_of_Some by (auto simp: close_line_window_def recover_in_flight_def)
  show ?thesis
  proof (rule ccontr)
    assume "\<not> lease_live (unix_ms now) r"
    then have free: "has_row (lease_free (unix_ms now)) i db"
      using assms(3) by (auto simp: has_row_def lease_live_def lease_free_def split: option.splits)
    obtain d1 where "dispatch_of i (recover_in_flight now db) = Some d1" "dp_state d1 \<noteq> InFlight"
      using d0 free by (auto simp: recover_in_flight_def)
    then show False using assms(1,2) by (auto simp: close_line_window_def split: if_splits)
  qed
qed

lemma recover_settled:
  assumes "row_of i (recoverOfficialIntents now db) = Some r" "dispatch_of i (recoverOfficialIntents now db) = Some d"
  shows "settled now r d"
proof -
  define db2 where "db2 = close_line_window now (recover_in_flight now db)"
  have rows: "row_of i db2 = row_of i db" by (simp add: db2_def close_line_window_def recover_in_flight_def)
  have d: "dispatch_of i db2 = Some d" using assms(2) by (simp add: recoverOfficialIntents_def quarantine_stopped_def db2_def)
  obtain r0 where r0: "row_of i db = Some r0" "ob_id r0 = i" using assms(1) row_of_Some rows
    by (auto simp: recoverOfficialIntents_def quarantine_stopped_def simp flip: db2_def)
  have r: "r = (if holds_capacity r0 \<and> stopped_dispatch d then r0\<lparr>ob_lease := None,
      ob_quarantined := (case ob_quarantined r0 of None \<Rightarrow> Some (unix_ms now) | Some t \<Rightarrow> Some t), ob_last_error := dp_reason d\<rparr> else r0)"
    using assms(1) r0 rows d
    by (auto simp: recoverOfficialIntents_def quarantine_stopped_def has_dispatch_def simp flip: db2_def split: if_splits)
  have "lease_live (unix_ms now) r0" if "dp_state d = InFlight"
    by (rule recover_flight [OF d [unfolded db2_def] that r0(1)])
  then show ?thesis unfolding settled_def r by (auto simp: stopped_dispatch_def holds_capacity_def split: option.splits)
qed

lemma polls_settled:
  assumes "row_of i (expireOfficialPolls now db) = Some r" "dispatch_of i (expireOfficialPolls now db) = Some d"
    and "\<And>r d. row_of i db = Some r \<Longrightarrow> dispatch_of i db = Some d \<Longrightarrow> settled now r d"
  shows "settled now r d"
  using assms by (auto simp: expireOfficialPolls_def settled_def stopped_dispatch_def split: if_splits)

lemma fold_min_max: "fold min xs (a :: int) \<le> a \<and> a \<le> fold max xs a"
proof (induction xs arbitrary: a)
  case (Cons x xs)
  from Cons.IH [of "min x a"] Cons.IH [of "max x a"] show ?case by auto
qed simp

lemma recordRetention_succeeds:
  assumes "rd_tracking d" "max_id (rd_ledger d) \<noteq> max_int64" "ValidRetentionDataset dataset" "ValidRetentionReason reason"
    and "0 \<le> k" "start \<le> end" "\<not> is_zero now"
  shows "\<exists>d'. recordRetention dataset reason k start end now d = Inr d'"
  using assms by (auto simp: recordRetention_def Let_def not_less)

lemma expire_succeeds:
  assumes "rd_tracking (od_retention db)" "max_id (rd_ledger (od_retention db)) \<noteq> max_int64" "\<not> is_zero now"
  shows "\<exists>db'. ExpireNotifications False now db = (Inr (), db')"
proof -
  define db1 where "db1 = expireOfficialPolls now (recoverOfficialIntents now db)"
  define db2 where "db2 = db1\<lparr>od_expired := min (od_expired db1) (max_int64 - count_rows (outdated now) db1) + count_rows (outdated now) db1\<rparr>"
  have ret: "od_retention db2 = od_retention db"
    by (simp add: db2_def db1_def expireOfficialPolls_def recoverOfficialIntents_def quarantine_stopped_def close_line_window_def
      recover_in_flight_def update_rows_def update_dispatch_def)
  define gone where "gone = map ob_created (filter (outdated now) (od_rows db2))"
  have "(if gone = [] then 0 else fold min gone (hd gone)) \<le> (if gone = [] then 0 else fold max gone (hd gone))"
    using fold_min_max [of gone "hd gone"] by simp
  from recordRetention_succeeds [OF assms(1,2) _ _ _ this assms(3), of "''notification_outbox''" "''time_expiry''" "int (length gone)"]
  obtain rd where "recordRetention ''notification_outbox'' ''time_expiry'' (int (length gone)) (if gone = [] then 0 else fold min gone (hd gone))
      (if gone = [] then 0 else fold max gone (hd gone)) now (od_retention db) = Inr rd"
    by (auto simp: ValidRetentionDataset_def retentionDatasets_def ValidRetentionReason_def)
  then have "\<exists>db3. prune_outbox ''time_expiry'' (outdated now) now db2 = Inr db3"
    unfolding prune_outbox_def Let_def gone_def [symmetric] ret by simp
  then show ?thesis by (auto simp: ExpireNotifications_def transact_def expire_body_def Let_def db1_def db2_def)
qed

text \<open>C28: interrupted requests are recovered. One run of the expiry, which every look at the queue begins with,
  settles every intent: none stays in flight once the claim of its sender has ended, and one that
  will not be sent is quarantined.\<close>

theorem expiry_settles:
  assumes "request_inv db" "rd_tracking (od_retention db)" "max_id (rd_ledger (od_retention db)) \<noteq> max_int64" "\<not> is_zero now"
  shows "\<exists>db'. ExpireNotifications False now db = (Inr (), db') \<and>
    (\<forall>i r d. row_of i db' = Some r \<longrightarrow> dispatch_of i db' = Some d \<longrightarrow> settled now r d)"
proof -
  obtain db' where exp: "ExpireNotifications False now db = (Inr (), db')" using expire_succeeds [OF assms(2-4)] by blast
  then have "expire_body now db = Inr ((), db')" by (auto simp: ExpireNotifications_def transact_def split: sum.splits)
  then obtain db1 where ids: "map ob_id (od_rows db1) = map ob_id (od_rows db)"
    and kept: "od_rows db' = od_rows (delete_rows (outdated now) db1)" "od_dispatch db' = od_dispatch (delete_rows (outdated now) db1)"
    and db1: "db1 = expireOfficialPolls now (recoverOfficialIntents now db)"
    by (elim expire_body_Inr)
  have "settled now r d" if r: "row_of i db' = Some r" and d: "dispatch_of i db' = Some d" for i r d
  proof (rule polls_settled [OF _ _ recover_settled])
    have "distinct (map ob_id (od_rows db1))" using request_inv_keys [OF assms(1)] by (simp add: ids keys_ok_def)
    then show "row_of i (expireOfficialPolls now (recoverOfficialIntents now db)) = Some r"
      using row_of_delete r by (metis row_of_cong kept(1) db1)
    show "dispatch_of i (expireOfficialPolls now (recoverOfficialIntents now db)) = Some d"
      using d dispatch_of_cong [OF kept(2)] by (auto simp: dispatch_of_delete db1 split: if_splits)
  qed
  then show ?thesis using exp by blast
qed

section \<open>The daily budget\<close>

definition limits :: "outbox_db \<Rightarrow> (string \<times> int \<times> int) list" where
  "limits db = map (\<lambda>(c, p). (c, po_messages p, po_segments p)) (od_policies db)"

text \<open>An operation that changes neither the configured limits nor what was spent.\<close>

definition same_funds :: "outbox_db \<Rightarrow> outbox_db \<Rightarrow> bool" where
  "same_funds db db' \<longleftrightarrow> limits db' = limits db \<and> od_usage db' = od_usage db"

lemma same_funds_refl [simp]: "same_funds db db"
  by (simp add: same_funds_def)

lemma same_funds_trans: "same_funds db db1 \<Longrightarrow> same_funds db1 db2 \<Longrightarrow> same_funds db db2"
  by (simp add: same_funds_def)

lemma same_funds_tables: "od_policies db' = od_policies db \<Longrightarrow> od_usage db' = od_usage db \<Longrightarrow> same_funds db db'"
  by (simp add: same_funds_def limits_def)

lemma limits_set_policy [simp]:
  "(\<And>q. po_messages (f q) = po_messages q) \<Longrightarrow> (\<And>q. po_segments (f q) = po_segments q) \<Longrightarrow> limits (set_policy c f db) = limits db"
  by (auto simp: limits_def set_policy_def)

lemma limits_frame [simp]:
  "limits (update_rows P f db) = limits db" "limits (update_dispatch Q g db) = limits db" "limits (hold_destination x ms db) = limits db"
  "limits (put_usage c day h m s db) = limits db"
  by (simp_all add: limits_def)

lemma savings_frame [simp]:
  "limits (savePlatformCharge i n p u db) = limits db" "od_usage (savePlatformCharge i n p u db) = od_usage db"
  "limits (save_status i h a db) = limits db" "od_usage (save_status i h a db) = od_usage db"
  "limits (persistOfficialOptout c now db) = limits db" "od_usage (persistOfficialOptout c now db) = od_usage db"
  "limits (blockOfficial i reason now unknown db) = limits db" "od_usage (blockOfficial i reason now unknown db) = od_usage db"
  "limits (make_ready i reason ms db) = limits db" "od_usage (make_ready i reason ms db) = od_usage db"
  by (simp_all add: savePlatformCharge_def save_status_def persistOfficialOptout_def suppress_channel_def blockOfficial_def make_ready_def)

lemma outcome_funds:
  "same_funds db (resolve_accepted i now res r d db)" "same_funds db (resolve_unknown i now res r d db)"
  "same_funds db (resolve_refused i now res r d db)"
  by (simp_all add: same_funds_def resolve_accepted_def resolve_unknown_def resolve_refused_def Let_def) (simp add: limits_def)

lemma resolve_funds:
  assumes "ResolveOfficialDispatch fault i now res db = (out, db')"
  shows "same_funds db db'"
proof -
  have "same_funds db db1" if "resolve_body i now res db = Inr (x, db1)" for x db1
    using that outcome_funds [of db i now res]
    unfolding resolve_body_def Let_def by (auto simp: same_funds_def split: option.splits prod.splits if_split_asm)
  then show ?thesis using assms by (auto simp: ResolveOfficialDispatch_def transact_def split: sum.splits prod.splits if_splits)
qed

lemma poll_funds:
  assumes "ResolveOfficialPoll fault i now res db = (out, db')"
  shows "same_funds db db'"
proof -
  have "same_funds db db1" if "poll_body i now res db = Inr (x, db1)" for x db1
    using that unfolding poll_body_def Let_def by (auto simp: same_funds_def split: option.splits prod.splits if_split_asm)
  then show ?thesis using assms by (auto simp: ResolveOfficialPoll_def transact_def split: sum.splits prod.splits if_splits)
qed

lemma expire_funds: "ExpireNotifications fault now db = (out, db') \<Longrightarrow> same_funds db db'"
  using Expire_tables by (simp add: same_funds_tables)

lemma pending_funds: "pendingDestination fault now n dest db = (out, db') \<Longrightarrow> same_funds db db'"
  using expire_funds [of fault now db] by (auto simp: pendingDestination_def Let_def split: prod.splits sum.splits)

lemma claim_funds: "ClaimNotification fault i now db = (out, db') \<Longrightarrow> same_funds db db'"
  by (rule same_funds_tables) (auto simp: ClaimNotification_def transact_def Let_def split: if_splits option.splits sum.splits prod.splits)

lemma queue_funds:
  "ReleaseNotificationClaim fault i db = (out, db') \<Longrightarrow> same_funds db db'"
  "MarkFailed fault i wall t msg db = (out, db') \<Longrightarrow> same_funds db db'"
  "ReserveNotificationAttempt fault i dest now minimum db = (reserved, db') \<Longrightarrow> same_funds db db'"
  "MarkRateLimited fault i dest wall until reason db = (out, db') \<Longrightarrow> same_funds db db'"
  "quarantine fault i now reason attempted db = (out, db') \<Longrightarrow> same_funds db db'"
  "RetryNotification fault i now db = (out, db') \<Longrightarrow> same_funds db db'"
  "ResumeDestination fault wall dest db = (out, db') \<Longrightarrow> same_funds db db'"
  "DiscardIsolatedNotifications fault c now db = (number, db') \<Longrightarrow> same_funds db db'"
  unfolding ReleaseNotificationClaim_def MarkFailed_def ReserveNotificationAttempt_def MarkRateLimited_def quarantine_def
    RetryNotification_def ResumeDestination_def DiscardIsolatedNotifications_def
  by (rule same_funds_tables; auto simp: transact_def Let_def split: if_splits)+

lemma sent_funds: "MarkSentWithCooldown fault i now minimum db = (out, db') \<Longrightarrow> same_funds db db'"
  by (rule same_funds_tables) (auto simp: MarkSentWithCooldown_def transact_def Let_def split: if_splits option.splits)

lemma target_funds: "ConfigureNotificationTarget fault c dest privacy enabled now db = (out, db') \<Longrightarrow> same_funds db db'"
  by (rule same_funds_tables) (auto simp: ConfigureNotificationTarget_def transact_def Let_def split: if_splits)

lemma polls_funds:
  "PendingOfficialPolls fault dest now n db = (polls, db') \<Longrightarrow> same_funds db db'"
  "ClaimOfficialPoll fault i dest now db = (poll, db') \<Longrightarrow> same_funds db db'"
  by (rule same_funds_tables; auto simp: PendingOfficialPolls_def ClaimOfficialPoll_def expireOfficialPolls_def transact_def Let_def
    split: if_splits option.splits)+

lemma silence_funds: "AddSilence fault i rule now al = (res, al') \<Longrightarrow> same_funds (al_outbox al) (al_outbox al')"
  by (rule same_funds_tables)
    (auto simp: AddSilence_def commit_alert_def suppress_matching_def delete_rows_def elim!: silence_body_Inr split: if_splits sum.splits)

lemma restored_funds: "markRestoredOfficialHold fault wall db = (out, db') \<Longrightarrow> same_funds db db'"
  by (auto simp: same_funds_def markRestoredOfficialHold_def transact_def Let_def limits_def split: if_splits)

text \<open>The limits are those a policy may have; one row holds what a channel spent on a day.\<close>

definition maxDailyMessages :: int where "maxDailyMessages = 1000"
definition maxDailySegments :: int where "maxDailySegments = 2000"

definition spent_ok :: "usage_row \<Rightarrow> bool" where
  "spent_ok u \<longleftrightarrow> 0 \<le> us_messages u \<and> us_messages u \<le> maxDailyMessages \<and> 0 \<le> us_segments u \<and> us_segments u \<le> maxDailySegments"

definition budget_inv :: "outbox_db \<Rightarrow> bool" where
  "budget_inv db \<longleftrightarrow> list_all (\<lambda>(c, m, s). m \<le> maxDailyMessages \<and> 0 \<le> s \<and> s \<le> maxDailySegments) (limits db) \<and>
     list_all spent_ok (od_usage db) \<and> distinct (map (\<lambda>u. (us_channel u, us_day u)) (od_usage db))"

lemma same_funds_budget: "same_funds db db' \<Longrightarrow> budget_inv db \<Longrightarrow> budget_inv db'"
  by (simp add: same_funds_def budget_inv_def)

lemma budget_limits: "budget_inv db \<Longrightarrow> map_of (od_policies db) c = Some p \<Longrightarrow> po_messages p \<le> maxDailyMessages \<and> 0 \<le> po_segments p \<and> po_segments p \<le> maxDailySegments"
  by (auto simp: budget_inv_def limits_def list_all_iff dest!: map_of_SomeD)

lemma usage_unique:
  assumes "distinct (map (\<lambda>u. (us_channel u, us_day u)) us)" "u \<in> set us" "us_channel u = c" "us_day u = day"
  shows "find (\<lambda>u. us_channel u = c \<and> us_day u = day) us = Some u"
  using assms by (induction us) auto

text \<open>Adding to what was spent keeps the bound when the row found for the day stays within it.\<close>

lemma put_usage_ok:
  assumes "list_all spent_ok (od_usage db)" "distinct (map (\<lambda>u. (us_channel u, us_day u)) (od_usage db))"
    and f: "\<And>u. us_channel (f u) = us_channel u" "\<And>u. us_day (f u) = us_day u"
    and old: "\<And>u. u \<in> set (od_usage db) \<Longrightarrow> usage_of c day db = (us_messages u, us_segments u) \<Longrightarrow> spent_ok (f u)"
    and new: "spent_ok \<lparr>us_channel = c, us_day = day, us_messages = m, us_segments = s\<rparr>"
  shows "list_all spent_ok (od_usage (put_usage c day f m s db)) \<and>
    distinct (map (\<lambda>u. (us_channel u, us_day u)) (od_usage (put_usage c day f m s db)))"
proof (cases "has_usage c day db")
  case True
  have "spent_ok (if us_channel u = c \<and> us_day u = day then f u else u)" if u: "u \<in> set (od_usage db)" for u
  proof (cases "us_channel u = c \<and> us_day u = day")
    case True
    then have "usage_of c day db = (us_messages u, us_segments u)" using usage_unique [OF assms(2) u] by (simp add: usage_of_def)
    then show ?thesis using old u True by simp
  next
    case False
    then show ?thesis using assms(1) u by (auto simp: list_all_iff)
  qed
  then have "list_all spent_ok (map (\<lambda>u. if us_channel u = c \<and> us_day u = day then f u else u) (od_usage db))"
    unfolding list.pred_map by (simp add: list_all_iff)
  moreover have "map (\<lambda>u. (us_channel u, us_day u)) (map (\<lambda>u. if us_channel u = c \<and> us_day u = day then f u else u) (od_usage db)) =
      map (\<lambda>u. (us_channel u, us_day u)) (od_usage db)"
    by (simp add: f)
  ultimately show ?thesis using True assms(2) by (simp add: put_usage_def del: map_map)
next
  case False
  then show ?thesis using assms(1,2) new by (auto simp: put_usage_def has_usage_def list_ex_iff list_all_iff)
qed

lemma debit_usage: "od_usage (debit c day n db) = filter (\<lambda>u. \<not> old_usage c day u) (od_usage (put_usage c day
   (\<lambda>u. u\<lparr>us_messages := us_messages u + 1, us_segments := us_segments u + n\<rparr>) 1 n db))"
  by (simp add: debit_def Let_def)

lemma debit_limits: "limits (debit c day n db) = limits db"
  by (auto simp: debit_def Let_def limits_def set_policy_def)

lemma debit_budget:
  assumes inv: "budget_inv db" and "fst (usage_of c day db) < maxDailyMessages" "n = 0 \<or> snd (usage_of c day db) + n \<le> maxDailySegments"
    and "0 \<le> n" "n \<le> maxDailySegments" and usage: "od_usage db' = od_usage (debit c day n db)" "limits db' = limits db"
  shows "budget_inv db'"
proof -
  have "list_all spent_ok (od_usage (put_usage c day (\<lambda>u. u\<lparr>us_messages := us_messages u + 1, us_segments := us_segments u + n\<rparr>) 1 n db)) \<and>
    distinct (map (\<lambda>u. (us_channel u, us_day u)) (od_usage (put_usage c day (\<lambda>u. u\<lparr>us_messages := us_messages u + 1, us_segments := us_segments u + n\<rparr>) 1 n db)))"
    by (rule put_usage_ok) (use inv assms(2-5) in \<open>auto simp: budget_inv_def spent_ok_def list_all_iff maxDailyMessages_def\<close>)
  then show ?thesis using inv by (auto simp: budget_inv_def usage debit_usage list_all_iff intro: distinct_map_filter)
qed

lemma usage_nonneg: "budget_inv db \<Longrightarrow> 0 \<le> snd (usage_of c day db)"
  by (auto simp: usage_of_def budget_inv_def list_all_iff spent_ok_def dest!: find_SomeD split: option.splits)

lemma begin_limits:
  assumes "BeginOfficialDispatch fault i dest now minimum db = (res, db')"
  shows "limits db' = limits db"
proof -
  have "limits (start_dispatch i c dest now minimum first day db1) = limits db1" for c first day db1
    by (simp add: start_dispatch_def Let_def)
  then have "limits db1 = limits db" if "begin_body i dest now minimum db = Inr (x, db1)" for x db1
    using that unfolding begin_body_def Let_def by (auto simp: debit_limits split: option.splits prod.splits if_split_asm)
  then show ?thesis using assms by (auto simp: BeginOfficialDispatch_def transact_def split: sum.splits prod.splits if_splits)
qed

lemma start_dispatch_usage: "od_usage (start_dispatch i c dest now minimum first day db) = od_usage db"
  by (simp add: start_dispatch_def Let_def)

lemma begin_budget:
  assumes inv: "request_inv db" "budget_inv db" and beg: "BeginOfficialDispatch fault i dest now minimum db = (res, db')"
  shows "budget_inv db'"
proof -
  have lim: "limits db' = limits db" by (rule begin_limits [OF beg])
  have kept: ?thesis if "od_usage db' = od_usage db" using same_funds_budget inv(2) lim that by (simp add: same_funds_def)
  have spend: ?thesis if "row_of i db = Some r" "dispatch_of i db = Some d" "map_of (od_policies db) (ob_channel r) = Some p"
      "fst (usage_of (ob_channel r) (utc_day now) db) < po_messages p"
      "ob_channel r = ''twilio_sms'' \<longrightarrow> snd (usage_of (ob_channel r) (utc_day now) db) + dp_segments d \<le> po_segments p"
      "od_usage db' = od_usage (debit (ob_channel r) (utc_day now) (dp_segments d) db)" for r d p
  proof (rule debit_budget [OF inv(2) _ _ _ _ that(6) lim])
    note entry = request_inv_entry [OF inv(1) that(2,1)] and lim = budget_limits [OF inv(2) that(3)]
      and n = usage_nonneg [OF inv(2), of "ob_channel r" "utc_day now"]
    show "0 \<le> dp_segments d" using entry by (simp add: entry_ok_def)
    show "fst (usage_of (ob_channel r) (utc_day now) db) < maxDailyMessages" using that(4) lim by simp
    show "dp_segments d = 0 \<or> snd (usage_of (ob_channel r) (utc_day now) db) + dp_segments d \<le> maxDailySegments"
      "dp_segments d \<le> maxDailySegments"
      using entry that(5) lim n by (cases "ob_channel r = ''twilio_sms''"; simp add: entry_ok_def maxDailySegments_def)+
  qed
  from beg show ?thesis
  proof (cases rule: begin_cases)
    case stopped
    then show ?thesis using kept spend by blast
  next
    case (started r d p)
    then show ?thesis using kept spend [of r d p]
      by (cases "dp_budget_day d < 0") (simp_all add: start_dispatch_usage)
  qed
qed

lemma policy_budget:
  assumes "ConfigureOfficialPolicy fault c pol now db = (out, db')" "budget_inv db"
  shows "budget_inv db'"
proof (cases "db' = db")
  case False
  have valid: "cp_DailyMessageLimit pol \<le> 1000" "0 \<le> cp_DailySegmentLimit pol" "cp_DailySegmentLimit pol \<le> 2000"
    using assms(1) False by (auto simp: ConfigureOfficialPolicy_def validOfficialPolicy_def split: if_splits)
  have "od_usage db' = od_usage db"
    using assms(1) by (auto simp: ConfigureOfficialPolicy_def transact_def Let_def suppress_channel_def split: if_splits option.splits)
  moreover have "\<exists>f. od_policies db' = map (\<lambda>(k, p). (k, if k = c then f p else p)) (od_policies db) \<and>
      (\<forall>p. po_messages (f p) = cp_DailyMessageLimit pol \<and> po_segments (f p) = cp_DailySegmentLimit pol)"
    using assms(1) False by (auto simp: ConfigureOfficialPolicy_def transact_def Let_def suppress_channel_def set_policy_def split: if_splits option.splits)
  ultimately show ?thesis using assms(2) valid
    by (auto simp: budget_inv_def limits_def list.pred_map comp_def case_prod_unfold list_all_iff maxDailyMessages_def maxDailySegments_def) force+
qed (use assms(2) in simp)

lemma reconcile_budget:
  assumes "ReconcileOfficialPaidChannel fault c ref now db = (out, db')" "budget_inv db"
  shows "budget_inv db'"
proof (cases "db' = db")
  case False
  then obtain p where p: "map_of (od_policies db) c = Some p" "0 < po_messages p" and
    u: "od_usage db' = od_usage (put_usage c (utc_day now) (\<lambda>u. u\<lparr>us_messages := max (us_messages u) (po_messages p),
      us_segments := max (us_segments u) (po_segments p)\<rparr>) (po_messages p) (po_segments p) db)" and l: "limits db' = limits db"
    using assms(1) by (auto simp: ReconcileOfficialPaidChannel_def transact_def Let_def split: if_splits option.splits)
  note lim = budget_limits [OF assms(2) p(1)]
  have "list_all spent_ok (od_usage db') \<and> distinct (map (\<lambda>u. (us_channel u, us_day u)) (od_usage db'))" unfolding u
    by (rule put_usage_ok) (use assms(2) lim p(2) in \<open>auto simp: budget_inv_def list_all_iff spent_ok_def\<close>)
  then show ?thesis using assms(2) by (simp add: budget_inv_def l)
qed (use assms(2) in simp)

lemma step_budget:
  assumes step: "outbox_step db l db'" and inv: "request_inv db" "budget_inv db"
  shows "budget_inv db'"
  using step
proof (cases rule: outbox_step.cases)
  case (admit j t)
  from admission_step_admits [OF admit(2) request_inv_keys [OF inv(1)]] request_inv_keys [OF inv(1)] have "same_funds db db'"
    by (cases rule: admits_cases) (auto intro!: same_funds_tables simp: inserts_def)
  then show ?thesis using same_funds_budget inv(2) by blast
next
  case (dispatch fault j dest now minimum beg)
  then show ?thesis using begin_budget inv by blast
next
  case (silence fault i rule now al silenced al')
  then show ?thesis using silence_funds same_funds_budget inv(2) by blast
next
  case (ledger ret)
  then have "same_funds db db'" by (simp add: same_funds_tables)
  then show ?thesis by (rule same_funds_budget [OF _ inv(2)])
next
  case (policy fault c pol now out)
  then show ?thesis using policy_budget inv(2) by blast
next
  case (reconcile fault c ref now out)
  then show ?thesis using reconcile_budget inv(2) by blast
qed (rule same_funds_budget [OF _ inv(2)], erule resolve_funds expire_funds pending_funds claim_funds queue_funds sent_funds
  target_funds polls_funds poll_funds restored_funds)+


section \<open>From an empty outbox\<close>

text \<open>C40: the tables stay well formed. Whatever operations follow on an empty outbox, identifiers stay unique, every
  intent belongs to a notification of an official channel, its attempts stay within the limit, and
  an accepted one belongs to a sent notification.\<close>

theorem outbox_well_formed:
  assumes "outbox_run db tr db'" "od_rows db = []" "od_dispatch db = []"
  shows "request_inv db'"
  by (rule run_request_inv [OF assms(1)]) (simp add: request_inv_def keys_ok_def dispatch_of_def assms(2,3))

section \<open>A store in use\<close>

text \<open>One claimed notification for a QQ bot, under a valid subscription, on the morning of 14 November 2023.\<close>

definition sample_now :: time where "sample_now = 1700000000 * second"

definition sample_destination :: string where
  "sample_destination = ''qqbot:0123456789abcdef0123456789abcdef0123456789abcdef0123456789abcdef''"

definition sample_message :: outbox_message where
  "sample_message = \<lparr>ms_paired = False, ms_ID = ''n1'', ms_DedupeKey = ''k1'', ms_Channel = ''qqbot'', ms_PrivacyMode = ''full'',
     ms_Language = ''en'', ms_Timezone = ''UTC'', ms_Destination = sample_destination, ms_Body = ''scan'', ms_NextAttempt = 0,
     ms_LogicalKind = ''event'', ms_AdmissionFailure = [], ms_FrozenPayload = ''{}'', ms_EstimatedSegments = 0, ms_Encoding = []\<rparr>"

definition sample_policy :: policy_row where
  "sample_policy = \<lparr>po_enabled = True, po_consented = 1600000000000, po_purpose = ''alerts'', po_evidence = ''ticket 7'',
     po_basis = ''0123456789abcdef0123456789abcdef'', po_types = [''event''], po_revoked = False, po_cost = False, po_messages = 20,
     po_segments = 0, po_max_segments = 0, po_optout = 0, po_optout_basis = [], po_restore_hold = False, po_reference = [],
     po_clock = 0, po_day = 0, po_pruned_days = 0\<rparr>"

definition sample_db :: outbox_db where
  "sample_db = \<lparr>od_rows = [(new_row sample_now None sample_message)\<lparr>ob_lease := Some 1700000120000\<rparr>],
     od_dispatch = [new_intent [] sample_message],
     od_targets = [\<lparr>tg_channel = ''qqbot'', tg_destination = sample_destination, tg_privacy = ''full'', tg_enabled = True, tg_activated = 1600000000000\<rparr>],
     od_cooldowns = [], od_policies = [(''qqbot'', sample_policy)], od_usage = [], od_rejected = 0, od_expired = 0, od_last_sent = 0,
     od_retention = empty_retention\<rparr>"

definition sample_begun :: outbox_db where
  "sample_begun = snd (BeginOfficialDispatch False ''n1'' sample_destination (sample_now + second) second sample_db)"

definition sample_resolution :: "string \<Rightarrow> dispatch_resolution" where
  "sample_resolution outcome = \<lparr>rs_HTTPStatus = 200, rs_APIErrorCode = 0, rs_DispatchAttempt = 1, rs_Outcome = outcome, rs_ProviderID = ''m1'',
     rs_Reason = [], rs_RetryAfter = 0, rs_Permanent = False, rs_Suspend = False, rs_OptOut = False, rs_PollStatus = [],
     rs_PlatformSegments = None, rs_Price = None, rs_PriceUnit = []\<rparr>"

definition sample_resolved :: "string \<Rightarrow> outbox_db" where
  "sample_resolved outcome = snd (ResolveOfficialDispatch False ''n1'' (sample_now + 2 * second) (sample_resolution outcome) sample_begun)"

lemma sample_inv: "request_inv sample_db"
  unfolding request_inv_def keys_ok_def
  by (auto simp: sample_db_def dispatch_of_def row_of_def new_row_def new_intent_def sample_message_def entry_ok_def officialChannel_def
    MaxDeliveryAttempts_def limit_ascii notificationChannel_def notificationChannels_def split: if_splits)

lemma authorised_case:
  assumes "case x of (Inr ((r, d), True), _) \<Rightarrow> P r d | _ \<Rightarrow> False"
  obtains r d where "x = (Inr ((r, d), True), snd x)" "P r d"
proof -
  obtain e db where x: "x = (e, db)" by (cases x)
  obtain r d b where e: "e = Inr ((r, d), b)" using assms x by (cases e) auto
  have b using assms x e by (cases b) auto
  then show ?thesis using that [of r d] assms x e by simp
qed

lemma sample_begins: "case BeginOfficialDispatch False ''n1'' sample_destination (sample_now + second) second sample_db of
    (Inr ((r, d), True), _) \<Rightarrow> ob_channel r = ''qqbot'' \<and> dp_attempt d = 1 | _ \<Rightarrow> False"
  by code_simp

lemma sample_began:
  obtains r d where "BeginOfficialDispatch False ''n1'' sample_destination (sample_now + second) second sample_db = (Inr ((r, d), True), sample_begun)"
    "ob_channel r = ''qqbot''" "dp_attempt d = 1"
  using authorised_case [OF sample_begins] unfolding sample_begun_def by metis

lemma sample_begun_inv: "request_inv sample_begun"
  using begin_request_inv [OF sample_inv] sample_began by metis

lemma sample_resolves: "outbox_step sample_begun (LResolve ''n1'' outcome) (sample_resolved outcome)"
  using outbox_step.resolve [of False "''n1''" "sample_now + 2 * second" "sample_resolution outcome" sample_begun]
  by (simp add: sample_resolved_def sample_resolution_def) (metis prod.collapse)

lemma run_single: "outbox_step db l db' \<Longrightarrow> outbox_run db [l] db'"
  using outbox_run.step [OF outbox_run.start] by fastforce

lemma sample_tries:
  "outbox_step db (LBegin i (authorised (fst (BeginOfficialDispatch fault i dest now minimum db)))) (snd (BeginOfficialDispatch fault i dest now minimum db))"
  by (rule outbox_step.dispatch [OF surjective_pairing])


theorem posts_bounded_witness:
  "dp_attempt (new_intent [] sample_message) + posts ''n1'' [LBegin ''n1'' (authorised (fst
     (BeginOfficialDispatch False ''n1'' sample_destination (sample_now + second) second sample_db)))] \<le> MaxDeliveryAttempts"
  by (rule posts_bounded [OF sample_inv _ _ run_single [OF sample_tries]])
    (simp_all add: sample_db_def row_of_def dispatch_of_def new_row_def new_intent_def sample_message_def)

lemma sample_accepted:
  "case (row_of ''n1'' (sample_resolved ''accepted''), dispatch_of ''n1'' (sample_resolved ''accepted'')) of
     (Some r, Some d) \<Rightarrow> dp_state d = Accepted | _ \<Rightarrow> False"
  by code_simp

theorem accepted_is_final_witness:
  "posts ''n1'' [LBegin ''n1'' (authorised (fst
     (BeginOfficialDispatch False ''n1'' sample_destination (sample_now + minute) second (sample_resolved ''accepted''))))] = 0"
proof -
  obtain r d where "row_of ''n1'' (sample_resolved ''accepted'') = Some r" "dispatch_of ''n1'' (sample_resolved ''accepted'') = Some d" "dp_state d = Accepted"
    using sample_accepted by (auto split: option.splits)
  note state = this
  have "request_inv (sample_resolved ''accepted'')" using step_request_inv [OF sample_resolves sample_begun_inv] .
  note final = accepted_is_final [OF this state run_single [OF sample_tries]]
  show ?thesis by (rule final [THEN conjunct1]) simp
qed

definition sample_claimed :: outbox_db where
  "sample_claimed = snd (ClaimNotification False ''n1'' (sample_now + minute) (sample_resolved ''not_accepted''))"

lemma sample_claims: "outbox_step (sample_resolved ''not_accepted'') LOther sample_claimed"
  unfolding sample_claimed_def by (rule outbox_step.claim [OF surjective_pairing])

lemma sample_repeats: "case BeginOfficialDispatch False ''n1'' sample_destination (sample_now + minute) second sample_claimed of
    (Inr ((r, d), True), _) \<Rightarrow> True | _ \<Rightarrow> False"
  by code_simp

text \<open>The platform refused the request; the notification is claimed and authorised again a minute later.\<close>

theorem repeats_identical_witness:
  "\<exists>r d r' d'. fst (BeginOfficialDispatch False ''n1'' sample_destination (sample_now + second) second sample_db) = Inr ((r, d), True) \<and>
     fst (BeginOfficialDispatch False ''n1'' sample_destination (sample_now + minute) second sample_claimed) = Inr ((r', d'), True) \<and>
     dp_retry_key d' = dp_retry_key d \<and> dp_payload d' = dp_payload d \<and> dp_first d' = dp_first d \<and> dp_attempt d < dp_attempt d'"
proof -
  obtain r d where began: "BeginOfficialDispatch False ''n1'' sample_destination (sample_now + second) second sample_db = (Inr ((r, d), True), sample_begun)"
    using sample_began by metis
  obtain r' d' db3 where again: "BeginOfficialDispatch False ''n1'' sample_destination (sample_now + minute) second sample_claimed = (Inr ((r', d'), True), db3)"
    using authorised_case [OF sample_repeats] by metis
  have run: "outbox_run sample_begun [LResolve ''n1'' ''not_accepted'', LOther] sample_claimed"
    using outbox_run.step [OF run_single [OF sample_resolves] sample_claims] by simp
  show ?thesis using repeats_identical [OF sample_inv began run _ again] began again by auto
qed


theorem begin_consented_witness:
  "\<exists>r d. fst (BeginOfficialDispatch False ''n1'' sample_destination (sample_now + second) second sample_db) = Inr ((r, d), True) \<and>
     open_row r \<and> lease_live (unix_ms (sample_now + second)) r \<and> target_enabled (ob_channel r) sample_destination sample_db \<and>
     has_dispatch (\<lambda>e. dp_state e = InFlight \<and> dp_attempt e = dp_attempt d \<and> dp_payload e = dp_payload d) ''n1'' sample_begun"
proof -
  obtain r d where began: "BeginOfficialDispatch False ''n1'' sample_destination (sample_now + second) second sample_db = (Inr ((r, d), True), sample_begun)"
    using sample_began by metis
  show ?thesis using begin_consented [OF sample_inv began] began by (intro exI [of _ r] exI [of _ d]) simp
qed

lemma retention_frame [simp]:
  "od_retention (update_rows P f db) = od_retention db" "od_retention (update_dispatch Q g db) = od_retention db"
  "od_retention (set_policy c h db) = od_retention db" "od_retention (put_usage c day u m s db) = od_retention db"
  "od_retention (hold_destination x ms db) = od_retention db" "od_retention (debit c day s db) = od_retention db"
  "od_retention (blockOfficial i reason now unknown db) = od_retention db"
  by (simp_all add: update_rows_def update_dispatch_def set_policy_def put_usage_def hold_destination_def debit_def blockOfficial_def Let_def)

lemma begin_retention:
  assumes "BeginOfficialDispatch fault i dest now minimum db = (res, db')"
  shows "od_retention db' = od_retention db"
proof -
  have "od_retention (start_dispatch i c dest now minimum first day db1) = od_retention db1" for c first day db1
    by (simp add: start_dispatch_def Let_def)
  then have "od_retention db1 = od_retention db" if "begin_body i dest now minimum db = Inr (x, db1)" for x db1
    using that unfolding begin_body_def Let_def by (auto split: option.splits prod.splits if_split_asm)
  then show ?thesis using assms by (auto simp: BeginOfficialDispatch_def transact_def split: sum.splits prod.splits if_splits)
qed

lemma sample_retention: "od_retention sample_begun = empty_retention"
  using begin_retention [OF surjective_pairing] unfolding sample_begun_def by (simp add: sample_db_def)

definition keeps_entry :: "string \<Rightarrow> (outbox_error + unit) \<times> outbox_db \<Rightarrow> bool" where
  "keeps_entry i x \<longleftrightarrow> row_of i (snd x) \<noteq> None \<and> dispatch_of i (snd x) \<noteq> None"

lemma sample_keeps: "keeps_entry ''n1'' (ExpireNotifications False (sample_now + hour) sample_begun)"
  by code_simp

lemma sample_retains: "rd_tracking (od_retention sample_begun)" "max_id (rd_ledger (od_retention sample_begun)) \<noteq> max_int64" "\<not> is_zero (sample_now + hour)"
  by (simp_all add: sample_retention empty_retention_def max_id_def max_int64_def is_zero_def zero_time_def sample_now_def hour_def minute_def second_def)

text \<open>An hour later the sender is gone; the expiry settles its intent.\<close>

theorem expiry_settles_witness:
  "\<exists>r d. row_of ''n1'' (snd (ExpireNotifications False (sample_now + hour) sample_begun)) = Some r \<and>
     dispatch_of ''n1'' (snd (ExpireNotifications False (sample_now + hour) sample_begun)) = Some d \<and> settled (sample_now + hour) r d"
  using expiry_settles [OF sample_begun_inv sample_retains] sample_keeps by (auto simp: keeps_entry_def)


theorem outbox_well_formed_witness:
  "request_inv (snd (Enqueue False False (\<lambda>_. Some (JObject [])) ''n2'' [] sample_now sample_message (sample_db\<lparr>od_rows := [], od_dispatch := []\<rparr>)))"
  by (rule outbox_well_formed [OF run_single [OF outbox_step.admit [OF admission_step.message [OF surjective_pairing]]]]) simp_all

end
