(* ===== verification/Worker.thy ===== *)
theory Worker
  imports DispatchLife
begin

text \<open>
  The delivery worker, \<open>internal/notify/worker.go\<close> and \<open>worker_official.go\<close>: one pass claims the waiting
  messages of its destination, asks the store before each request, calls the sender and writes the outcome back. A pass is a
  sequence of actions on the store that stops at the first error. What the world answers to each action (a failing statement, the
  clocks, a cancelled context, the sender, random jitter) is read from the environment at the number of the action.
\<close>

section \<open>Actions\<close>

record dispatch_outcome =
  dc_State :: string
  dc_ProviderID :: string
  dc_ProviderState :: string
  dc_Reason :: string
  dc_StatusCode :: int
  dc_APIErrorCode :: int
  dc_RetryAfterDuration :: duration
  dc_PlatformSegments :: "int option"
  dc_Price :: "string option"
  dc_PriceUnit :: string
  dc_Suspend :: bool

record delivery_error =
  de_text :: string
  de_RetryAfter :: duration
  de_Permanent :: bool
  de_RateLimited :: bool
  de_SuspendDestination :: bool

datatype send_result = Sent | OtherError | DeliveryFailed delivery_error

datatype worker_error = WorkerStore outbox_error | WorkerCancelled | WorkerTarget

record worker_env =
  we_fault :: "nat \<Rightarrow> bool"
  we_now :: "nat \<Rightarrow> time"
  we_wall :: "nat \<Rightarrow> time"
  we_cancelled :: "nat \<Rightarrow> bool"
  we_random :: "nat \<Rightarrow> uint64"
  we_send :: "nat \<Rightarrow> outbox_row \<Rightarrow> send_result"
  we_dispatch :: "nat \<Rightarrow> outbox_row \<Rightarrow> dispatch_row \<Rightarrow> dispatch_outcome \<times> bool"
  we_poll :: "nat \<Rightarrow> outbox_row \<Rightarrow> dispatch_row \<Rightarrow> dispatch_outcome \<times> bool"

text \<open>The store, the number of actions so far and the requests handed to the platform.\<close>

record worker =
  wk_db :: outbox_db
  wk_tick :: nat
  wk_posts :: "string list"

type_synonym 'a act = "worker_env \<Rightarrow> worker \<Rightarrow> (worker_error + 'a) \<times> worker"

definition ret :: "'a \<Rightarrow> 'a act" where
  "ret x = (\<lambda>v w. (Inr x, w))"

definition fail_with :: "worker_error \<Rightarrow> 'a act" where
  "fail_with e = (\<lambda>v w. (Inl e, w))"

definition seq :: "'a act \<Rightarrow> ('a \<Rightarrow> 'b act) \<Rightarrow> 'b act" where
  "seq m f = (\<lambda>v w. case m v w of (Inl e, w') \<Rightarrow> (Inl e, w') | (Inr x, w') \<Rightarrow> f x v w')"

text \<open>An action whose error is dropped.\<close>

definition best_effort :: "'a act \<Rightarrow> unit act" where
  "best_effort m = (\<lambda>v w. (Inr (), snd (m v w)))"

definition next_tick :: "worker \<Rightarrow> worker" where
  "next_tick w = w\<lparr>wk_tick := Suc (wk_tick w)\<rparr>"

definition store_call :: "(bool \<Rightarrow> time \<Rightarrow> time \<Rightarrow> outbox_db \<Rightarrow> (outbox_error + 'a) \<times> outbox_db) \<Rightarrow> 'a act" where
  "store_call f = (\<lambda>v w. case f (we_fault v (wk_tick w)) (we_now v (wk_tick w)) (we_wall v (wk_tick w)) (wk_db w) of
     (Inl e, db) \<Rightarrow> (Inl (WorkerStore e), (next_tick w)\<lparr>wk_db := db\<rparr>)
   | (Inr x, db) \<Rightarrow> (Inr x, (next_tick w)\<lparr>wk_db := db\<rparr>))"

definition store_query :: "(time \<Rightarrow> time \<Rightarrow> outbox_db \<Rightarrow> outbox_error + 'a) \<Rightarrow> 'a act" where
  "store_query f = store_call (\<lambda>fault now wall db. if fault then (Inl StoreFailure, db) else (f now wall db, db))"

definition ask :: "(worker_env \<Rightarrow> nat \<Rightarrow> 'a) \<Rightarrow> 'a act" where
  "ask f = (\<lambda>v w. (Inr (f v (wk_tick w)), next_tick w))"

definition check_context :: "unit act" where
  "check_context = seq (ask we_cancelled) (\<lambda>c. if c then fail_with WorkerCancelled else ret ())"

definition dispatch_call :: "outbox_row \<Rightarrow> dispatch_row \<Rightarrow> (dispatch_outcome \<times> bool) act" where
  "dispatch_call r d = (\<lambda>v w. (Inr (we_dispatch v (wk_tick w) r d), (next_tick w)\<lparr>wk_posts := wk_posts w @ [ob_id r]\<rparr>))"

section \<open>Retries and receipts\<close>

definition retryDelay :: "int \<Rightarrow> uint64 \<Rightarrow> duration" where
  "retryDelay attempts random =
     (let n = min 8 (max 0 attempts); base = second * 2 ^ nat n; jitter = uint random mod (base div 2 + 1)
      in if hour < base + jitter then hour else base + jitter)"

definition worker_reasons :: "string list" where
  "worker_reasons = [''provider_accepted'', ''delivery_unknown'', ''authentication_rejected'', ''permission_rejected'', ''payload_rejected'',
     ''rate_limited'', ''quota_exhausted'', ''recipient_unavailable'', ''recipient_opted_out'', ''template_rejected'', ''template_unavailable'',
     ''template_language_mismatch'', ''invalid_response'', ''retry_window_expired'', ''poll_unknown'', ''poll_complete'', ''retry_requires_resume'',
     ''transport_not_sent'', ''api_accepted'', ''carrier_accepted'', ''carrier_delivered'', ''delivery_failed'', ''payload_invalid'',
     ''frozen_request_invalid'', ''message_expired'', ''clock_rollback'', ''credential_or_permission_rejected'', ''provider_rejected'',
     ''request_rejected'', ''quality_or_policy_limited'', ''monthly_quota_exhausted'', ''token_unavailable'', ''token_response_invalid'',
     ''token_request_invalid'', ''token_rejected'', ''token_wait_canceled'', ''unconfirmed_response'', ''unconfirmed_provider_failure'',
     ''poll_response_invalid'', ''poll_receipt_invalid'', ''poll_request_invalid'', ''poll_intent_invalid'', ''durable_intent_required'',
     ''unsupported_channel'', ''template_parameter_count_invalid'', ''template_missing_or_unapproved'', ''template_text_too_long'',
     ''template_parameter_format_invalid'', ''template_policy_rejected'']"

definition officialWorkerReason :: "string \<Rightarrow> string" where
  "officialWorkerReason reason = (if reason \<in> set worker_reasons then reason else ''delivery_unknown'')"

definition codes_invalid :: "dispatch_outcome \<Rightarrow> bool" where
  "codes_invalid result \<longleftrightarrow> dc_StatusCode result < 0 \<or> 599 < dc_StatusCode result \<or> dc_APIErrorCode result < 0 \<or> 2147483647 < dc_APIErrorCode result"

text \<open>The receipt of a request: only what the sender proved not to be accepted may be retried.\<close>

definition resolution_of :: "duration \<Rightarrow> uint64 \<Rightarrow> outbox_row \<Rightarrow> dispatch_row \<Rightarrow> dispatch_outcome \<Rightarrow> bool \<Rightarrow> dispatch_resolution" where
  "resolution_of interval random r d result failed =
     (let base = \<lparr>rs_HTTPStatus = dc_StatusCode result, rs_APIErrorCode = dc_APIErrorCode result, rs_DispatchAttempt = dp_attempt d, rs_Outcome = ''unknown'',
            rs_ProviderID = dc_ProviderID result, rs_Reason = ''delivery_unknown'', rs_RetryAfter = 0, rs_Permanent = False,
            rs_Suspend = dc_Suspend result, rs_OptOut = False, rs_PollStatus = dc_ProviderState result,
            rs_PlatformSegments = dc_PlatformSegments result, rs_Price = dc_Price result, rs_PriceUnit = dc_PriceUnit result\<rparr>;
          delay = (if dc_RetryAfterDuration result = 0 then retryDelay (ob_attempts r) random else dc_RetryAfterDuration result);
          res = (if dc_State result = ''accepted'' then
                   if failed then base else base\<lparr>rs_Outcome := ''accepted'', rs_Reason := ''provider_accepted''\<rparr>
                 else if dc_State result = ''not_accepted'' then base\<lparr>rs_Outcome := ''not_accepted'', rs_Reason := officialWorkerReason (dc_Reason result),
                   rs_RetryAfter := (if delay < interval then interval else delay)\<rparr>
                 else if dc_State result = ''rejected'' \<or> dc_State result = ''opted_out'' then base\<lparr>rs_Outcome := ''not_accepted'',
                   rs_Reason := officialWorkerReason (dc_Reason result), rs_Permanent := True, rs_OptOut := (dc_State result = ''opted_out'')\<rparr>
                 else if dc_State result = ''unknown'' then base\<lparr>rs_Reason := officialWorkerReason (dc_Reason result),
                   rs_RetryAfter := dc_RetryAfterDuration result\<rparr>
                 else base)
      in if codes_invalid result then res\<lparr>rs_Outcome := ''unknown'', rs_Reason := ''invalid_response'', rs_HTTPStatus := 0, rs_APIErrorCode := 0\<rparr>
         else res)"

definition policy_changed :: "dispatch_row \<Rightarrow> dispatch_resolution" where
  "policy_changed d = \<lparr>rs_HTTPStatus = 0, rs_APIErrorCode = 0, rs_DispatchAttempt = dp_attempt d, rs_Outcome = ''not_accepted'', rs_ProviderID = [],
     rs_Reason = ''official_policy_changed'', rs_RetryAfter = second, rs_Permanent = False, rs_Suspend = False, rs_OptOut = False, rs_PollStatus = [],
     rs_PlatformSegments = None, rs_Price = None, rs_PriceUnit = []\<rparr>"

section \<open>Official platforms\<close>

definition release_claimed :: "string \<Rightarrow> unit act" where
  "release_claimed i = store_call (\<lambda>fault now wall. ReleaseNotificationClaim fault i)"

definition delivery_allowed :: "string \<Rightarrow> string \<Rightarrow> bool act" where
  "delivery_allowed i destination = store_query (\<lambda>now wall db. Inr (NotificationDeliveryAllowed wall i destination db))"

definition processOfficialMessage :: "duration \<Rightarrow> outbox_row \<Rightarrow> unit act" where
  "processOfficialMessage interval claimed =
     seq (store_call (\<lambda>fault now wall. BeginOfficialDispatch fault (ob_id claimed) (ob_destination claimed) now interval)) (\<lambda>((r, d), allowed).
     if \<not> allowed then release_claimed (ob_id claimed)
     else seq (delivery_allowed (ob_id r) (ob_destination r)) (\<lambda>allowed.
       if \<not> allowed then store_call (\<lambda>fault now wall. ResolveOfficialDispatch fault (ob_id r) now (policy_changed d))
       else seq (dispatch_call r d) (\<lambda>(result, failed).
         seq (ask we_random) (\<lambda>random.
         seq (store_call (\<lambda>fault now wall. ResolveOfficialDispatch fault (ob_id r) now (resolution_of interval random r d result failed)))
           (\<lambda>_. check_context)))))"

definition poll_statuses :: "string list" where
  "poll_statuses = [''accepted'', ''queued'', ''sending'', ''sent'', ''delivered'', ''undelivered'', ''failed'', ''canceled'', ''unknown'']"

definition poll_resolution_of :: "dispatch_row \<Rightarrow> dispatch_outcome \<Rightarrow> bool \<Rightarrow> poll_resolution" where
  "poll_resolution_of d result failed =
     (let status = (if failed \<or> dc_State result \<noteq> ''accepted'' \<and> dc_State result \<noteq> ''opted_out'' then ''unknown'' else dc_ProviderState result);
          known = (status \<in> set poll_statuses); bad = codes_invalid result
      in \<lparr>pr_HTTPStatus = (if bad then 0 else dc_StatusCode result), pr_APIErrorCode = (if bad then 0 else dc_APIErrorCode result),
          pr_PollAttempt = dp_poll_attempts d, pr_Status = (if \<not> known \<or> bad then ''unknown'' else status),
          pr_Reason = (if \<not> known \<or> bad then ''invalid_response'' else officialWorkerReason (dc_Reason result)),
          pr_RetryAfter = dc_RetryAfterDuration result, pr_Suspend = dc_Suspend result, pr_OptOut = (dc_State result = ''opted_out''),
          pr_PlatformSegments = dc_PlatformSegments result, pr_Price = dc_Price result, pr_PriceUnit = dc_PriceUnit result\<rparr>)"

definition poll_one :: "string \<Rightarrow> outbox_row \<Rightarrow> unit act" where
  "poll_one destination pending =
     seq (store_call (\<lambda>fault now wall. ClaimOfficialPoll fault (ob_id pending) destination now)) (\<lambda>claimed. case claimed of
       None \<Rightarrow> ret ()
     | Some (r, d) \<Rightarrow> seq (store_query (\<lambda>now wall. OfficialPollAllowed (ob_id r) destination (dp_poll_attempts d) now)) (\<lambda>allowed.
         if \<not> allowed then ret ()
         else seq (ask (\<lambda>v t. we_poll v t r d)) (\<lambda>(result, failed).
           store_call (\<lambda>fault now wall. ResolveOfficialPoll fault (ob_id r) now (poll_resolution_of d result failed)))))"

fun poll_all :: "string \<Rightarrow> (outbox_row \<times> dispatch_row) list \<Rightarrow> unit act" where
  "poll_all destination [] = ret ()"
| "poll_all destination ((r, d) # rest) = seq check_context (\<lambda>_. seq (poll_one destination r) (\<lambda>_. poll_all destination rest))"

definition processOfficialPolls :: "string \<Rightarrow> time \<Rightarrow> unit act" where
  "processOfficialPolls destination now =
     seq (store_call (\<lambda>fault _ wall. PendingOfficialPolls fault destination now 8)) (poll_all destination)"

section \<open>A pass\<close>

text \<open>The worker: its destination, the identity its sender reports, whether the sender is official and its minimum interval.\<close>

record worker_config =
  wc_Destination :: string
  wc_identity :: "string option"
  wc_official :: bool
  wc_interval :: duration

definition suspended_until :: time where "suspended_until = 253402214400 * second"

text \<open>What happens after a failed send; the result tells whether the destination is now blocked.\<close>

definition after_failure :: "worker_config \<Rightarrow> outbox_row \<Rightarrow> send_result \<Rightarrow> bool act" where
  "after_failure cfg r result =
     seq (ask we_random) (\<lambda>random.
     let delay0 = retryDelay (ob_attempts r) random;
         delay = (if delay0 < wc_interval cfg then wc_interval cfg else delay0);
         mark_failed = (\<lambda>reason. seq (store_call (\<lambda>fault now wall. MarkFailed fault (ob_id r) wall (now + delay) reason)) (\<lambda>_. ret False))
     in case result of
       DeliveryFailed e \<Rightarrow>
         if de_RateLimited e \<or> 0 < de_RetryAfter e \<or> de_SuspendDestination e then
           let wait = (if 0 < de_RetryAfter e then de_RetryAfter e else if delay < 30 * second then 30 * second else delay)
           in seq (store_call (\<lambda>fault now wall. MarkRateLimited fault (ob_id r) (ob_destination r) wall
                (if de_SuspendDestination e then suspended_until else now + wait) (de_text e))) (\<lambda>_. ret True)
         else if de_Permanent e
         then seq (store_call (\<lambda>fault now wall. MarkQuarantined fault (ob_id r) now (de_text e))) (\<lambda>_. ret False)
         else mark_failed (de_text e)
     | _ \<Rightarrow> mark_failed ''notification delivery failed'')"

definition send_claimed :: "worker_config \<Rightarrow> outbox_row \<Rightarrow> bool act" where
  "send_claimed cfg r =
     seq (ask (\<lambda>v t. we_send v t r)) (\<lambda>result.
     if result = Sent then seq (store_call (\<lambda>fault now wall. MarkSentWithCooldown fault (ob_id r) now (wc_interval cfg))) (\<lambda>_. ret False)
     else seq (ask we_cancelled) (\<lambda>cancelled.
       if cancelled then seq (best_effort (release_claimed (ob_id r))) (\<lambda>_. fail_with WorkerCancelled)
       else after_failure cfg r result))"

text \<open>Whether the claimed message may be sent now; otherwise its claim is given back.\<close>

definition unless_released :: "string \<Rightarrow> bool \<Rightarrow> bool act \<Rightarrow> bool act" where
  "unless_released i ok m = (if ok then m else seq (release_claimed i) (\<lambda>_. ret False))"

definition deliver_one :: "worker_config \<Rightarrow> string \<Rightarrow> outbox_row \<Rightarrow> bool act" where
  "deliver_one cfg destination m =
     seq (store_call (\<lambda>fault now wall. ClaimNotification fault (ob_id m) now)) (\<lambda>claimed. case claimed of
       None \<Rightarrow> ret False
     | Some (r, d) \<Rightarrow>
         if wc_official cfg then seq (processOfficialMessage (wc_interval cfg) r) (\<lambda>_. ret False)
         else seq (delivery_allowed (ob_id r) destination) (\<lambda>ok. unless_released (ob_id r) ok
           (if wc_interval cfg \<le> 0 then send_claimed cfg r
            else seq (store_call (\<lambda>fault now wall. ReserveNotificationAttempt fault (ob_id r) destination now (wc_interval cfg))) (\<lambda>ok.
              unless_released (ob_id r) ok
                (seq (delivery_allowed (ob_id r) destination) (\<lambda>ok. unless_released (ob_id r) ok (send_claimed cfg r)))))))"

fun deliver_all :: "worker_config \<Rightarrow> string \<Rightarrow> bool \<Rightarrow> (outbox_row \<times> dispatch_row option) list \<Rightarrow> unit act" where
  "deliver_all cfg destination blocked [] = ret ()"
| "deliver_all cfg destination blocked ((m, d) # rest) = seq check_context (\<lambda>_.
    if ob_destination m \<noteq> destination \<or> blocked then deliver_all cfg destination blocked rest
    else seq (deliver_one cfg destination m) (\<lambda>blocked. deliver_all cfg destination blocked rest))"

definition worker_destination :: "worker_config \<Rightarrow> string option" where
  "worker_destination cfg = (case wc_identity cfg of
     None \<Rightarrow> if wc_Destination cfg = [] then None else Some (wc_Destination cfg)
   | Some identity \<Rightarrow> if identity = [] \<or> wc_Destination cfg \<noteq> [] \<and> wc_Destination cfg \<noteq> identity then None else Some identity)"

definition process :: "worker_config \<Rightarrow> unit act" where
  "process cfg = (case worker_destination cfg of
     None \<Rightarrow> fail_with WorkerTarget
   | Some destination \<Rightarrow> seq (ask we_now) (\<lambda>now.
       seq (if wc_official cfg then processOfficialPolls destination now else ret ()) (\<lambda>_.
       seq (store_call (\<lambda>fault _ wall. PendingDestination fault now 20 destination)) (deliver_all cfg destination False))))"

text \<open>Passes one after the other, as \<open>Run\<close> makes them; a failing pass is only logged.\<close>

fun run_passes :: "(worker_config \<times> worker_env) list \<Rightarrow> worker \<Rightarrow> worker" where
  "run_passes [] w = w"
| "run_passes ((cfg, v) # rest) w = run_passes rest (snd (process cfg v w))"


section \<open>Every pass is a run of the store\<close>

text \<open>
  What an action does: a run of store operations that admits nothing, and requests to the platform each of which was
  authorised in that run, except one that may have been authorised before (the credit).
\<close>

definition credit_of :: "string option \<Rightarrow> string \<Rightarrow> nat" where
  "credit_of c i = (if c = Some i then 1 else 0)"

definition accounts :: "string option \<Rightarrow> worker \<Rightarrow> worker \<Rightarrow> bool" where
  "accounts c w w' \<longleftrightarrow> (\<exists>tr ps. outbox_run (wk_db w) tr (wk_db w') \<and> wk_posts w' = wk_posts w @ ps \<and> (\<forall>i t. LEnqueue i t \<notin> set tr) \<and>
     (\<forall>i. int (count (mset ps) i) \<le> posts i tr + int (credit_of c i)))"

definition safe_act :: "string option \<Rightarrow> 'a act \<Rightarrow> bool" where
  "safe_act c m \<longleftrightarrow> (\<forall>v w. accounts c w (snd (m v w)))"

lemma outbox_run_append:
  assumes "outbox_run db1 tr' db2" "outbox_run db tr db1"
  shows "outbox_run db (tr @ tr') db2"
  using assms by (induction rule: outbox_run.induct) (auto dest: outbox_run.step)

lemma posts_append: "posts i (tr @ tr') = posts i tr + posts i tr'"
  by (simp add: posts_def)

lemma posts_nonneg: "0 \<le> posts i tr"
  by (simp add: posts_def)

lemma accounts_refl: "wk_db w' = wk_db w \<Longrightarrow> wk_posts w' = wk_posts w \<Longrightarrow> accounts c w w'"
  unfolding accounts_def by (intro exI [of _ "[]"] conjI) (auto simp: outbox_run.start posts_def)

lemma accounts_trans:
  assumes "accounts c w w1" "accounts c' w1 w2" "c = None \<or> c' = None"
  shows "accounts (if c = None then c' else c) w w2"
proof -
  obtain tr ps where 1: "outbox_run (wk_db w) tr (wk_db w1)" "wk_posts w1 = wk_posts w @ ps" "\<And>i t. LEnqueue i t \<notin> set tr"
    "\<And>i. int (count (mset ps) i) \<le> posts i tr + int (credit_of c i)" using assms(1) unfolding accounts_def by blast
  obtain tr' ps' where 2: "outbox_run (wk_db w1) tr' (wk_db w2)" "wk_posts w2 = wk_posts w1 @ ps'" "\<And>i t. LEnqueue i t \<notin> set tr'"
    "\<And>i. int (count (mset ps') i) \<le> posts i tr' + int (credit_of c' i)" using assms(2) unfolding accounts_def by blast
  have "int (count (mset (ps @ ps')) i) \<le> posts i (tr @ tr') + int (credit_of (if c = None then c' else c) i)" for i
    using 1(4) [of i] 2(4) [of i] assms(3) by (auto simp: posts_append credit_of_def split: if_splits)
  then show ?thesis using outbox_run_append [OF 2(1) 1(1)] 1(2,3) 2(2,3)
    unfolding accounts_def by (intro exI [of _ "tr @ tr'"] exI [of _ "ps @ ps'"]) auto
qed

lemma accounts_more: "accounts None w w' \<Longrightarrow> accounts c w w'"
  using accounts_trans [of None w w' c w'] accounts_refl [of w' w' c] by simp

lemma safe_ret [intro]: "safe_act c (ret x)" "safe_act c (fail_with e)" "safe_act c (ask f)"
  by (auto simp: safe_act_def ret_def fail_with_def ask_def next_tick_def intro!: accounts_refl)

lemma safe_seq:
  assumes "safe_act None m" "\<And>x. safe_act c (f x)"
  shows "safe_act c (seq m f)"
  unfolding safe_act_def
proof (intro allI)
  fix v :: worker_env and w :: worker
  have first: "accounts None w (snd (m v w))" using assms(1) by (simp add: safe_act_def)
  show "accounts c w (snd (seq m f v w))"
  proof (cases "fst (m v w)")
    case (Inl e)
    then show ?thesis using accounts_more [OF first] by (simp add: seq_def split_beta)
  next
    case (Inr x)
    then show ?thesis using accounts_trans [OF first, of c "snd (f x v (snd (m v w)))"] assms(2) [of x]
      by (simp add: seq_def split_beta safe_act_def)
  qed
qed

lemma safe_spend:
  assumes "safe_act c m" "\<And>x. safe_act None (f x)"
  shows "safe_act c (seq m f)"
  unfolding safe_act_def
proof (intro allI)
  fix v :: worker_env and w :: worker
  have first: "accounts c w (snd (m v w))" using assms(1) by (simp add: safe_act_def)
  show "accounts c w (snd (seq m f v w))"
  proof (cases "fst (m v w)")
    case (Inl e)
    then show ?thesis using first by (simp add: seq_def split_beta)
  next
    case (Inr x)
    then show ?thesis using accounts_trans [OF first, of None "snd (f x v (snd (m v w)))"] assms(2) [of x]
      by (simp add: seq_def split_beta safe_act_def split: if_splits)
  qed
qed

text \<open>One operation of the store.\<close>

lemma safe_store:
  assumes "\<And>fault now wall db r db'. f fault now wall db = (r, db') \<Longrightarrow> \<exists>l. outbox_step db l db' \<and> (\<forall>i t. l \<noteq> LEnqueue i t)"
  shows "safe_act c (store_call f)"
  unfolding safe_act_def
proof (intro allI)
  fix v :: worker_env and w :: worker
  obtain r db' where r: "f (we_fault v (wk_tick w)) (we_now v (wk_tick w)) (we_wall v (wk_tick w)) (wk_db w) = (r, db')" by fastforce
  then obtain l where l: "outbox_step (wk_db w) l db'" "\<forall>i t. l \<noteq> LEnqueue i t" using assms by blast
  have "outbox_run (wk_db w) [l] db'" using outbox_run.step [OF outbox_run.start l(1)] by simp
  moreover have "snd (store_call f v w) = (next_tick w)\<lparr>wk_db := db'\<rparr>" by (simp add: store_call_def r split: sum.splits)
  ultimately show "accounts c w (snd (store_call f v w))" using l(2) posts_nonneg
    unfolding accounts_def by (intro exI [of _ "[l]"] exI [of _ "[]"]) (auto simp: next_tick_def)
qed

lemma safe_query: "safe_act c (store_query f)"
  unfolding safe_act_def store_query_def store_call_def by (auto simp: next_tick_def split: sum.splits intro!: accounts_refl)

lemma safe_best_effort: "safe_act c m \<Longrightarrow> safe_act c (best_effort m)"
  by (simp add: safe_act_def best_effort_def)

lemma safe_check [intro]: "safe_act c check_context"
  unfolding check_context_def by (intro safe_seq) auto

lemma safe_other:
  assumes "\<And>fault now wall db r db'. f fault now wall db = (r, db') \<Longrightarrow> outbox_step db LOther db'"
  shows "safe_act c (store_call f)"
  by (rule safe_store) (use assms in blast)

lemma safe_calls [intro]:
  "safe_act c (store_call (\<lambda>fault now wall. ReleaseNotificationClaim fault i))"
  "safe_act c (store_call (\<lambda>fault now wall. ClaimNotification fault i now))"
  "safe_act c (store_call (\<lambda>fault now wall. ClaimOfficialPoll fault i dest now))"
  "safe_act c (store_call (\<lambda>fault now wall. ResolveOfficialPoll fault i now pres))"
  "safe_act c (store_call (\<lambda>fault now' wall. PendingOfficialPolls fault dest when n))"
  "safe_act c (store_call (\<lambda>fault now wall. MarkFailed fault i wall (now + delay) reason))"
  "safe_act c (store_call (\<lambda>fault now wall. MarkRateLimited fault i dest wall (until now) reason))"
  "safe_act c (store_call (\<lambda>fault now wall. MarkSentWithCooldown fault i now interval))"
  "safe_act c (store_call (\<lambda>fault now wall. ReserveNotificationAttempt fault i dest now interval))"
  by (rule safe_other, erule outbox_step.intros)+

lemma safe_quarantine [intro]: "safe_act c (store_call (\<lambda>fault now wall. MarkQuarantined fault i now reason))"
  unfolding MarkQuarantined_def by (rule safe_other, erule outbox_step.intros)

lemma safe_resolve [intro]: "safe_act c (store_call (\<lambda>fault now wall. ResolveOfficialDispatch fault i now res))"
proof (rule safe_store)
  fix fault now wall db r db' assume "ResolveOfficialDispatch fault i now res db = (r, db')"
  then have "outbox_step db (LResolve i (rs_Outcome res)) db'" by (rule outbox_step.resolve)
  then show "\<exists>l. outbox_step db l db' \<and> (\<forall>i t. l \<noteq> LEnqueue i t)" by blast
qed

lemma pending_call [intro]: "safe_act c (store_call (\<lambda>fault now' wall. PendingDestination fault now n dest))"
proof (rule safe_store)
  fix fault now' wall db r db' assume run: "PendingDestination fault now n dest db = (r, db')"
  show "\<exists>l. outbox_step db l db' \<and> (\<forall>i t. l \<noteq> LEnqueue i t)"
  proof (cases "dest = [] \<or> 128 < length dest")
    case True
    then have "db' = db" using run by (simp add: PendingDestination_def)
    then have "outbox_step db LOther db'" using outbox_step.ledger [of db "od_retention db"] by simp
    then show ?thesis by blast
  next
    case False
    then have "pendingDestination fault now n dest db = (r, db')" using run by (simp add: PendingDestination_def)
    then show ?thesis using outbox_step.pending by blast
  qed
qed

lemmas safe_parts = safe_seq safe_calls safe_quarantine safe_resolve pending_call safe_query safe_best_effort safe_ret safe_check

lemma safe_release [intro]: "safe_act c (release_claimed i)"
  unfolding release_claimed_def by (rule safe_calls)

lemma safe_allowed [intro]: "safe_act c (delivery_allowed i dest)"
  unfolding delivery_allowed_def by (rule safe_query)

text \<open>The sender is called with the credit of the authorisation.\<close>

lemma safe_dispatch: "ob_id r = i \<Longrightarrow> safe_act (Some i) (dispatch_call r d)"
  unfolding safe_act_def accounts_def dispatch_call_def
  by (intro allI exI [of _ "[]"] exI [of _ "[i]"]) (auto simp: next_tick_def outbox_run.start posts_def credit_of_def)

lemma authorised_credit:
  assumes "BeginOfficialDispatch fault i dest now interval db = (Inr ((r, d), b), db')" b "accounts (Some i) w1 w2" "wk_db w1 = db'"
    "wk_db w = db" "wk_posts w1 = wk_posts w"
  shows "accounts None w w2"
proof -
  have step: "outbox_step db (LBegin i (Some (r, d))) db'" using outbox_step.dispatch [OF assms(1)] assms(2) by (simp add: authorised_def)
  obtain tr ps where 1: "outbox_run db' tr (wk_db w2)" "wk_posts w2 = wk_posts w @ ps" "\<And>i t. LEnqueue i t \<notin> set tr"
    "\<And>j. int (count (mset ps) j) \<le> posts j tr + int (credit_of (Some i) j)" using assms(3,4,6) unfolding accounts_def by auto
  have "outbox_run db ([LBegin i (Some (r, d))] @ tr) (wk_db w2)"
    by (rule outbox_run_append [OF 1(1)]) (use outbox_run.step [OF outbox_run.start step] in simp)
  moreover have "int (count (mset ps) j) \<le> posts j ([LBegin i (Some (r, d))] @ tr) + int (credit_of None j)" for j
    using 1(4) [of j] by (auto simp: posts_def begins_def credit_of_def split: if_splits)
  ultimately show "accounts None w w2" using 1(2,3) assms(5) unfolding accounts_def
    by (intro exI [of _ "[LBegin i (Some (r, d))] @ tr"] exI [of _ ps]) auto
qed

lemma safe_begin:
  assumes "\<And>r d. ob_id r = i \<Longrightarrow> safe_act (Some i) (f ((r, d), True))" "\<And>x. safe_act None (f (x, False))"
  shows "safe_act None (seq (store_call (\<lambda>fault now wall. BeginOfficialDispatch fault i dest now interval)) f)"
  unfolding safe_act_def
proof (intro allI)
  fix v :: worker_env and w :: worker
  let ?t = "wk_tick w"
  obtain res db' where begun: "BeginOfficialDispatch (we_fault v ?t) i dest (we_now v ?t) interval (wk_db w) = (res, db')" by fastforce
  let ?w1 = "(next_tick w)\<lparr>wk_db := db'\<rparr>"
  have step: "outbox_step (wk_db w) (LBegin i (authorised res)) db'" by (rule outbox_step.dispatch [OF begun])
  then have one: "accounts None w ?w1" unfolding accounts_def
    using outbox_run.step [OF outbox_run.start step] posts_nonneg by (intro exI [of _ "[LBegin i (authorised res)]"] exI [of _ "[]"]) (auto simp: next_tick_def)
  show "accounts None w (snd (seq (store_call (\<lambda>fault now wall. BeginOfficialDispatch fault i dest now interval)) f v w))"
  proof (cases res)
    case (Inl e)
    then show ?thesis using one by (simp add: seq_def store_call_def begun)
  next
    case (Inr y)
    obtain r d b where y: "y = ((r, d), b)" by (metis prod.collapse)
    have next1: "seq (store_call (\<lambda>fault now wall. BeginOfficialDispatch fault i dest now interval)) f v w = f ((r, d), b) v ?w1"
      by (simp add: seq_def store_call_def begun Inr y)
    show ?thesis
    proof (cases b)
      case True
      have owner: "ob_id r = i" using begun by (cases rule: begin_cases) (use Inr y True in \<open>auto dest: row_of_Some\<close>)
      then have "accounts (Some i) ?w1 (snd (f ((r, d), b) v ?w1))" using assms(1) True by (simp add: safe_act_def)
      from authorised_credit [OF begun [unfolded Inr y] True this] show ?thesis unfolding next1 by (simp add: next_tick_def)
    next
      case False
      then have "accounts None ?w1 (snd (f ((r, d), b) v ?w1))" using assms(2) by (simp add: safe_act_def)
      then show ?thesis unfolding next1 using accounts_trans [OF one] by fastforce
    qed
  qed
qed

lemma safe_official: "safe_act None (processOfficialMessage interval claimed)"
  unfolding processOfficialMessage_def
proof (rule safe_begin, goal_cases)
  case (1 r d)
  have "safe_act (Some (ob_id claimed)) (seq (dispatch_call r d) (\<lambda>(result, failed). seq (ask we_random) (\<lambda>random.
      seq (store_call (\<lambda>fault now wall. ResolveOfficialDispatch fault (ob_id r) now (resolution_of interval random r d result failed))) (\<lambda>_. check_context))))"
    by (rule safe_spend [OF safe_dispatch [OF 1]]) (auto intro!: safe_parts)
  then show ?case by (auto intro!: safe_seq safe_calls simp: case_prod_beta)
next
  case (2 x)
  then show ?case by (auto simp: split_beta)
qed

lemma safe_polls: "safe_act None (processOfficialPolls dest now)"
proof -
  have one: "safe_act None (poll_one dest r)" for dest r
    unfolding poll_one_def by (auto intro!: safe_parts split: option.split prod.split)
  have "safe_act None (poll_all dest xs)" for dest xs
    by (induction dest xs rule: poll_all.induct) (auto intro!: safe_seq safe_ret safe_check one)
  then show ?thesis unfolding processOfficialPolls_def by (intro safe_seq safe_calls)
qed

lemma safe_send: "safe_act None (send_claimed cfg r)"
  unfolding send_claimed_def after_failure_def Let_def
  by (auto intro!: safe_parts safe_release split: send_result.split)

lemma safe_deliver: "safe_act None (deliver_one cfg dest m)"
  unfolding deliver_one_def unless_released_def
  by (auto intro!: safe_parts safe_release safe_allowed safe_official safe_send split: option.split prod.split)

lemma safe_process: "safe_act None (process cfg)"
proof -
  have "safe_act None (deliver_all cfg dest blocked ms)" for dest blocked ms
    by (induction cfg dest blocked ms rule: deliver_all.induct) (auto intro!: safe_seq safe_ret safe_check safe_deliver)
  then show ?thesis unfolding process_def by (auto intro!: safe_parts safe_polls split: option.split)
qed

lemma passes_account: "accounts None w (run_passes passes w)"
proof (induction passes w rule: run_passes.induct)
  case (2 cfg v rest w)
  have "accounts None w (snd (process cfg v w))" using safe_process by (simp add: safe_act_def)
  from accounts_trans [OF this "2.IH"] show ?case by simp
qed (simp add: accounts_refl)


text \<open>Only a refusal the platform reported, with codes in their bounds, is recorded as one; a retry waits between a second and an hour.\<close>

lemma refusal_reported:
  assumes "rs_Outcome (resolution_of interval random r d result failed) = ''not_accepted''"
  shows "dc_State result \<in> {''not_accepted'', ''rejected'', ''opted_out''} \<and> \<not> codes_invalid result"
  using assms by (auto simp: resolution_of_def Let_def split: if_splits)

lemma retryDelay_bounds: "second \<le> retryDelay attempts random" "retryDelay attempts random \<le> hour"
proof -
  let ?n = "nat (min 8 (max 0 attempts))"
  have "(1 :: int) \<le> 2 ^ ?n" by simp
  then have base: "second \<le> second * 2 ^ ?n" by (simp add: duration_units)
  moreover have "0 \<le> uint random mod (second * 2 ^ ?n div 2 + 1)" by (rule pos_mod_sign) (simp add: duration_units pos_imp_zdiv_nonneg_iff add_nonneg_pos)
  moreover have "second \<le> hour" by (simp add: duration_units)
  ultimately show "second \<le> retryDelay attempts random" by (auto simp: retryDelay_def Let_def)
  show "retryDelay attempts random \<le> hour" by (simp add: retryDelay_def Let_def)
qed

section \<open>Application\<close>

definition sample_outcome :: dispatch_outcome where
  "sample_outcome = \<lparr>dc_State = ''accepted'', dc_ProviderID = ''m1'', dc_ProviderState = [], dc_Reason = [], dc_StatusCode = 200, dc_APIErrorCode = 0,
     dc_RetryAfterDuration = 0, dc_PlatformSegments = None, dc_Price = None, dc_PriceUnit = [], dc_Suspend = False\<rparr>"

definition sample_world :: worker_env where
  "sample_world = \<lparr>we_fault = (\<lambda>t. False), we_now = (\<lambda>t. sample_now + 3 * minute), we_wall = (\<lambda>t. sample_now + 3 * minute), we_cancelled = (\<lambda>t. False),
     we_random = (\<lambda>t. 0), we_send = (\<lambda>t r. Sent), we_dispatch = (\<lambda>t r d. (sample_outcome, False)), we_poll = (\<lambda>t r d. (sample_outcome, False))\<rparr>"

definition sample_worker :: worker_config where
  "sample_worker = \<lparr>wc_Destination = sample_destination, wc_identity = None, wc_official = True, wc_interval = second\<rparr>"

definition sample_store :: worker where
  "sample_store = \<lparr>wk_db = sample_db, wk_tick = 0, wk_posts = []\<rparr>"

lemma sample_entry_of: "row_of ''n1'' sample_db = Some ((new_row sample_now None sample_message)\<lparr>ob_lease := Some 1700000120000\<rparr>)"
  "dispatch_of ''n1'' sample_db = Some (new_intent [] sample_message)" "dp_attempt (new_intent [] sample_message) = 0"
  by (simp_all add: row_of_def dispatch_of_def sample_db_def new_row_def new_intent_def sample_message_def)


end
