(* ===== verification/Monitor.thy ===== *)
theory Monitor
  imports Config
begin

text \<open>
  The rules of the monitor, \<open>internal/daemon/monitor_state.go\<close> and \<open>monitor_month.go\<close>: how one
  observation of a budget or of the health of a component moves the durable state of its rule and which event it raises.
  Identifiers drawn are arguments; what a diagnostic adds to an event is a list of evidence entries.
\<close>

section \<open>Configuration and data\<close>

record budget_alerts =
  ba_Enabled :: bool
  ba_MonthlyBytes :: uint64
  ba_MonthlyCost :: f64
  ba_DailyBytes :: uint64
  ba_DailyGrowthRatio :: f64
  ba_BaselineDays :: int

record health_alerts =
  ha_Enabled :: bool
  ha_GracePeriod :: duration
  ha_RecoveryPeriod :: duration
  ha_ReminderInterval :: duration
  ha_GeoIPFailureThreshold :: int
  ha_GeoIPStaleAfter :: duration

record alerts_config =
  al_Budget :: budget_alerts
  al_Health :: health_alerts

definition defaultAlerts :: alerts_config where
  "defaultAlerts = \<lparr>al_Budget = \<lparr>ba_Enabled = False, ba_MonthlyBytes = 0, ba_MonthlyCost = Fin 0, ba_DailyBytes = 0, ba_DailyGrowthRatio = Fin 0,
       ba_BaselineDays = 7\<rparr>,
     al_Health = \<lparr>ha_Enabled = False, ha_GracePeriod = 2 * minute, ha_RecoveryPeriod = minute, ha_ReminderInterval = 24 * hour,
       ha_GeoIPFailureThreshold = 2, ha_GeoIPStaleAfter = 72 * hour\<rparr>\<rparr>"

datatype alerts_error =
    ByteLimits | MonthlyCostInvalid | GrowthRatioInvalid | BaselineDaysInvalid | NoThreshold | BillingRequired
  | GraceInvalid | RecoveryInvalid | ReminderInvalid | GeoThresholdInvalid | GeoStaleInvalid

definition validateAlerts :: "bool \<Rightarrow> alerts_config \<Rightarrow> alerts_error option" where
  "validateAlerts billing c =
     (let b = al_Budget c; h = al_Health c in
      if 2 ^ 63 - 1 < uint (ba_MonthlyBytes b) \<or> 2 ^ 63 - 1 < uint (ba_DailyBytes b) then Some ByteLimits
      else if is_nan (ba_MonthlyCost b) \<or> is_inf (ba_MonthlyCost b) \<or> fless (ba_MonthlyCost b) (Fin 0) \<or> fless (Fin 1000000000000) (ba_MonthlyCost b)
      then Some MonthlyCostInvalid
      else if is_nan (ba_DailyGrowthRatio b) \<or> is_inf (ba_DailyGrowthRatio b) \<or>
        ba_DailyGrowthRatio b \<noteq> Fin 0 \<and> (fle (ba_DailyGrowthRatio b) (Fin 1) \<or> fless (Fin 100) (ba_DailyGrowthRatio b)) then Some GrowthRatioInvalid
      else if ba_BaselineDays b < 3 \<or> 30 < ba_BaselineDays b then Some BaselineDaysInvalid
      else if ba_Enabled b \<and> ba_MonthlyBytes b = 0 \<and> ba_MonthlyCost b = Fin 0 \<and> ba_DailyBytes b = 0 \<and> ba_DailyGrowthRatio b = Fin 0 then Some NoThreshold
      else if ba_Enabled b \<and> fless (Fin 0) (ba_MonthlyCost b) \<and> \<not> billing then Some BillingRequired
      else if ha_GracePeriod h < 10 * second \<or> hour < ha_GracePeriod h then Some GraceInvalid
      else if ha_RecoveryPeriod h < 10 * second \<or> hour < ha_RecoveryPeriod h then Some RecoveryInvalid
      else if ha_ReminderInterval h \<noteq> 0 \<and> (ha_ReminderInterval h < hour \<or> 7 * 24 * hour < ha_ReminderInterval h) then Some ReminderInvalid
      else if ha_GeoIPFailureThreshold h < 1 \<or> 30 < ha_GeoIPFailureThreshold h then Some GeoThresholdInvalid
      else if ha_GeoIPStaleAfter h < 24 * hour \<or> 30 * 24 * hour < ha_GeoIPStaleAfter h then Some GeoStaleInvalid
      else None)"

record tier =
  ti_UpToGB :: f64
  ti_PricePerGB :: f64

record period_result =
  pd_Period :: string
  pd_Start :: time
  pd_End :: time
  pd_Evaluated :: bool
  pd_Reason :: string
  pd_Milestone :: int
  pd_Coverage :: string

record month_policy =
  mp_CycleStartDay :: int
  mp_ThresholdBytes :: uint64
  mp_ThresholdCost :: f64
  mp_Currency :: string
  mp_UnitBytes :: uint64
  mp_FreeGB :: f64
  mp_Tiers :: "tier list"

record rule_status =
  ru_Key :: string
  ru_State :: string
  ru_Reason :: string
  ru_Enabled :: bool
  ru_Available :: bool
  ru_Pending :: bool
  ru_Period :: string
  ru_PeriodStart :: time
  ru_PeriodEnd :: time
  ru_ObservedBytes :: uint64
  ru_ThresholdBytes :: uint64
  ru_ObservedCost :: f64
  ru_ThresholdCost :: f64
  ru_Currency :: string
  ru_GrowthRatio :: f64
  ru_BaselineMeanBytes :: f64
  ru_BaselineDays :: int
  ru_Milestone :: int
  ru_Basis :: string
  ru_Coverage :: string
  ru_ConditionSince :: time
  ru_LastNotification :: time
  ru_PreviousPeriod :: period_result
  ru_LastPersistedObservation :: time
  ru_PendingSince :: time
  ru_PendingAgeMS :: int

record monitor_data =
  md_SchemaVersion :: int
  md_ObservedAt :: time
  md_Period :: string
  md_PeriodStart :: time
  md_PeriodEnd :: time
  md_Milestone :: int
  md_Evaluated :: bool
  md_IncidentID :: string
  md_Active :: bool
  md_ConditionSince :: time
  md_RecoverySince :: time
  md_LastNotification :: time
  md_GeoScheduled :: bool
  md_Status :: rule_status
  md_MonthPolicy :: "month_policy option"
  md_MonthFinalized :: bool
  md_PreviousPeriod :: period_result

record monitor_observation =
  mo_Now :: time
  mo_Status :: rule_status
  mo_Condition :: string
  mo_Since :: time
  mo_GeoKnown :: bool
  mo_GeoScheduled :: bool
  mo_MonthPolicy :: "month_policy option"
  mo_Closing :: bool
  mo_Diagnostic :: "(string \<times> gotext) list"

definition monitorKeys :: "string list" where
  "monitorKeys = [''budget_month_bytes'', ''budget_month_cost'', ''budget_day_bytes'', ''budget_day_growth'', ''health_sensor'',
     ''health_interface_counter'', ''health_ssh_journal'', ''health_storage'', ''health_geoip_update'']"

definition monitorBasis :: string where
  "monitorBasis = ''Observed selected-interface guest TX estimate; private traffic and duplicated paths may be included; overlapping UTC-hour precision.''"

definition monitorEnabled :: "string \<Rightarrow> alerts_config \<Rightarrow> bool" where
  "monitorEnabled key cfg =
     (let b = al_Budget cfg in
      if key = ''budget_month_bytes'' then ba_Enabled b \<and> 0 < ba_MonthlyBytes b
      else if key = ''budget_month_cost'' then ba_Enabled b \<and> fless (Fin 0) (ba_MonthlyCost b)
      else if key = ''budget_day_bytes'' then ba_Enabled b \<and> 0 < ba_DailyBytes b
      else if key = ''budget_day_growth'' then ba_Enabled b \<and> fless (Fin 0) (ba_DailyGrowthRatio b)
      else ha_Enabled (al_Health cfg))"

section \<open>Billing cycles\<close>

definition recordedCycleDay :: "int \<Rightarrow> int" where
  "recordedCycleDay day = (if day = 1 then 0 else day)"

definition monthly :: "string \<Rightarrow> bool" where
  "monthly key \<longleftrightarrow> key = ''budget_month_bytes'' \<or> key = ''budget_month_cost''"

definition billingCycleChanged :: "monitor_data \<Rightarrow> monitor_observation \<Rightarrow> bool" where
  "billingCycleChanged previous ob =
     (if mo_Closing ob \<or> md_Period previous = [] \<or> \<not> monthly (ru_Key (mo_Status ob)) then False
      else case mo_MonthPolicy ob of
        None \<Rightarrow> False
      | Some p \<Rightarrow> (case md_MonthPolicy previous of None \<Rightarrow> 0 | Some q \<Rightarrow> recordedCycleDay (mp_CycleStartDay q)) \<noteq> recordedCycleDay (mp_CycleStartDay p))"

definition monitorRollback :: "monitor_data \<Rightarrow> monitor_observation \<Rightarrow> bool" where
  "monitorRollback previous ob \<longleftrightarrow> mo_Now ob < md_ObservedAt previous \<or>
     ru_Period (mo_Status ob) \<noteq> [] \<and> md_Period previous \<noteq> [] \<and> string_less (ru_Period (mo_Status ob)) (md_Period previous) \<and>
     \<not> billingCycleChanged previous ob"

definition needsMonthClose :: "monitor_data \<Rightarrow> monitor_observation \<Rightarrow> bool" where
  "needsMonthClose previous ob \<longleftrightarrow> ru_Enabled (mo_Status ob) \<and> \<not> billingCycleChanged previous ob \<and> monthly (ru_Key (mo_Status ob)) \<and>
     md_Period previous \<noteq> [] \<and> string_less (md_Period previous) (ru_Period (mo_Status ob)) \<and> \<not> md_MonthFinalized previous"

section \<open>Budgets\<close>

text \<open>Four fifths of a limit, rounded up, without leaving 64 bits.\<close>

definition four_fifths :: "uint64 \<Rightarrow> uint64" where
  "four_fifths t = t div 5 * 4 + (t mod 5 * 4 + 4) div 5"

definition reached_milestone :: "rule_status \<Rightarrow> int" where
  "reached_milestone s =
     (if ru_Key s = ''budget_month_bytes'' then
        if ru_ThresholdBytes s \<le> ru_ObservedBytes s then 100 else if four_fifths (ru_ThresholdBytes s) \<le> ru_ObservedBytes s then 80 else 0
      else if ru_Key s = ''budget_month_cost'' then
        if fle (ru_ThresholdCost s) (ru_ObservedCost s) then 100
        else if fle (fmul (ru_ThresholdCost s) (f64_of_rat (4 / 5))) (ru_ObservedCost s) then 80 else 0
      else if ru_Key s = ''budget_day_bytes'' then
        if ru_ThresholdBytes s \<le> ru_ObservedBytes s then 100 else 0
      else if ru_Key s = ''budget_day_growth'' then
        if fle (fmul (ru_BaselineMeanBytes s) (ru_GrowthRatio s)) (f64_of_uint64 (ru_ObservedBytes s)) then 100 else 0
      else 0)"

definition rfc3339 :: "time \<Rightarrow> gotext" where
  "rfc3339 t = Fmt ''2006-01-02T15:04:05.999999999Z07:00'' [Number t]"

definition budget_event :: "string \<Rightarrow> string \<Rightarrow> string \<Rightarrow> int \<Rightarrow> time \<Rightarrow> rule_status \<Rightarrow> event" where
  "budget_event fresh incident phase milestone now s = \<lparr>ev_ID = fresh, ev_IncidentID = incident, ev_ObservedAt = now, ev_Kind = ru_Key s, ev_Phase = phase,
     ev_Severity = (if milestone = 100 then SeverityHigh else SeverityMedium),
     ev_Summary = Fmt ''Observed guest TX estimate reached %d%% of the configured threshold'' [Number milestone],
     ev_SourceIP = [], ev_SourceRange = [], ev_Target = Text [], ev_Count = 0, ev_Geo = no_geo,
     ev_Evidence = [(''period'', Text (ru_Period s)), (''period_start_utc'', rfc3339 (ru_PeriodStart s)), (''period_end_utc'', rfc3339 (ru_PeriodEnd s)),
       (''reason'', Text ''threshold_crossed''), (''observed_bytes'', Number (uint (ru_ObservedBytes s))), (''threshold_bytes'', Number (uint (ru_ThresholdBytes s))),
       (''observed_cost'', Float (ru_ObservedCost s)), (''threshold_cost'', Float (ru_ThresholdCost s)), (''currency'', Text (ru_Currency s)),
       (''baseline_mean_bytes'', Float (ru_BaselineMeanBytes s)), (''baseline_days'', Number (ru_BaselineDays s)),
       (''growth_ratio'', Float (ru_GrowthRatio s)), (''milestone'', Number milestone), (''coverage'', Text (ru_Coverage s)),
       (''basis'', Text monitorBasis)]\<rparr>"

definition daily :: "rule_status \<Rightarrow> bool" where
  "daily s \<longleftrightarrow> has_prefix (ru_Key s) ''budget_day_''"

text \<open>The state of the period an observation belongs to, before it is measured.\<close>

definition enter_period :: "monitor_data \<Rightarrow> monitor_data \<Rightarrow> monitor_observation \<Rightarrow> monitor_data" where
  "enter_period next0 previous ob =
     (let s = mo_Status ob; changed = billingCycleChanged previous ob;
          old = \<lparr>pd_Period = md_Period previous, pd_Start = md_PeriodStart previous, pd_End = md_PeriodEnd previous, pd_Evaluated = False,
            pd_Reason = ''billing_cycle_changed'', pd_Milestone = md_Milestone previous,
            pd_Coverage = (let c = ru_Coverage (md_Status previous) in if c \<noteq> ''adequate_recorded'' \<and> c \<noteq> ''incomplete'' then ''unknown'' else c)\<rparr>;
          n = (if changed then next0\<lparr>md_PreviousPeriod := old, md_Status := (md_Status next0)\<lparr>ru_PreviousPeriod := old\<rparr>\<rparr> else next0)
      in if md_Period previous \<noteq> ru_Period s \<or> changed
         then n\<lparr>md_Period := ru_Period s, md_PeriodStart := ru_PeriodStart s, md_PeriodEnd := ru_PeriodEnd s, md_Milestone := 0,
           md_Evaluated := False, md_IncidentID := [], md_LastNotification := zero_time, md_MonthFinalized := False, md_MonthPolicy := None\<rparr>
         else next0)"

definition adopt_policy :: "monitor_observation \<Rightarrow> monitor_data \<Rightarrow> monitor_data" where
  "adopt_policy ob n =
     (let s = mo_Status ob in
      if \<not> daily s \<and> \<not> mo_Closing ob
      then n\<lparr>md_PeriodStart := ru_PeriodStart s, md_PeriodEnd := ru_PeriodEnd s,
        md_MonthPolicy := (if mo_MonthPolicy ob = None \<and> ru_Key s = ''budget_month_bytes'' \<and> 0 < ru_ThresholdBytes s
          then Some \<lparr>mp_CycleStartDay = 0, mp_ThresholdBytes = ru_ThresholdBytes s, mp_ThresholdCost = Fin 0, mp_Currency = [], mp_UnitBytes = 0,
            mp_FreeGB = Fin 0, mp_Tiers = []\<rparr>
          else mo_MonthPolicy ob)\<rparr>
      else n)"

text \<open>The crossing of a milestone and the closing of a month.\<close>

definition cross_milestone :: "string \<Rightarrow> string \<Rightarrow> monitor_observation \<Rightarrow> monitor_data \<Rightarrow> monitor_data \<times> event list" where
  "cross_milestone incident fresh ob n =
     (let s = mo_Status ob; milestone = reached_milestone s in
      if md_Milestone n < milestone then
        let phase = (if md_Milestone n = 0 then ''start'' else ''update'');
            owner = (if md_Milestone n = 0 then incident else md_IncidentID n)
        in (n\<lparr>md_IncidentID := owner, md_Milestone := milestone, md_LastNotification := mo_Now ob\<rparr>,
            [budget_event fresh owner phase milestone (mo_Now ob) s])
      else (n, []))"

definition show_milestone :: "monitor_data \<Rightarrow> monitor_data" where
  "show_milestone n =
     (let st = (if 0 < md_Milestone n then (md_Status n)\<lparr>ru_State := ''alert'', ru_Reason := ''threshold_crossed''\<rparr> else md_Status n)
      in n\<lparr>md_Status := st\<lparr>ru_Milestone := md_Milestone n, ru_LastNotification := md_LastNotification n\<rparr>\<rparr>)"

definition close_period :: "monitor_observation \<Rightarrow> monitor_data \<Rightarrow> monitor_data" where
  "close_period ob n =
     (if mo_Closing ob then
        let result = \<lparr>pd_Period = md_Period n, pd_Start = md_PeriodStart n, pd_End = md_PeriodEnd n, pd_Evaluated = True,
              pd_Reason = ru_Reason (md_Status n), pd_Milestone = md_Milestone n, pd_Coverage = ru_Coverage (mo_Status ob)\<rparr>
        in n\<lparr>md_MonthFinalized := True, md_PreviousPeriod := result, md_Status := (md_Status n)\<lparr>ru_PreviousPeriod := result\<rparr>\<rparr>
      else n)"

definition measure_budget :: "string \<Rightarrow> string \<Rightarrow> monitor_observation \<Rightarrow> monitor_data \<Rightarrow> monitor_data \<times> event list" where
  "measure_budget incident fresh ob n0 =
     (let n1 = n0\<lparr>md_Evaluated := daily (mo_Status ob), md_Status := (md_Status n0)\<lparr>ru_State := ''observed'', ru_Reason := ''observed_estimate''\<rparr>\<rparr>;
          (n2, events) = cross_milestone incident fresh ob n1
      in (close_period ob (show_milestone n2), events))"

definition evaluateBudget :: "string \<Rightarrow> string \<Rightarrow> monitor_data \<Rightarrow> monitor_data \<Rightarrow> monitor_observation \<Rightarrow> monitor_data \<times> event list" where
  "evaluateBudget incident fresh next0 previous ob =
     (let s = mo_Status ob in
      if mo_Closing ob \<and> md_MonthFinalized previous then (previous, [])
      else
        let n = next0\<lparr>md_Status := (md_Status next0)\<lparr>ru_PreviousPeriod := md_PreviousPeriod previous\<rparr>\<rparr>;
            lost = \<lparr>pd_Period = md_Period previous, pd_Start = md_PeriodStart previous, pd_End = md_PeriodEnd previous, pd_Evaluated = False,
              pd_Reason = ru_Reason s, pd_Milestone = md_Milestone previous, pd_Coverage = ru_Coverage s\<rparr>
        in if mo_Closing ob \<and> \<not> ru_Available s \<and> ru_Reason s = ''historical_policy_unavailable''
           then (n\<lparr>md_MonthFinalized := True, md_PreviousPeriod := lost,
                   md_Status := (md_Status n)\<lparr>ru_PreviousPeriod := lost, ru_State := ''unknown''\<rparr>\<rparr>, [])
           else if \<not> ru_Enabled s
           then (n\<lparr>md_Status := (md_Status n)\<lparr>ru_State := ''disabled'', ru_Reason := ''disabled'', ru_Available := True\<rparr>\<rparr>, [])
           else if \<not> ru_Available s
           then let st = (if ru_Period s = md_Period previous
                  then (md_Status n)\<lparr>ru_Milestone := md_Milestone previous, ru_LastNotification := md_LastNotification previous\<rparr> else md_Status n)
                in (n\<lparr>md_Status := st\<lparr>ru_State := ''unknown''\<rparr>\<rparr>, [])
           else if md_Period previous = ru_Period s \<and> daily s \<and> md_Evaluated previous then (n\<lparr>md_Status := md_Status previous\<rparr>, [])
           else measure_budget incident fresh ob (adopt_policy ob (enter_period n previous ob)))"

section \<open>Health\<close>

definition healthStatus :: "monitor_data \<Rightarrow> monitor_data" where
  "healthStatus d = d\<lparr>md_Status := (md_Status d)\<lparr>ru_ConditionSince := md_ConditionSince d, ru_LastNotification := md_LastNotification d\<rparr>\<rparr>"

definition addEvidence :: "(string \<times> gotext) list \<Rightarrow> event \<Rightarrow> event" where
  "addEvidence diagnostic e = (if ev_Phase e = ''recovery'' then e else fold (\<lambda>(k, v). set_evidence k v) diagnostic e)"

definition healthEvent :: "string \<Rightarrow> monitor_data \<Rightarrow> time \<Rightarrow> string \<Rightarrow> (string \<times> gotext) list \<Rightarrow> event" where
  "healthEvent fresh d now phase diagnostic = addEvidence diagnostic
     \<lparr>ev_ID = fresh, ev_IncidentID = md_IncidentID d, ev_ObservedAt = now, ev_Kind = ru_Key (md_Status d), ev_Phase = phase,
      ev_Severity = (if phase = ''recovery'' then SeverityInfo else SeverityMedium),
      ev_Summary = Text (if phase = ''recovery'' then ''Monitoring health condition recovered'' else ''Monitoring health condition requires attention''),
      ev_SourceIP = [], ev_SourceRange = [], ev_Target = Text [], ev_Count = 0, ev_Geo = no_geo,
      ev_Evidence = [(''reason'', Text (ru_Reason (md_Status d))), (''condition_since_utc'', rfc3339 (md_ConditionSince d)),
        (''observation'', Text ''recorded component health; does not guarantee complete collection or notification delivery'')]\<rparr>"

definition set_state :: "string \<Rightarrow> monitor_data \<Rightarrow> monitor_data" where
  "set_state st d = d\<lparr>md_Status := (md_Status d)\<lparr>ru_State := st\<rparr>\<rparr>"

text \<open>The branch of a failing component.\<close>

definition health_failed :: "string \<Rightarrow> string \<Rightarrow> health_alerts \<Rightarrow> bool \<Rightarrow> monitor_observation \<Rightarrow> monitor_data \<Rightarrow> monitor_data \<times> event list" where
  "health_failed incident fresh h startup ob d0 =
     (let now = mo_Now ob;
          d1 = d0\<lparr>md_RecoverySince := zero_time\<rparr>;
          d = (if is_zero (md_ConditionSince d1)
               then d1\<lparr>md_ConditionSince := (if \<not> is_zero (mo_Since ob) \<and> mo_Since ob \<le> now then mo_Since ob else now)\<rparr> else d1)
      in if \<not> md_Active d then
           let d = set_state ''debouncing'' d in
           if startup \<or> time_sub now (md_ConditionSince d) < ha_GracePeriod h then (healthStatus d, [])
           else let d = set_state ''alert'' (d\<lparr>md_Active := True, md_IncidentID := incident, md_LastNotification := now\<rparr>)
                in (healthStatus d, [healthEvent fresh d now ''start'' (mo_Diagnostic ob)])
         else
           let d = set_state ''alert'' d in
           if \<not> startup \<and> 0 < ha_ReminderInterval h \<and> ha_ReminderInterval h \<le> time_sub now (md_LastNotification d)
           then let d = d\<lparr>md_LastNotification := now\<rparr> in (healthStatus d, [healthEvent fresh d now ''update'' (mo_Diagnostic ob)])
           else (healthStatus d, []))"

text \<open>The branch of a healthy component.\<close>

definition health_good :: "string \<Rightarrow> health_alerts \<Rightarrow> bool \<Rightarrow> monitor_observation \<Rightarrow> monitor_data \<Rightarrow> monitor_data \<times> event list" where
  "health_good fresh h startup ob d0 =
     (let now = mo_Now ob in
      if startup
      then (healthStatus (d0\<lparr>md_RecoverySince := zero_time,
        md_Status := (md_Status d0)\<lparr>ru_State := ''unknown'', ru_Reason := ''startup_grace'', ru_Available := False\<rparr>\<rparr>), [])
      else if md_Active d0 then
        let d = set_state ''recovering'' (if is_zero (md_RecoverySince d0) then d0\<lparr>md_RecoverySince := now\<rparr> else d0) in
        if time_sub now (md_RecoverySince d) < ha_RecoveryPeriod h then (healthStatus d, [])
        else let d = set_state ''healthy'' (d\<lparr>md_Active := False, md_LastNotification := now\<rparr>)
             in (healthStatus (d\<lparr>md_ConditionSince := zero_time, md_RecoverySince := zero_time\<rparr>),
                 [healthEvent fresh d now ''recovery'' (mo_Diagnostic ob)])
      else (healthStatus (set_state ''healthy'' (d0\<lparr>md_ConditionSince := zero_time, md_RecoverySince := zero_time\<rparr>)), []))"

definition evaluate_health :: "string \<Rightarrow> string \<Rightarrow> health_alerts \<Rightarrow> time \<Rightarrow> monitor_observation \<Rightarrow> monitor_data \<Rightarrow> monitor_data \<times> event list" where
  "evaluate_health incident fresh h started ob d0 =
     (let d = (if mo_GeoKnown ob then d0\<lparr>md_GeoScheduled := mo_GeoScheduled ob\<rparr> else d0);
          startup = (mo_Now ob < started + ha_GracePeriod h)
      in if \<not> ru_Enabled (mo_Status ob) \<or> mo_Condition ob = ''disabled''
         then (d\<lparr>md_Active := False, md_ConditionSince := zero_time, md_RecoverySince := zero_time, md_IncidentID := [],
           md_Status := (md_Status d)\<lparr>ru_State := ''disabled'', ru_Reason := ''disabled'', ru_Available := True\<rparr>\<rparr>, [])
         else if mo_Condition ob = ''unknown''
         then (healthStatus (d\<lparr>md_RecoverySince := zero_time, md_ConditionSince := (if md_Active d then md_ConditionSince d else zero_time),
           md_Status := (md_Status d)\<lparr>ru_State := ''unknown'', ru_Available := False\<rparr>\<rparr>), [])
         else if mo_Condition ob = ''failed'' then health_failed incident fresh h startup ob d
         else health_good fresh h startup ob d)"

definition evaluateMonitor :: "string \<Rightarrow> string \<Rightarrow> alerts_config \<Rightarrow> time \<Rightarrow> monitor_data \<Rightarrow> monitor_observation \<Rightarrow> monitor_data \<times> event list" where
  "evaluateMonitor incident fresh cfg started previous ob =
     (if monitorRollback previous ob then (previous, [])
      else
        let d = previous\<lparr>md_SchemaVersion := 2, md_ObservedAt := mo_Now ob, md_Status := mo_Status ob\<rparr>
        in if has_prefix (ru_Key (mo_Status ob)) ''budget_'' then evaluateBudget incident fresh d previous ob
           else evaluate_health incident fresh (al_Health cfg) started ob d)"


section \<open>Milestones of a budget\<close>

text \<open>The byte limit of the first milestone is four fifths of the threshold, rounded up, for every threshold.\<close>

lemma four_fifths_exact: "unat (four_fifths t) = (4 * unat t + 4) div 5"
proof -
  have t: "unat t < 2 ^ 64" using unsigned_less [of t] by simp
  have "unat (t div 5 * 4) = unat t div 5 * 4" using t by (simp add: unat_word_ariths unat_div)
  moreover have "unat ((t mod 5 * 4 + 4) div 5) = (unat t mod 5 * 4 + 4) div 5"
    by (simp add: unat_word_ariths unat_div unat_mod)
  ultimately have "unat (four_fifths t) = (unat t div 5 * 4 + (unat t mod 5 * 4 + 4) div 5) mod 2 ^ 64"
    by (simp add: four_fifths_def unat_word_ariths)
  moreover have "unat t div 5 * 4 + (unat t mod 5 * 4 + 4) div 5 = (4 * unat t + 4) div 5" by presburger
  ultimately show ?thesis using t by simp
qed

lemma reached_values: "reached_milestone s \<in> {0, 80, 100}"
  by (simp add: reached_milestone_def)

definition point :: "monitor_data \<Rightarrow> string \<times> int" where
  "point d = (md_Period d, md_Milestone d)"

definition point_less :: "string \<times> int \<Rightarrow> string \<times> int \<Rightarrow> bool" where
  "point_less a b \<longleftrightarrow> string_less (fst a) (fst b) \<or> fst a = fst b \<and> snd a < snd b"

lemma point_less_trans: "point_less a b \<Longrightarrow> point_less b c \<Longrightarrow> point_less a c"
  using string_less_trans by (auto simp: point_less_def)

lemma point_less_irrefl [simp]: "\<not> point_less a a"
  by (simp add: point_less_def)

text \<open>The period and milestone an event names.\<close>

definition crossing :: "event \<Rightarrow> string \<times> int" where
  "crossing e = (case (map_of (ev_Evidence e) ''period'', map_of (ev_Evidence e) ''milestone'') of
     (Some (Text p), Some (Number m)) \<Rightarrow> (p, m) | _ \<Rightarrow> ([], 0))"

lemma crossing_budget [simp]: "crossing (budget_event fresh incident phase milestone now s) = (ru_Period s, milestone)"
  by (simp add: crossing_def budget_event_def)

lemma string_less_nil [simp]: "string_less [] s \<longleftrightarrow> s \<noteq> []"
  by (cases s) auto

lemma policy_point [simp]: "md_Period (adopt_policy ob n) = md_Period n" "md_Milestone (adopt_policy ob n) = md_Milestone n"
  by (simp_all add: adopt_policy_def Let_def)

lemma enter_point:
  assumes "\<not> billingCycleChanged previous ob"
  shows "md_Period (enter_period n previous ob) = (if md_Period previous \<noteq> ru_Period (mo_Status ob) then ru_Period (mo_Status ob) else md_Period n)"
    "md_Milestone (enter_period n previous ob) = (if md_Period previous \<noteq> ru_Period (mo_Status ob) then 0 else md_Milestone n)"
  using assms by (simp_all add: enter_period_def Let_def)

lemma presented_point [simp]:
  "md_Period (close_period ob n) = md_Period n" "md_Milestone (close_period ob n) = md_Milestone n"
  "md_Period (show_milestone n) = md_Period n" "md_Milestone (show_milestone n) = md_Milestone n"
  by (simp_all add: close_period_def show_milestone_def Let_def)

lemma measure_point:
  assumes "measure_budget incident fresh ob n = (d', es)"
  shows "md_Period d' = md_Period n"
    and "md_Milestone n < reached_milestone (mo_Status ob) \<and> md_Milestone d' = reached_milestone (mo_Status ob) \<and>
        (\<exists>e. es = [e] \<and> crossing e = (ru_Period (mo_Status ob), md_Milestone d')) \<or>
      md_Milestone d' = md_Milestone n \<and> es = []"
  using assms by (auto simp: measure_budget_def Let_def cross_milestone_def split: if_splits)

text \<open>One evaluation moves the point forward, strictly when it raises an event.\<close>

definition moves :: "monitor_data \<Rightarrow> monitor_data \<times> event list \<Rightarrow> bool" where
  "moves d r \<longleftrightarrow> md_Milestone (fst r) \<in> {0, 80, 100} \<and>
     (snd r = [] \<and> (point (fst r) = point d \<or> point_less (point d) (point (fst r))) \<or>
      (\<exists>e. snd r = [e] \<and> crossing e = point (fst r) \<and> point_less (point d) (point (fst r)) \<and> snd (crossing e) \<in> {80, 100}))"

lemma measure_moves:
  assumes "\<not> monitorRollback d ob" "\<not> billingCycleChanged d ob" "ru_Period (mo_Status ob) \<noteq> []" "md_Milestone d \<in> {0, 80, 100}"
    and n: "md_Period n = md_Period d" "md_Milestone n = md_Milestone d"
  shows "moves d (measure_budget incident fresh ob (adopt_policy ob (enter_period n d ob)))"
proof -
  let ?n = "adopt_policy ob (enter_period n d ob)"
  obtain d' es where r: "measure_budget incident fresh ob ?n = (d', es)" by fastforce
  have period: "md_Period ?n = ru_Period (mo_Status ob)" using enter_point(1) [OF assms(2)] n by simp
  have forward: "md_Period d \<noteq> ru_Period (mo_Status ob) \<Longrightarrow> string_less (md_Period d) (ru_Period (mo_Status ob))"
    using assms(1-3) string_less_linear [of "md_Period d" "ru_Period (mo_Status ob)"] by (auto simp: monitorRollback_def)
  show ?thesis
    unfolding r moves_def point_def point_less_def
    using measure_point [OF r] period forward enter_point(2) [OF assms(2), of n] n assms(4) reached_values [of "mo_Status ob"]
    by (cases "md_Period d = ru_Period (mo_Status ob)") (auto split: if_splits)
qed

lemma evaluate_moves:
  assumes "has_prefix (ru_Key (mo_Status ob)) ''budget_''" "ru_Available (mo_Status ob) \<longrightarrow> ru_Period (mo_Status ob) \<noteq> []"
    "\<not> billingCycleChanged d ob" "md_Milestone d \<in> {0, 80, 100}"
  shows "moves d (evaluateMonitor incident fresh cfg started d ob)"
proof (cases "monitorRollback d ob")
  case True
  then show ?thesis using assms(4) by (simp add: evaluateMonitor_def moves_def)
next
  case False
  let ?n = "d\<lparr>md_SchemaVersion := 2, md_ObservedAt := mo_Now ob, md_Status := mo_Status ob\<rparr>"
  have run: "evaluateMonitor incident fresh cfg started d ob = evaluateBudget incident fresh ?n d ob"
    using False assms(1) by (simp add: evaluateMonitor_def)
  have quiet: "moves d (d2, [])" if "md_Period d2 = md_Period d" "md_Milestone d2 = md_Milestone d" for d2
    using that assms(4) by (simp add: moves_def point_def)
  show ?thesis
    unfolding run evaluateBudget_def Let_def
    using measure_moves [OF False assms(3) _ assms(4)] assms(2) by (auto intro!: quiet)
qed

fun monitor_run :: "alerts_config \<Rightarrow> time \<Rightarrow> (string \<times> string \<times> monitor_observation) list \<Rightarrow> monitor_data \<Rightarrow> monitor_data \<times> event list" where
  "monitor_run cfg started [] d = (d, [])"
| "monitor_run cfg started ((incident, fresh, ob) # obs) d =
    (let (d1, es) = evaluateMonitor incident fresh cfg started d ob; (d2, more) = monitor_run cfg started obs d1 in (d2, es @ more))"

text \<open>The observations of one rule under an unchanged billing cycle.\<close>

fun same_cycle :: "alerts_config \<Rightarrow> time \<Rightarrow> (string \<times> string \<times> monitor_observation) list \<Rightarrow> monitor_data \<Rightarrow> bool" where
  "same_cycle cfg started [] d = True"
| "same_cycle cfg started ((incident, fresh, ob) # obs) d \<longleftrightarrow> has_prefix (ru_Key (mo_Status ob)) ''budget_'' \<and>
     (ru_Available (mo_Status ob) \<longrightarrow> ru_Period (mo_Status ob) \<noteq> []) \<and> \<not> billingCycleChanged d ob \<and>
     same_cycle cfg started obs (fst (evaluateMonitor incident fresh cfg started d ob))"

lemma run_crossings:
  assumes "same_cycle cfg started obs d" "md_Milestone d \<in> {0, 80, 100}"
  shows "sorted_wrt point_less (point d # map crossing (snd (monitor_run cfg started obs d))) \<and>
    (\<forall>e \<in> set (snd (monitor_run cfg started obs d)). snd (crossing e) \<in> {80, 100})"
  using assms
proof (induction cfg started obs d rule: monitor_run.induct)
  case (2 cfg started incident fresh ob obs d)
  obtain d1 es where ev: "evaluateMonitor incident fresh cfg started d ob = (d1, es)" by fastforce
  have "moves d (d1, es)" using evaluate_moves [of ob d incident fresh cfg started] "2.prems" by (simp add: ev)
  then have d1: "md_Milestone d1 \<in> {0, 80, 100}" and steps: "es = [] \<and> (point d1 = point d \<or> point_less (point d) (point d1)) \<or>
      (\<exists>e. es = [e] \<and> crossing e = point d1 \<and> point_less (point d) (point d1) \<and> snd (crossing e) \<in> {80, 100})"
    by (auto simp: moves_def)
  have IH: "sorted_wrt point_less (point d1 # map crossing (snd (monitor_run cfg started obs d1))) \<and>
      (\<forall>e \<in> set (snd (monitor_run cfg started obs d1)). snd (crossing e) \<in> {80, 100})"
    using "2.IH" [OF ev [symmetric] refl] "2.prems" d1 by (simp add: ev)
  have events: "snd (monitor_run cfg started ((incident, fresh, ob) # obs) d) = es @ snd (monitor_run cfg started obs d1)"
    by (simp add: ev split_beta)
  have "\<forall>e \<in> set (snd (monitor_run cfg started obs d1)). point_less (point d) (crossing e)"
    using IH steps point_less_trans by fastforce
  then show ?case unfolding events using steps IH by auto
qed simp

text \<open>
  C9: a milestone of a budget is announced once per period. However often the rule is evaluated, with clock jumps, unavailable
  readings, closings and periods skipped in between, the crossings announced are strictly increasing, by period and
  within a period by milestone, as long as the billing cycle is not changed; so none is repeated and a period has at most two, 80 and 100.
\<close>

theorem budget_milestones_once:
  assumes "same_cycle cfg started obs d" "md_Milestone d \<in> {0, 80, 100}" "monitor_run cfg started obs d = (d', es)"
  shows "sorted_wrt point_less (map crossing es) \<and> distinct (map crossing es) \<and> list_all (\<lambda>e. snd (crossing e) \<in> {80, 100}) es \<and>
    length (filter (\<lambda>e. fst (crossing e) = p) es) \<le> 2"
proof -
  have crossings: "sorted_wrt point_less (map crossing es)" "list_all (\<lambda>e. snd (crossing e) \<in> {80, 100}) es"
    using run_crossings [OF assms(1,2)] assms(3) by (auto simp: list_all_iff)
  have "distinct xs" if "sorted_wrt point_less xs" for xs using that by (induction xs) auto
  then have dist: "distinct (map crossing es)" using crossings(1) by blast
  let ?ms = "map (snd \<circ> crossing) (filter (\<lambda>e. fst (crossing e) = p) es)"
  have "inj_on snd (set (map crossing (filter (\<lambda>e. fst (crossing e) = p) es)))" by (auto intro!: inj_onI simp: prod_eq_iff)
  moreover have "distinct (map crossing (filter (\<lambda>e. fst (crossing e) = p) es))" using dist by (rule distinct_map_filter)
  ultimately have "distinct ?ms" by (metis distinct_map map_map)
  moreover have "set ?ms \<subseteq> {80, 100}" using crossings(2) by (auto simp: list_all_iff)
  ultimately have "length ?ms \<le> card {80, 100 :: int}" using card_mono [of "{80, 100 :: int}" "set ?ms"] distinct_card [of ?ms] by simp
  then show ?thesis using crossings dist by simp
qed

section \<open>Health alerts wait and recover\<close>

text \<open>The observations the rule took, in order; those with an older clock were refused.\<close>

fun taken :: "alerts_config \<Rightarrow> time \<Rightarrow> (string \<times> string \<times> monitor_observation) list \<Rightarrow> monitor_data \<Rightarrow> monitor_observation list" where
  "taken cfg started [] d = []"
| "taken cfg started ((incident, fresh, ob) # obs) d = (if monitorRollback d ob then [] else [ob]) @
    taken cfg started obs (fst (evaluateMonitor incident fresh cfg started d ob))"

definition starting :: "alerts_config \<Rightarrow> time \<Rightarrow> monitor_observation \<Rightarrow> bool" where
  "starting cfg started ob \<longleftrightarrow> mo_Now ob < started + ha_GracePeriod (al_Health cfg)"

definition watched :: "monitor_observation \<Rightarrow> bool" where
  "watched ob \<longleftrightarrow> ru_Enabled (mo_Status ob) \<and> mo_Condition ob \<noteq> ''disabled'' \<and> mo_Condition ob \<noteq> ''unknown''"

definition failing :: "monitor_observation \<Rightarrow> bool" where
  "failing ob \<longleftrightarrow> watched ob \<and> mo_Condition ob = ''failed''"

definition good :: "alerts_config \<Rightarrow> time \<Rightarrow> monitor_observation \<Rightarrow> bool" where
  "good cfg started ob \<longleftrightarrow> watched ob \<and> mo_Condition ob \<noteq> ''failed'' \<and> \<not> starting cfg started ob"

text \<open>Since when a failing observation reports the failure.\<close>

definition failing_since :: "monitor_observation \<Rightarrow> time" where
  "failing_since ob = (if \<not> is_zero (mo_Since ob) \<and> mo_Since ob \<le> mo_Now ob then mo_Since ob else mo_Now ob)"

text \<open>The last observations taken all satisfy \<open>P\<close>; \<open>t\<close> is read from the first of them.\<close>

definition stretch :: "(monitor_observation \<Rightarrow> bool) \<Rightarrow> (monitor_observation \<Rightarrow> bool) \<Rightarrow> (monitor_observation \<Rightarrow> time) \<Rightarrow> time \<Rightarrow>
    monitor_observation list \<Rightarrow> bool" where
  "stretch P Q f t obs \<longleftrightarrow> (\<exists>before first rest. obs = before @ first # rest \<and> P first \<and> list_all Q rest \<and> f first = t)"

lemma stretch_new: "P ob \<Longrightarrow> stretch P Q f (f ob) (obs @ [ob])"
  unfolding stretch_def by (metis list.pred_inject(1))

lemma stretch_more:
  assumes "stretch P Q f t obs" "Q ob"
  shows "stretch P Q f t (obs @ [ob])"
proof -
  obtain before first rest where "obs = before @ first # rest" "P first" "list_all Q rest" "f first = t" using assms(1) by (auto simp: stretch_def)
  then have "obs @ [ob] = before @ first # (rest @ [ob]) \<and> P first \<and> list_all Q (rest @ [ob]) \<and> f first = t" using assms(2) by simp
  then show ?thesis unfolding stretch_def by blast
qed

definition not_well :: "alerts_config \<Rightarrow> time \<Rightarrow> monitor_observation \<Rightarrow> bool" where
  "not_well cfg started ob \<longleftrightarrow> watched ob \<and> (mo_Condition ob = ''failed'' \<or> starting cfg started ob)"

definition health_inv :: "alerts_config \<Rightarrow> time \<Rightarrow> monitor_observation list \<Rightarrow> monitor_data \<Rightarrow> bool" where
  "health_inv cfg started obs d \<longleftrightarrow>
     (\<not> is_zero (md_ConditionSince d) \<and> \<not> md_Active d \<longrightarrow> stretch failing (not_well cfg started) failing_since (md_ConditionSince d) obs) \<and>
     (\<not> is_zero (md_RecoverySince d) \<longrightarrow> stretch (good cfg started) (good cfg started) mo_Now (md_RecoverySince d) obs)"

lemma healthStatus_fields [simp]:
  "md_ConditionSince (healthStatus d) = md_ConditionSince d" "md_RecoverySince (healthStatus d) = md_RecoverySince d" "md_Active (healthStatus d) = md_Active d"
  "md_ConditionSince (set_state st d) = md_ConditionSince d" "md_RecoverySince (set_state st d) = md_RecoverySince d" "md_Active (set_state st d) = md_Active d"
  "md_LastNotification (set_state st d) = md_LastNotification d"
  by (simp_all add: healthStatus_def set_state_def)

lemma ev_Phase_set_evidence [simp]: "ev_Phase (set_evidence k v e) = ev_Phase e"
  by (simp add: set_evidence_def)

lemma healthEvent_phase [simp]: "ev_Phase (healthEvent fresh d now phase diagnostic) = phase"
proof -
  have "ev_Phase (fold (\<lambda>(k, v). set_evidence k v) xs e) = ev_Phase e" for xs e
    by (induction xs arbitrary: e) (auto simp: split_beta)
  then show ?thesis by (simp add: healthEvent_def addEvidence_def)
qed

definition justified :: "alerts_config \<Rightarrow> time \<Rightarrow> monitor_observation list \<Rightarrow> event \<Rightarrow> bool" where
  "justified cfg started obs e \<longleftrightarrow>
     (ev_Phase e = ''start'' \<longrightarrow> (\<exists>t. stretch failing (not_well cfg started) failing_since t obs \<and>
        ha_GracePeriod (al_Health cfg) \<le> time_sub (mo_Now (last obs)) t) \<and> \<not> starting cfg started (last obs)) \<and>
     (ev_Phase e = ''recovery'' \<longrightarrow> (\<exists>t. stretch (good cfg started) (good cfg started) mo_Now t obs \<and>
        ha_RecoveryPeriod (al_Health cfg) \<le> time_sub (mo_Now (last obs)) t))"

text \<open>One evaluation of a health rule.\<close>

lemma failed_step:
  assumes "health_inv cfg started obs d" "failing ob" "\<not> is_zero (mo_Now ob)"
    and "health_failed incident fresh (al_Health cfg) (starting cfg started ob) ob d = (d', es)"
  shows "health_inv cfg started (obs @ [ob]) d' \<and> (\<forall>e \<in> set es. justified cfg started (obs @ [ob]) e)"
proof -
  define t where "t = (if is_zero (md_ConditionSince d) then failing_since ob else md_ConditionSince d)"
  have "not_well cfg started ob" using assms(2) by (simp add: failing_def not_well_def)
  then have inactive: "stretch failing (not_well cfg started) failing_since t (obs @ [ob])" if "\<not> md_Active d"
    using that assms(1) stretch_new [of failing ob _ failing_since obs, OF assms(2)] stretch_more [of failing _ failing_since _ obs ob]
    by (auto simp: t_def health_inv_def)
  have set: "failing_since ob = (if \<not> is_zero (mo_Since ob) \<and> mo_Since ob \<le> mo_Now ob then mo_Since ob else mo_Now ob)" by (simp add: failing_since_def)
  show ?thesis
  proof (cases "md_Active d")
    case True
    then show ?thesis using assms(4)
      by (auto simp: health_failed_def Let_def health_inv_def justified_def is_zero_def split: if_splits)
  next
    case False
    then show ?thesis using assms(4) inactive
      by (auto simp: health_failed_def Let_def health_inv_def justified_def is_zero_def t_def set not_less split: if_splits)
  qed
qed

lemma good_step:
  assumes "health_inv cfg started obs d" "watched ob" "mo_Condition ob \<noteq> ''failed''" "\<not> is_zero (mo_Now ob)"
    and "health_good fresh (al_Health cfg) (starting cfg started ob) ob d = (d', es)"
  shows "health_inv cfg started (obs @ [ob]) d' \<and> (\<forall>e \<in> set es. justified cfg started (obs @ [ob]) e)"
proof (cases "starting cfg started ob")
  case True
  then have "not_well cfg started ob" using assms(2) by (simp add: not_well_def)
  then show ?thesis using True assms(1,5) stretch_more [of failing _ failing_since _ obs ob]
    by (auto simp: health_good_def Let_def health_inv_def is_zero_def)
next
  case False
  define t where "t = (if is_zero (md_RecoverySince d) then mo_Now ob else md_RecoverySince d)"
  have g: "good cfg started ob" using assms(2,3) False by (simp add: good_def)
  have "stretch (good cfg started) (good cfg started) mo_Now t (obs @ [ob])"
    using assms(1) stretch_new [of "good cfg started" ob "good cfg started" mo_Now obs, OF g] stretch_more [of "good cfg started" "good cfg started" mo_Now _ obs ob] g
    by (auto simp: t_def health_inv_def)
  then show ?thesis using assms(5) False
    by (auto simp: health_good_def Let_def health_inv_def justified_def is_zero_def t_def not_less split: if_splits)
qed

definition health_rule :: "monitor_observation \<Rightarrow> bool" where
  "health_rule ob \<longleftrightarrow> \<not> has_prefix (ru_Key (mo_Status ob)) ''budget_'' \<and> \<not> is_zero (mo_Now ob)"

lemma health_step:
  assumes "health_inv cfg started obs d" "health_rule ob" "\<not> monitorRollback d ob"
    and "evaluateMonitor incident fresh cfg started d ob = (d', es)"
  shows "health_inv cfg started (obs @ [ob]) d' \<and> (\<forall>e \<in> set es. justified cfg started (obs @ [ob]) e)"
proof -
  define n where "n = (if mo_GeoKnown ob then d\<lparr>md_SchemaVersion := 2, md_ObservedAt := mo_Now ob, md_Status := mo_Status ob,
      md_GeoScheduled := mo_GeoScheduled ob\<rparr> else d\<lparr>md_SchemaVersion := 2, md_ObservedAt := mo_Now ob, md_Status := mo_Status ob\<rparr>)"
  have n: "health_inv cfg started obs n" using assms(1) by (simp add: n_def health_inv_def)
  have eval: "evaluate_health incident fresh (al_Health cfg) started ob
      (d\<lparr>md_SchemaVersion := 2, md_ObservedAt := mo_Now ob, md_Status := mo_Status ob\<rparr>) = (d', es)"
    using assms(2-4) by (simp add: evaluateMonitor_def health_rule_def)
  show ?thesis
  proof (cases "watched ob")
    case False
    then show ?thesis using eval
      by (auto simp: evaluate_health_def Let_def watched_def health_inv_def is_zero_def split: if_splits)
  next
    case w: True
    show ?thesis
    proof (cases "mo_Condition ob = ''failed''")
      case True
      then have "health_failed incident fresh (al_Health cfg) (starting cfg started ob) ob n = (d', es)"
        using eval w by (simp add: evaluate_health_def Let_def watched_def starting_def n_def cong: if_cong)
      then show ?thesis using failed_step [OF n] w True assms(2) by (simp add: failing_def health_rule_def)
    next
      case False
      then have "health_good fresh (al_Health cfg) (starting cfg started ob) ob n = (d', es)"
        using eval w by (simp add: evaluate_health_def Let_def watched_def starting_def n_def cong: if_cong)
      then show ?thesis using good_step [OF n w False] assms(2) by (simp add: health_rule_def)
    qed
  qed
qed

lemma evaluate_taken:
  assumes "health_inv cfg started obs d" "health_rule ob"
  shows "health_inv cfg started (obs @ (if monitorRollback d ob then [] else [ob])) (fst (evaluateMonitor incident fresh cfg started d ob))"
  using health_step [OF assms, of incident fresh] assms(1)
  by (cases "evaluateMonitor incident fresh cfg started d ob") (auto simp: evaluateMonitor_def)

lemma run_health:
  assumes "health_inv cfg started before d" "list_all (\<lambda>(incident, fresh, ob). health_rule ob) obs"
  shows "health_inv cfg started (before @ taken cfg started obs d) (fst (monitor_run cfg started obs d))"
  using assms
proof (induction obs arbitrary: before d)
  case (Cons x obs)
  obtain incident fresh ob where x: "x = (incident, fresh, ob)" by (cases x)
  let ?d = "fst (evaluateMonitor incident fresh cfg started d ob)"
  have "health_inv cfg started (before @ (if monitorRollback d ob then [] else [ob])) ?d"
    using evaluate_taken [OF Cons.prems(1)] Cons.prems(2) x by simp
  from Cons.IH [OF this] Cons.prems(2) show ?case by (simp add: x split_beta)
qed simp

lemma taken_snoc: "taken cfg started (obs @ [(incident, fresh, ob)]) d =
    taken cfg started obs d @ (if monitorRollback (fst (monitor_run cfg started obs d)) ob then [] else [ob])"
  by (induction obs arbitrary: d) (auto simp: split_beta)


section \<open>Applications\<close>

definition no_period :: period_result where
  "no_period = \<lparr>pd_Period = [], pd_Start = zero_time, pd_End = zero_time, pd_Evaluated = False, pd_Reason = [], pd_Milestone = 0, pd_Coverage = []\<rparr>"

definition plain_status :: "string \<Rightarrow> rule_status" where
  "plain_status key = \<lparr>ru_Key = key, ru_State = [], ru_Reason = ''healthy'', ru_Enabled = True, ru_Available = True, ru_Pending = False, ru_Period = [],
     ru_PeriodStart = zero_time, ru_PeriodEnd = zero_time, ru_ObservedBytes = 0, ru_ThresholdBytes = 100, ru_ObservedCost = Fin 0,
     ru_ThresholdCost = Fin 0, ru_Currency = [], ru_GrowthRatio = Fin 0, ru_BaselineMeanBytes = Fin 0, ru_BaselineDays = 0, ru_Milestone = 0,
     ru_Basis = [], ru_Coverage = [], ru_ConditionSince = zero_time, ru_LastNotification = zero_time, ru_PreviousPeriod = no_period,
     ru_LastPersistedObservation = zero_time, ru_PendingSince = zero_time, ru_PendingAgeMS = 0\<rparr>"

definition new_monitor :: "string \<Rightarrow> monitor_data" where
  "new_monitor key = \<lparr>md_SchemaVersion = 2, md_ObservedAt = 0, md_Period = [], md_PeriodStart = zero_time, md_PeriodEnd = zero_time, md_Milestone = 0,
     md_Evaluated = False, md_IncidentID = [], md_Active = False, md_ConditionSince = zero_time, md_RecoverySince = zero_time,
     md_LastNotification = zero_time, md_GeoScheduled = False, md_Status = plain_status key, md_MonthPolicy = None, md_MonthFinalized = False,
     md_PreviousPeriod = no_period\<rparr>"

definition reading :: "time \<Rightarrow> rule_status \<Rightarrow> string \<Rightarrow> monitor_observation" where
  "reading now st cond = \<lparr>mo_Now = now, mo_Status = st, mo_Condition = cond, mo_Since = zero_time, mo_GeoKnown = False, mo_GeoScheduled = False,
     mo_MonthPolicy = None, mo_Closing = False, mo_Diagnostic = []\<rparr>"

definition used :: "time \<Rightarrow> uint64 \<Rightarrow> string \<times> string \<times> monitor_observation" where
  "used now n = (''i'', ''e'', reading now ((plain_status ''budget_month_bytes'')\<lparr>ru_Period := ''2023-11'', ru_ObservedBytes := n\<rparr>) [])"

definition month_readings :: "(string \<times> string \<times> monitor_observation) list" where
  "month_readings = [used hour 79, used (2 * hour) 80, used (3 * hour) 90, used (4 * hour) 120, used (5 * hour) 130]"

lemma month_cycle: "same_cycle defaultAlerts 0 month_readings (new_monitor ''budget_month_bytes'')"
  by code_simp

lemma month_crossings: "map crossing (snd (monitor_run defaultAlerts 0 month_readings (new_monitor ''budget_month_bytes''))) = [(''2023-11'', 80), (''2023-11'', 100)]"
  by code_simp

theorem budget_milestones_once_witness:
  "distinct (map crossing (snd (monitor_run defaultAlerts 0 month_readings (new_monitor ''budget_month_bytes'')))) \<and>
   map crossing (snd (monitor_run defaultAlerts 0 month_readings (new_monitor ''budget_month_bytes''))) = [(''2023-11'', 80), (''2023-11'', 100)]"
  using budget_milestones_once [OF month_cycle _ prod.collapse [symmetric]] month_crossings by (simp add: new_monitor_def)

definition health_reading :: "time \<Rightarrow> string \<Rightarrow> string \<times> string \<times> monitor_observation" where
  "health_reading now cond = (''i'', ''e'', reading now (plain_status ''health_storage'') cond)"

definition sample_failing :: "monitor_data \<times> event list" where
  "sample_failing = (case health_reading (14 * minute) ''failed'' of (incident, fresh, ob) \<Rightarrow> evaluateMonitor incident fresh defaultAlerts 0
     (fst (monitor_run defaultAlerts 0 [health_reading (10 * minute) ''failed'', health_reading (11 * minute) ''failed''] (new_monitor ''health_storage''))) ob)"

lemma sample_starts: "map ev_Phase (snd sample_failing) = [''start'']"
  by code_simp


text \<open>
  A healthy observation within the grace period after the start does not end the wait: a component that failed once, was
  healthy and fails again is reported as soon as the first failure is a grace period old.
\<close>

lemma flapping_at_startup:
  "map ev_Phase (snd (monitor_run defaultAlerts 0 [health_reading (30 * second) ''failed'', health_reading minute ''healthy'',
     health_reading (150 * second) ''failed''] (new_monitor ''health_storage''))) = [''start'']"
  by code_simp

end
