(* ===== verification/Collector.thy ===== *)
theory Collector
  imports Config
begin

text \<open>
  The interface counters, \<open>internal/collector/netdev_set.go\<close> and \<open>interfaces.go\<close>: every poll reads the cumulative
  counters of the selected interfaces and reports what they grew by. What a poll finds (the selection, the readings, the answers of the
  callbacks and whether the receiver of the totals is still there) is an argument.
\<close>

section \<open>Selecting interfaces\<close>

record interface_ref =
  ir_Name :: string
  ir_Index :: int

datatype selection_error = SelectionLimit | SelectionInvalid | SelectionUnavailable | PartialDiscovery | DiscoveryFailed

text \<open>\<open>up name\<close> is the index of a link that exists and is up; \<open>discover\<close> the automatic selection.\<close>

definition ResolveInterfaces :: "interface_ref list \<times> selection_error option \<Rightarrow> (string \<Rightarrow> int option) \<Rightarrow> string list \<Rightarrow>
    interface_ref list \<times> selection_error option" where
  "ResolveInterfaces discover up names =
     (if names = [] then discover
      else if MaxInterfaces < int (length names) then ([], Some SelectionLimit)
      else if \<not> list_all ValidInterfaceName names \<or> \<not> distinct names then ([], Some SelectionInvalid)
      else (sort_by (\<lambda>a b. string_less (ir_Name a) (ir_Name b))
        (map (\<lambda>name. \<lparr>ir_Name = name, ir_Index = (case up name of None \<Rightarrow> 0 | Some i \<Rightarrow> i)\<rparr>) names), None))"

section \<open>One poll\<close>

record net_counters =
  nc_rxBytes :: uint64
  nc_rxPackets :: uint64
  nc_txBytes :: uint64
  nc_txPackets :: uint64

record net_baseline =
  nb_index :: int
  nb_counters :: net_counters
  nb_valid :: bool
  nb_lastDelta :: time

definition no_baseline :: net_baseline where
  "no_baseline = \<lparr>nb_index = 0, nb_counters = \<lparr>nc_rxBytes = 0, nc_rxPackets = 0, nc_txBytes = 0, nc_txPackets = 0\<rparr>, nb_valid = False, nb_lastDelta = zero_time\<rparr>"

record interface_observation =
  io_Name :: string
  io_Index :: int
  io_State :: string
  io_LastDeltaAt :: time

record poll_input =
  pi_now :: time
  pi_refs :: "interface_ref list"
  pi_error :: "selection_error option"
  pi_read :: "string \<Rightarrow> net_counters option"
  pi_receives :: "string \<Rightarrow> bool"
  pi_onDiscovery :: bool
  pi_onState :: "bool \<Rightarrow> bool"
  pi_onInterfaces :: bool

record poll_result =
  pr_next :: "(string \<times> net_baseline) list"
  pr_observations :: "interface_observation list"
  pr_sent :: "interface_totals list"
  pr_healthy :: bool
  pr_readFailed :: bool

text \<open>Why the collection ends, with the totals it sent before.\<close>

datatype poll_stop = ResolvedInvalid | ResolvedDuplicate | Cancelled

definition reading_of :: "poll_input \<Rightarrow> interface_ref \<Rightarrow> net_counters option" where
  "reading_of x ref = (if ir_Index ref \<le> 0 then None else pi_read x (ir_Name ref))"

definition grows_from :: "net_baseline \<Rightarrow> int \<Rightarrow> net_counters \<Rightarrow> bool" where
  "grows_from b i c \<longleftrightarrow> nb_valid b \<and> nb_index b = i \<and> nc_rxBytes (nb_counters b) \<le> nc_rxBytes c \<and> nc_txBytes (nb_counters b) \<le> nc_txBytes c \<and>
     nc_rxPackets (nb_counters b) \<le> nc_rxPackets c \<and> nc_txPackets (nb_counters b) \<le> nc_txPackets c"

definition delta_totals :: "string \<Rightarrow> time \<Rightarrow> net_counters \<Rightarrow> net_counters \<Rightarrow> interface_totals" where
  "delta_totals name now old c = \<lparr>it_Interface = name, it_HourUTC = now, it_RXBytes = nc_rxBytes c - nc_rxBytes old, it_TXBytes = nc_txBytes c - nc_txBytes old,
     it_RXPackets = nc_rxPackets c - nc_rxPackets old, it_TXPackets = nc_txPackets c - nc_txPackets old\<rparr>"

definition observed :: "interface_ref \<Rightarrow> string \<Rightarrow> time \<Rightarrow> interface_observation" where
  "observed ref st t = \<lparr>io_Name = ir_Name ref, io_Index = ir_Index ref, io_State = st, io_LastDeltaAt = t\<rparr>"

fun poll_refs :: "poll_input \<Rightarrow> (string \<times> net_baseline) list \<Rightarrow> interface_ref list \<Rightarrow> poll_result \<Rightarrow>
    (poll_stop \<times> interface_totals list) + poll_result" where
  "poll_refs x baselines [] acc = Inr acc"
| "poll_refs x baselines (ref # refs) acc =
    (if \<not> ValidInterfaceName (ir_Name ref) then Inl (ResolvedInvalid, pr_sent acc)
     else if map_of (pr_next acc) (ir_Name ref) \<noteq> None then Inl (ResolvedDuplicate, pr_sent acc)
     else
       let previous = (case map_of baselines (ir_Name ref) of None \<Rightarrow> no_baseline | Some b \<Rightarrow> b) in
       case reading_of x ref of
         None \<Rightarrow> poll_refs x baselines refs (acc\<lparr>pr_readFailed := True, pr_healthy := False,
           pr_next := AList.update (ir_Name ref) (previous\<lparr>nb_valid := False\<rparr>) (pr_next acc),
           pr_observations := pr_observations acc @ [observed ref ''degraded'' (nb_lastDelta previous)]\<rparr>)
       | Some c \<Rightarrow>
           if grows_from previous (ir_Index ref) c then
             if pi_receives x (ir_Name ref) then poll_refs x baselines refs (acc\<lparr>
               pr_sent := pr_sent acc @ [delta_totals (ir_Name ref) (pi_now x) (nb_counters previous) c],
               pr_next := AList.update (ir_Name ref) \<lparr>nb_index = ir_Index ref, nb_counters = c, nb_valid = True, nb_lastDelta = pi_now x\<rparr> (pr_next acc),
               pr_observations := pr_observations acc @ [observed ref ''running'' (pi_now x)]\<rparr>)
             else Inl (Cancelled, pr_sent acc)
           else poll_refs x baselines refs (acc\<lparr>pr_healthy := False,
             pr_next := AList.update (ir_Name ref) \<lparr>nb_index = ir_Index ref, nb_counters = c, nb_valid = True, nb_lastDelta = nb_lastDelta previous\<rparr> (pr_next acc),
             pr_observations := pr_observations acc @ [observed ref ''degraded'' (nb_lastDelta previous)]\<rparr>))"

record net_state =
  ns_baselines :: "(string \<times> net_baseline) list"
  ns_reported :: bool
  ns_healthy :: bool

definition net_start :: net_state where
  "net_start = \<lparr>ns_baselines = [], ns_reported = False, ns_healthy = False\<rparr>"

definition report :: "poll_input \<Rightarrow> bool \<Rightarrow> net_state \<Rightarrow> net_state" where
  "report x healthy st = (if (\<not> ns_reported st \<or> ns_healthy st \<noteq> healthy) \<and> pi_onState x healthy
     then st\<lparr>ns_reported := True, ns_healthy := healthy\<rparr> else st)"

definition usable :: "poll_input \<Rightarrow> bool" where
  "usable x \<longleftrightarrow> (pi_error x = None \<or> pi_error x = Some PartialDiscovery) \<and> pi_refs x \<noteq> [] \<and> int (length (pi_refs x)) \<le> MaxInterfaces"

text \<open>One turn of the loop of \<open>runSet\<close>.\<close>

definition runSet_pass :: "poll_input \<Rightarrow> net_state \<Rightarrow> (poll_stop \<times> interface_totals list) + (net_state \<times> interface_observation list \<times> interface_totals list)" where
  "runSet_pass x st0 =
     (let st1 = (if pi_onDiscovery x then st0 else report x False st0);
          finish = (\<lambda>st. if pi_onInterfaces x then st else report x False st)
      in if \<not> usable x then Inr (finish (report x False (st1\<lparr>ns_baselines := []\<rparr>)), [], [])
         else case poll_refs x (ns_baselines st1) (pi_refs x)
             \<lparr>pr_next = [], pr_observations = [], pr_sent = [], pr_healthy = (pi_error x = None), pr_readFailed = False\<rparr> of
           Inl stop \<Rightarrow> Inl stop
         | Inr acc \<Rightarrow>
             let st2 = st1\<lparr>ns_baselines := pr_next acc\<rparr>;
                 st3 = (if pr_healthy acc then report x True st2
                        else if pi_error x \<noteq> None then report x False st2
                        else if ns_reported st2 \<or> pr_readFailed acc then report x False st2 else st2)
             in Inr (finish st3, pr_observations acc, pr_sent acc))"

fun runSet :: "poll_input list \<Rightarrow> net_state \<Rightarrow> interface_totals list \<times> net_state option" where
  "runSet [] st = ([], Some st)"
| "runSet (x # xs) st = (case runSet_pass x st of
     Inl (stop, sent) \<Rightarrow> (sent, None)
   | Inr (st', obs, sent) \<Rightarrow> (let (more, last) = runSet xs st' in (sent @ more, last)))"


section \<open>Totals are the growth of the counters\<close>

text \<open>What a poll sees of an interface: its index and counters, when both could be read.\<close>

definition ref_view :: "poll_input \<Rightarrow> interface_ref list \<Rightarrow> string \<Rightarrow> (int \<times> net_counters) option" where
  "ref_view x refs name = (case find (\<lambda>r. ir_Name r = name) refs of None \<Rightarrow> None | Some r \<Rightarrow> map_option (Pair (ir_Index r)) (reading_of x r))"

definition view :: "string \<Rightarrow> poll_input \<Rightarrow> (int \<times> net_counters) option" where
  "view name x = (if usable x then ref_view x (pi_refs x) name else None)"

definition counters_le :: "net_counters \<Rightarrow> net_counters \<Rightarrow> bool" where
  "counters_le a b \<longleftrightarrow> nc_rxBytes a \<le> nc_rxBytes b \<and> nc_txBytes a \<le> nc_txBytes b \<and> nc_rxPackets a \<le> nc_rxPackets b \<and> nc_txPackets a \<le> nc_txPackets b"

definition change :: "string \<Rightarrow> time \<Rightarrow> (int \<times> net_counters) option \<Rightarrow> (int \<times> net_counters) option \<Rightarrow> interface_totals list" where
  "change name now before after = (case (before, after) of
     (Some (i, a), Some (j, b)) \<Rightarrow> if i = j \<and> counters_le a b then [delta_totals name now a b] else [] | _ \<Rightarrow> [])"

text \<open>The reference: the growth between two consecutive views of the same link.\<close>

fun growth :: "string \<Rightarrow> (int \<times> net_counters) option \<Rightarrow> poll_input list \<Rightarrow> interface_totals list" where
  "growth name before [] = []"
| "growth name before (x # xs) = change name (pi_now x) before (view name x) @ growth name (view name x) xs"

definition baseline_view :: "(string \<times> net_baseline) list \<Rightarrow> string \<Rightarrow> (int \<times> net_counters) option" where
  "baseline_view bs name = (case map_of bs name of None \<Rightarrow> None | Some b \<Rightarrow> if nb_valid b then Some (nb_index b, nb_counters b) else None)"

definition of_interface :: "string \<Rightarrow> interface_totals list \<Rightarrow> interface_totals list" where
  "of_interface name ts = filter (\<lambda>t. it_Interface t = name) ts"

lemma of_interface_simps [simp]:
  "of_interface name [] = []" "of_interface name (xs @ ys) = of_interface name xs @ of_interface name ys"
  "of_interface name [delta_totals other now a b] = (if other = name then [delta_totals other now a b] else [])"
  by (simp_all add: of_interface_def delta_totals_def)

lemma poll_known:
  assumes "poll_refs x bs refs acc = Inr acc'" "map_of (pr_next acc) name \<noteq> None"
  shows "name \<notin> ir_Name ` set refs" "map_of (pr_next acc') name = map_of (pr_next acc) name"
  using assms
  by (induction x bs refs acc rule: poll_refs.induct) (auto simp: Let_def update_conv' split: if_splits option.splits)

lemma poll_ref:
  assumes "poll_refs x bs (ref # refs) acc = Inr acc'"
  obtains acc1 where "poll_refs x bs refs acc1 = Inr acc'" "map_of (pr_next acc) (ir_Name ref) = None"
    "baseline_view (pr_next acc1) = (baseline_view (pr_next acc))(ir_Name ref := map_option (Pair (ir_Index ref)) (reading_of x ref))"
    "map_of (pr_next acc1) (ir_Name ref) \<noteq> None"
    "of_interface name (pr_sent acc1) = of_interface name (pr_sent acc) @
      (if name = ir_Name ref then change name (pi_now x) (baseline_view bs name) (map_option (Pair (ir_Index ref)) (reading_of x ref)) else [])"
  using assms
  by (auto simp: Let_def baseline_view_def fun_eq_iff update_conv' change_def counters_le_def grows_from_def no_baseline_def split: if_splits option.splits)

lemma ref_view_none: "name \<notin> ir_Name ` set refs \<Longrightarrow> ref_view x refs name = None"
proof -
  assume "name \<notin> ir_Name ` set refs"
  then have "find (\<lambda>r. ir_Name r = name) refs = None" by (auto simp: find_None_iff)
  then show ?thesis by (simp add: ref_view_def)
qed

lemma poll_totals:
  assumes "poll_refs x bs refs acc = Inr acc'"
  shows "of_interface name (pr_sent acc') = of_interface name (pr_sent acc) @ change name (pi_now x) (baseline_view bs name) (ref_view x refs name) \<and>
    baseline_view (pr_next acc') name = (if name \<in> ir_Name ` set refs then ref_view x refs name else baseline_view (pr_next acc) name)"
  using assms
proof (induction refs arbitrary: acc)
  case Nil
  then show ?case by (auto simp: ref_view_def change_def split: option.splits)
next
  case (Cons ref refs)
  obtain acc1 where 1: "poll_refs x bs refs acc1 = Inr acc'"
    "baseline_view (pr_next acc1) = (baseline_view (pr_next acc))(ir_Name ref := map_option (Pair (ir_Index ref)) (reading_of x ref))"
    "map_of (pr_next acc1) (ir_Name ref) \<noteq> None"
    "of_interface name (pr_sent acc1) = of_interface name (pr_sent acc) @
      (if name = ir_Name ref then change name (pi_now x) (baseline_view bs name) (map_option (Pair (ir_Index ref)) (reading_of x ref)) else [])"
    using Cons.prems by (rule poll_ref)
  note IH = Cons.IH [OF 1(1)]
  show ?case
  proof (cases "name = ir_Name ref")
    case True
    then have "name \<notin> ir_Name ` set refs" using poll_known(1) [OF 1(1,3)] by simp
    then have "ref_view x refs name = None" by (rule ref_view_none)
    then show ?thesis using IH 1(2,4) True \<open>name \<notin> ir_Name ` set refs\<close> by (simp add: ref_view_def change_def split: option.splits)
  next
    case False
    then show ?thesis using IH 1(2,4) by (auto simp: ref_view_def)
  qed
qed

lemma report_baselines [simp]: "ns_baselines (report x h st) = ns_baselines st"
  by (simp add: report_def)

lemma pass_totals:
  assumes "runSet_pass x st = Inr (st', obs, sent)"
  shows "of_interface name sent = change name (pi_now x) (baseline_view (ns_baselines st) name) (view name x) \<and>
    baseline_view (ns_baselines st') name = view name x"
proof (cases "usable x")
  case False
  then show ?thesis using assms
    by (auto simp: runSet_pass_def Let_def view_def change_def baseline_view_def split: option.splits if_splits)
next
  case True
  let ?acc = "\<lparr>pr_next = [], pr_observations = [], pr_sent = [], pr_healthy = (pi_error x = None), pr_readFailed = False\<rparr>"
  have bs: "ns_baselines (if pi_onDiscovery x then st else report x False st) = ns_baselines st" by simp
  obtain acc where acc: "poll_refs x (ns_baselines st) (pi_refs x) ?acc = Inr acc"
    using assms True by (auto simp: runSet_pass_def Let_def bs split: sum.splits)
  have st': "ns_baselines st' = pr_next acc" and sent: "sent = pr_sent acc"
    using assms True acc by (auto simp: runSet_pass_def Let_def bs)
  show ?thesis using poll_totals [OF acc, of name] ref_view_none [of name "pi_refs x" x] True by (auto simp: st' sent view_def baseline_view_def)
qed

lemma run_totals:
  assumes "runSet xs st = (sent, Some st')"
  shows "of_interface name sent = growth name (baseline_view (ns_baselines st) name) xs"
  using assms
proof (induction xs arbitrary: st sent)
  case (Cons x xs)
  then obtain st1 obs now more where 1: "runSet_pass x st = Inr (st1, obs, now)" and 2: "runSet xs st1 = (more, Some st')" "sent = now @ more"
    by (auto split: sum.splits prod.splits)
  show ?case using pass_totals [OF 1, of name] Cons.IH [OF 2(1)] by (simp add: 2(2))
qed simp

lemma growth_telescopes:
  assumes "map (view name) xs = map (\<lambda>c. Some (i, c)) cs" "sorted_wrt counters_le (c0 # cs)"
  shows "(\<Sum>t\<leftarrow>growth name (Some (i, c0)) xs. uint (it_RXBytes t)) = uint (nc_rxBytes (last (c0 # cs))) - uint (nc_rxBytes c0) \<and>
    (\<Sum>t\<leftarrow>growth name (Some (i, c0)) xs. uint (it_TXBytes t)) = uint (nc_txBytes (last (c0 # cs))) - uint (nc_txBytes c0)"
  using assms
proof (induction xs arbitrary: c0 cs)
  case (Cons x xs)
  obtain c rest where cs: "cs = c # rest" using Cons.prems(1) by (cases cs) auto
  then have v: "view name x = Some (i, c)" and rest: "map (view name) xs = map (\<lambda>c. Some (i, c)) rest" using Cons.prems(1) by auto
  have le: "counters_le c0 c" and sorted: "sorted_wrt counters_le (c # rest)" using Cons.prems(2) cs by auto
  show ?case using Cons.IH [OF rest sorted] le
    by (simp add: v cs change_def delta_totals_def counters_le_def uint_minus_simple_alt word_le_def)
qed simp


text \<open>An explicit selection never stops the collection.\<close>

lemma poll_continues:
  assumes "ValidInterfaceName (ir_Name ref)" "map_of (pr_next acc) (ir_Name ref) = None" "\<forall>n. pi_receives x n"
    "poll_refs x bs (ref # refs) acc = r"
  obtains acc1 b where "poll_refs x bs refs acc1 = r" "pr_next acc1 = AList.update (ir_Name ref) b (pr_next acc)"
  using assms by (cases "reading_of x ref") (auto simp: Let_def split: if_splits)

lemma poll_completes:
  assumes "list_all (\<lambda>r. ValidInterfaceName (ir_Name r)) refs" "distinct (map ir_Name refs)" "\<forall>n. pi_receives x n"
    "\<forall>r \<in> set refs. map_of (pr_next acc) (ir_Name r) = None"
  shows "\<exists>acc'. poll_refs x bs refs acc = Inr acc'"
  using assms
proof (induction refs arbitrary: acc)
  case (Cons ref refs)
  obtain acc1 b where same: "poll_refs x bs refs acc1 = poll_refs x bs (ref # refs) acc" and next1: "pr_next acc1 = AList.update (ir_Name ref) b (pr_next acc)"
    by (rule poll_continues [of ref acc x bs refs "poll_refs x bs (ref # refs) acc"]) (use Cons.prems in \<open>simp_all del: poll_refs.simps\<close>)
  have "\<exists>acc'. poll_refs x bs refs acc1 = Inr acc'" by (rule Cons.IH) (use Cons.prems in \<open>auto simp: next1 update_conv' image_iff\<close>)
  then show ?case unfolding same .
qed simp

lemma explicit_selection:
  assumes "ResolveInterfaces discover up names = (refs, None)" "names \<noteq> []"
  shows "list_all (\<lambda>r. ValidInterfaceName (ir_Name r)) refs" "distinct (map ir_Name refs)" "int (length refs) \<le> MaxInterfaces"
proof -
  let ?f = "\<lambda>name. \<lparr>ir_Name = name, ir_Index = (case up name of None \<Rightarrow> 0 | Some i \<Rightarrow> i)\<rparr>"
  have ok: "list_all ValidInterfaceName names" "distinct names" "int (length names) \<le> MaxInterfaces"
    and refs: "mset refs = image_mset ?f (mset names)" "set refs = ?f ` set names" "length refs = length names"
    using assms by (auto simp: ResolveInterfaces_def split: if_splits)
  show "list_all (\<lambda>r. ValidInterfaceName (ir_Name r)) refs" using ok(1) by (auto simp: list_all_iff refs(2))
  show "int (length refs) \<le> MaxInterfaces" using ok(3) refs(3) by simp
  have "mset (map ir_Name refs) = mset names" by (simp add: refs(1) image_mset.compositionality comp_def)
  then show "distinct (map ir_Name refs)" using ok(2) by (metis mset_eq_imp_distinct_iff)
qed

lemma explicit_never_stops:
  assumes "ResolveInterfaces discover up names = (pi_refs x, pi_error x)" "names \<noteq> []" "\<forall>n. pi_receives x n"
  shows "\<exists>st' obs sent. runSet_pass x st = Inr (st', obs, sent)"
proof (cases "usable x")
  case False
  then show ?thesis by (simp add: runSet_pass_def Let_def)
next
  case True
  have "pi_error x \<noteq> Some PartialDiscovery" using assms(1,2) by (auto simp: ResolveInterfaces_def split: if_splits)
  then have "ResolveInterfaces discover up names = (pi_refs x, None)" using assms(1) True by (auto simp: usable_def)
  note ok = explicit_selection [OF this assms(2)]
  let ?acc = "\<lparr>pr_next = [], pr_observations = [], pr_sent = [], pr_healthy = (pi_error x = None), pr_readFailed = False\<rparr>"
  have bs: "ns_baselines (if pi_onDiscovery x then st else report x False st) = ns_baselines st" by simp
  obtain acc where "poll_refs x (ns_baselines st) (pi_refs x) ?acc = Inr acc"
    using poll_completes [OF ok(1,2) assms(3), of ?acc] by auto
  then show ?thesis using True by (simp add: runSet_pass_def Let_def bs)
qed

section \<open>Application\<close>

definition sample_poll :: "time \<Rightarrow> int \<Rightarrow> uint64 option \<Rightarrow> poll_input" where
  "sample_poll now i bytes = \<lparr>pi_now = now, pi_refs = [\<lparr>ir_Name = ''eth0'', ir_Index = i\<rparr>], pi_error = None,
     pi_read = (\<lambda>name. map_option (\<lambda>n. \<lparr>nc_rxBytes = n, nc_rxPackets = 1, nc_txBytes = n + 1, nc_txPackets = 1\<rparr>) bytes), pi_receives = (\<lambda>name. True),
     pi_onDiscovery = True, pi_onState = (\<lambda>h. True), pi_onInterfaces = True\<rparr>"

definition sample_polls :: "poll_input list" where
  "sample_polls = [sample_poll 0 2 (Some 100), sample_poll second 2 (Some 140), sample_poll (2 * second) 2 (Some 150)]"

lemma sample_polled: "case runSet sample_polls net_start of (sent, Some st) \<Rightarrow> map it_RXBytes sent = [40, 10] | _ \<Rightarrow> False"
  by code_simp


end
