(* ===== verification/Spec2Isabelle.thy ===== *)
theory Spec2Isabelle
  imports Aggregate Delivery Fleet AuthDetect SensorCommit AlertSafety Worker Monitor Collector
begin

text \<open>
  NodeRampart watches one host. A sensor reads packets, aggregates them into batches and sends these over a socket to the
  daemon; the daemon validates a batch, looks for floods, scans and login attacks, stores traffic, health and events in one
  SQLite database and delivers notifications through an outbox. This development models that path, from the bytes of a frame to the
  request handed to a notification platform, as HOL functions translated from the Go sources under \<open>src/internal\<close>.

  \<^bold>\<open>Foundations.\<close>
  \<^item> \<open>GoPrelude\<close>: machine integers as words, saturating addition, instants in nanoseconds with Go's zero time and saturating \<open>Sub\<close>, maps as
    association lists, byte-wise strings, UTF-8 validity, \<open>sort.Slice\<close> as a stable sort.
  \<^item> \<open>Float64\<close>: binary64 with round to nearest even over the rationals. \<open>Netip\<close>: parsing and printing of addresses and prefixes.
  \<^item> \<open>Model\<close>, \<open>Config\<close>: the records of \<open>internal/model\<close> and of the detector settings. A formatted text stays a format with its arguments.
  \<^item> \<open>Interfaces\<close>: the contracts between components as locales. \<open>stream_codec\<close> (interpreted on the framing) reads back any number of
    messages; \<open>cumulative\<close> (on the health counters) makes accepted differences add up; \<open>budget_clients\<close> (on the detectors of a fleet) shares one
    budget; \<open>transactional\<close> (on the event, silence, journal and monitor transactions) lifts what successful calls keep to any
    sequence of calls, failing ones included.

  \<^bold>\<open>Sensor.\<close>
  \<^item> \<open>Packet\<close> (\<open>sensor/packet.go\<close>): every slice access is bounds-checked and an access outside would be the outcome \<open>Panic\<close>. No frame
    panics, an IPv4 TCP frame is decoded to what it was built from.
  \<^item> \<open>Aggregate\<close> (\<open>sensor/aggregate.go\<close>): a window of packets; a flush accounts every byte and packet once, in a flow or in the overflow, in an
    order that does not depend on map iteration, and the batch passes the daemon's validation.
  \<^item> \<open>Protocol\<close> (\<open>protocol/*.go\<close>): validation of a batch, health differences, framing over a writer that may write in pieces.
  \<^item> \<open>Delivery\<close> (\<open>sensor/delivery.go\<close>): numbering, loss counters, acknowledgements; a batch is complete only by its own acknowledgement.
  \<^item> \<open>Collector\<close> (\<open>collector/netdev_set.go\<close>, \<open>interfaces.go\<close>): the interface counters; the totals equal the growth between consecutive
    readings of the same link.

  \<^bold>\<open>Detection.\<close>
  \<^item> \<open>Network\<close>, \<open>Fleet\<close> (\<open>detect/network.go\<close>, \<open>fleet.go\<close>): floods with recovery, scans, UDP requests, bounded tables and a
    shared port budget; \<open>AuthDetect\<close> (\<open>detect/auth.go\<close>): a sliding window of failures per source with slice capacities, thresholds and cooldown.
  \<^item> \<open>Monitor\<close> (\<open>daemon/monitor_state.go\<close>, \<open>monitor_month.go\<close>, \<open>config/alerts_config.go\<close>): budget milestones and health alerts as a function of
    state and observation; milestones are announced once, alerts wait for the grace period and recoveries for the recovery period.

  \<^bold>\<open>Store.\<close> Tables are lists of records inside one record per group of tables; an operation maps a store to a result and a store. A
  transaction is a function whose store is dropped on error; its first argument says whether one of its statements fails.
  \<^item> \<open>Retention\<close> (\<open>retention.go\<close>): the ledger of removed rows, exact up to saturation. \<open>Traffic\<close> (\<open>store.go\<close>): hourly traffic with bounded keys.
  \<^item> \<open>SensorCommit\<close> (\<open>sensor_commits.go\<close>): watermarks per session; a batch is accounted at most once whatever is committed after it, the hourly
    health adds up to the last counters reported.
  \<^item> \<open>Outbox\<close>, \<open>OutboxQueue\<close>, \<open>Official\<close> (\<open>store.go\<close>, \<open>queue.go\<close>, \<open>alerts.go\<close>, \<open>notification_targets.go\<close>,
    \<open>official_dispatch.go\<close>): admission, claims, pacing, operator actions, consent, daily budgets, requests and their outcomes, receipt
    polling, recovery after a restore.
  \<^item> \<open>Alerts\<close>, \<open>Journal\<close> (\<open>alerts.go\<close>, \<open>silences.go\<close>, \<open>journal.go\<close>, \<open>monitor_state.go\<close>, \<open>store.go\<close>): an event with its
    decisions in one transaction, merging of updates, silences, journal entries with their cursor, login counts, monitor states under a revision.
    \<open>AlertSafety\<close> shows that each is accounted once.
  \<^item> \<open>DispatchRun\<close>: \<open>outbox_step\<close> relates a store to the next one by any of the operations above, with a label; \<open>outbox_run\<close> is their closure.
    Operations that cannot authorise a request are shown to be \<open>quiet\<close> once, and the invariant \<open>request_inv\<close> holds on every run.
    \<open>DispatchSafety\<close>: no request is repeated unless the platform refused it, repeats are recognisable, there are at most ten.
    \<open>DispatchLife\<close>: the abstract life of a request and its refinement by every run, consent, daily budgets, settling of abandoned requests.
  \<^item> \<open>Worker\<close> (\<open>notify/worker.go\<close>, \<open>worker_official.go\<close>): whole passes of the delivery worker as actions on the store. Every pass is a run of
    the store in which each request to the platform was authorised, so the bounds on authorisations bound what is sent.

  \<^bold>\<open>Bounds.\<close> The model needs no fuel except in \<open>inspect\<close> (\<open>Outbox\<close>), which carries the nesting limit the code itself carries. Loops are structural
  recursions over the data they walk. Counters are 64-bit words where the code relies on their width, and integers where the
  code checks the bound first or SQLite stores them; SQLite's own integer overflow is not modelled.

  \<^bold>\<open>Parameters.\<close> JSON encoding and parsing, the hash of a cursor, drawn identifiers and nonces, clocks, random jitter, the answers of sockets,
  platforms and callbacks, and the failing of a statement are arguments, and no theorem assumes more of them than it states. Goroutines are
  covered as far as a mutex or a transaction makes their steps atomic: the runs interleave whole operations in any order.

  \<^bold>\<open>Not modelled.\<close> Sockets, raw capture, child processes and netlink (\<open>sensor/capture_linux.go\<close>, \<open>collector/journal*.go\<close>, \<open>routes_linux.go\<close>),
  platform requests and message wording (\<open>notify\<close>), reports and calendars (\<open>report\<close>), tariffs (\<open>billing\<close>), downloaded databases (\<open>assets\<close>,
  \<open>enrich\<close>), schema migration, backup, integrity checks and the disk budget of the store, read-only views, the daemon's supervision and
  the command line tools. They are input and output, third-party formats or display; where a modelled component uses one of them, its outcome
  is an argument. Of the monitor, reading a stored state back and the loop that collects observations are left out, of the store the
  foreign keys and the branch of \<open>markRestoredOfficialHold\<close> for older schemas.
\<close>

end
